(* ===== verification/Fluence_Prelude.thy ===== *)
theory Fluence_Prelude
  imports Main "HOL-Library.AList" "HOL-Library.Char_ord" "HOL-Library.List_Lexorder"
    "HOL-Library.Word"
begin

text \<open>
  Shared vocabulary of the development: Go's machine integers, strings, runes, decimal
  conversions and maps, with the lemmas the components need about them.

  A Go string is a sequence of bytes, so it is a HOL \<open>string\<close> (a list of 8-bit
  characters); \<open>sort\<close> on strings is the bytewise order of \<open>sort.Strings\<close>.
  Go's \<open>int\<close> and \<open>int64\<close> are 64 bits wide: a value is an \<open>int\<close>, and every
  arithmetic operation on user-controlled input is wrapped by \<open>i64\<close> (\<open>i32\<close> for
  \<open>int32\<close>). A Flux jobid is a \<open>uint64\<close>, a \<open>64 word\<close>.

  A Go map that the code iterates is an association list with distinct keys
  (\<open>gomap_ok\<close>): its list order is the iteration order, which Go leaves unspecified, so a
  theorem about every list is a theorem about every iteration order.
\<close>

named_theorems go_simps \<open>rewrite rules for the Go vocabulary\<close>

section \<open>Integers of fixed width\<close>

type_synonym uint64 = "64 word"

definition i64 :: "int \<Rightarrow> int" where
  "i64 x = signed_take_bit 63 x"

definition i32 :: "int \<Rightarrow> int" where
  "i32 x = signed_take_bit 31 x"

definition fits64 :: "int \<Rightarrow> bool" where
  "fits64 x \<longleftrightarrow> - (2 ^ 63) \<le> x \<and> x < 2 ^ 63"

definition fits32 :: "int \<Rightarrow> bool" where
  "fits32 x \<longleftrightarrow> - (2 ^ 31) \<le> x \<and> x < 2 ^ 31"

lemma i64_id [go_simps]: "fits64 x \<Longrightarrow> i64 x = x"
  unfolding i64_def fits64_def by (rule signed_take_bit_int_eq_self) auto

lemma i32_id [go_simps]: "fits32 x \<Longrightarrow> i32 x = x"
  unfolding i32_def fits32_def by (rule signed_take_bit_int_eq_self) auto

lemma fits64_i64: "fits64 (i64 x)"
  unfolding fits64_def i64_def
  using signed_take_bit_int_greater_eq_minus_exp [of 63 x] signed_take_bit_int_less_exp [of 63 x]
  by simp

text \<open>Go's integer division truncates towards zero.\<close>

definition go_div :: "int \<Rightarrow> int \<Rightarrow> int" where
  "go_div a b = sgn a * sgn b * (\<bar>a\<bar> div \<bar>b\<bar>)"

lemma go_div_nonneg [go_simps]: "0 \<le> a \<Longrightarrow> 0 < b \<Longrightarrow> go_div a b = a div b"
  by (cases "a = 0") (auto simp: go_div_def)

section \<open>Strings\<close>

definition has_prefix :: "string \<Rightarrow> string \<Rightarrow> bool" where
  "has_prefix s p \<longleftrightarrow> take (length p) s = p"

definition trim_prefix :: "string \<Rightarrow> string \<Rightarrow> string" where
  "trim_prefix s p = (if has_prefix s p then drop (length p) s else s)"

definition has_suffix :: "string \<Rightarrow> string \<Rightarrow> bool" where
  "has_suffix s p \<longleftrightarrow> length p \<le> length s \<and> drop (length s - length p) s = p"

lemma has_prefix_append [simp]: "has_prefix (p @ s) p"
  by (simp add: has_prefix_def)

lemma trim_prefix_append [simp]: "trim_prefix (p @ s) p = s"
  by (simp add: trim_prefix_def)

lemma has_prefixE: "has_prefix s p \<Longrightarrow> (\<And>r. s = p @ r \<Longrightarrow> P) \<Longrightarrow> P"
  unfolding has_prefix_def by (metis append_take_drop_id)

lemma prefix_trim_prefix: "has_prefix s p \<Longrightarrow> p @ trim_prefix s p = s"
  by (auto elim: has_prefixE)

lemma has_suffix_append [simp]: "has_suffix (s @ p) p"
  by (simp add: has_suffix_def)

text \<open>\<open>strings.IndexByte\<close>, with None for the source's -1.\<close>

fun index_byte :: "string \<Rightarrow> char \<Rightarrow> nat option" where
  "index_byte [] c = None"
| "index_byte (x # xs) c = (if x = c then Some 0 else map_option Suc (index_byte xs c))"

lemma index_byte_append: "c \<notin> set xs \<Longrightarrow> index_byte (xs @ c # ys) c = Some (length xs)"
  by (induction xs) auto

lemma index_byte_None [simp]: "index_byte xs c = None \<longleftrightarrow> c \<notin> set xs"
  by (induction xs) auto

lemma index_byte_Some:
  "index_byte xs c = Some i \<Longrightarrow> i < length xs \<and> xs ! i = c \<and> c \<notin> set (take i xs)"
  by (induction xs arbitrary: i) (auto split: if_splits)

text \<open>\<open>strings.Split\<close> with a one-byte separator, and \<open>strings.Join\<close>.\<close>

fun split_on :: "char \<Rightarrow> string \<Rightarrow> string list" where
  "split_on c [] = [[]]"
| "split_on c (x # xs) =
     (if x = c then [] # split_on c xs
      else (case split_on c xs of [] \<Rightarrow> [[x]] | y # ys \<Rightarrow> (x # y) # ys))"

fun join_with :: "string \<Rightarrow> string list \<Rightarrow> string" where
  "join_with sep [] = []"
| "join_with sep [x] = x"
| "join_with sep (x # y # ys) = x @ sep @ join_with sep (y # ys)"

lemma split_on_nonempty [simp]: "split_on c xs \<noteq> []"
  by (cases xs) (auto split: list.splits)

lemma split_on_plain: "c \<notin> set xs \<Longrightarrow> split_on c xs = [xs]"
  by (induction xs) auto

lemma split_on_append: "c \<notin> set xs \<Longrightarrow> split_on c (xs @ c # ys) = xs # split_on c ys"
  by (induction xs) auto

lemma split_on_join:
  "ps \<noteq> [] \<Longrightarrow> \<forall>p \<in> set ps. c \<notin> set p \<Longrightarrow> split_on c (join_with [c] ps) = ps"
  by (induction "[c]" ps rule: join_with.induct) (auto simp: split_on_plain split_on_append)

text \<open>
  \<open>strings.TrimSpace\<close>: the runes with Unicode's White\_Space property, each as the bytes of its
  UTF-8 encoding, are taken off both ends. In front that is what the first rune decodes to; behind,
  Go decodes the last rune from its first byte on, so a suffix of these bytes is that rune too.
\<close>

definition white_space :: "string list" where
  "white_space = map (map char_of)
     ([[9], [10], [11], [12], [13], [32], [0xC2, 0x85], [0xC2, 0xA0], [0xE1, 0x9A, 0x80],
       [0xE2, 0x80, 0xA8], [0xE2, 0x80, 0xA9], [0xE2, 0x80, 0xAF], [0xE2, 0x81, 0x9F], [0xE3, 0x80, 0x80]]
      @ map (\<lambda>b. [0xE2, 0x80, b]) [0x80 ..< (0x8B :: nat)])"

function strip :: "string list \<Rightarrow> string \<Rightarrow> string" where
  "strip ws s =
     (case find (\<lambda>w. w \<noteq> [] \<and> take (length w) s = w) ws of
        None \<Rightarrow> s
      | Some w \<Rightarrow> strip ws (drop (length w) s))"
  by pat_completeness auto

termination
proof (relation "measure (\<lambda>(ws, s). length s)")
  fix ws s w
  assume "find (\<lambda>w. w \<noteq> [] \<and> take (length w) s = w) ws = Some w"
  then have "w \<noteq> []" "take (length w) s = w" by (auto simp: find_Some_iff)
  then have "s \<noteq> []" by auto
  with \<open>w \<noteq> []\<close> show "((ws, drop (length w) s), (ws, s)) \<in> measure (\<lambda>(ws, s). length s)" by simp
qed simp

declare strip.simps [simp del]

definition trim_space :: "string \<Rightarrow> string" where
  "trim_space s = rev (strip (map rev white_space) (rev (strip white_space s)))"

lemma strip_id:
  assumes "set s \<inter> \<Union> (set ` set ws) = {}"
  shows "strip ws s = s"
proof -
  have "\<not> (w \<noteq> [] \<and> take (length w) s = w)" if "w \<in> set ws" for w
  proof
    assume w: "w \<noteq> [] \<and> take (length w) s = w"
    then have "set w \<subseteq> set s" using set_take_subset [of "length w" s] by simp
    moreover have "hd w \<in> set w" "set w \<in> set ` set ws" using w that by simp_all
    ultimately show False using assms by blast
  qed
  then have "find (\<lambda>w. w \<noteq> [] \<and> take (length w) s = w) ws = None" by (simp only: find_None_iff) blast
  then show ?thesis by (subst strip.simps) simp
qed

lemma trim_space_id:
  assumes "set s \<inter> \<Union> (set ` set white_space) = {}"
  shows "trim_space s = s"
proof -
  have "strip white_space s = s" by (rule strip_id [OF assms])
  moreover have "strip (map rev white_space) (rev s) = rev s" by (rule strip_id) (use assms in simp)
  ultimately show ?thesis by (simp add: trim_space_def)
qed

lemma white_space_bytes:
  assumes "c \<in> \<Union> (set ` set white_space)"
  shows "(of_char c :: nat) \<le> 32 \<or> 128 \<le> (of_char c :: nat)"
proof -
  have "list_all (list_all (\<lambda>c. (of_char c :: nat) \<le> 32 \<or> 128 \<le> (of_char c :: nat))) white_space" by code_simp
  with assms show ?thesis by (auto simp: list_all_iff)
qed

section \<open>Decimal numerals\<close>

definition digit_char :: "nat \<Rightarrow> char" where
  "digit_char d = char_of (48 + d)"

definition is_digit :: "char \<Rightarrow> bool" where
  "is_digit c \<longleftrightarrow> 48 \<le> (of_char c :: nat) \<and> (of_char c :: nat) \<le> 57"

definition digit_val :: "char \<Rightarrow> nat" where
  "digit_val c = of_char c - 48"

lemma is_digit_digit_char [simp]: "d < 10 \<Longrightarrow> is_digit (digit_char d)"
  by (simp add: is_digit_def digit_char_def)

lemma digit_val_digit_char [simp]: "d < 10 \<Longrightarrow> digit_val (digit_char d) = d"
  by (simp add: digit_val_def digit_char_def)

text \<open>\<open>strconv.FormatUint\<close> and \<open>%d\<close> for a non-negative number.\<close>

fun show_nat :: "nat \<Rightarrow> string" where
  "show_nat n = (if n < 10 then [digit_char n] else show_nat (n div 10) @ [digit_char (n mod 10)])"

declare show_nat.simps [simp del]

text \<open>\<open>strconv.Itoa\<close>.\<close>

definition show_int :: "int \<Rightarrow> string" where
  "show_int z = (if z < 0 then CHR ''-'' # show_nat (nat (- z)) else show_nat (nat z))"

fun digits_acc :: "nat \<Rightarrow> string \<Rightarrow> nat option" where
  "digits_acc a [] = Some a"
| "digits_acc a (c # cs) = (if is_digit c then digits_acc (a * 10 + digit_val c) cs else None)"

text \<open>\<open>strconv.ParseUint(s, 10, 64)\<close> and \<open>strconv.Atoi\<close>; None is the error.\<close>

definition parse_uint :: "string \<Rightarrow> uint64 option" where
  "parse_uint s =
     (if s = [] then None
      else case digits_acc 0 s of
             None \<Rightarrow> None
           | Some n \<Rightarrow> if n < 2 ^ 64 then Some (of_nat n) else None)"

definition atoi :: "string \<Rightarrow> int option" where
  "atoi s =
     (let neg = (s \<noteq> [] \<and> hd s = CHR ''-'');
          ds = (if s \<noteq> [] \<and> (hd s = CHR ''-'' \<or> hd s = CHR ''+'') then tl s else s)
      in if ds = [] then None
         else case digits_acc 0 ds of
                None \<Rightarrow> None
              | Some n \<Rightarrow>
                  let z = (if neg then - int n else int n)
                  in if fits64 z then Some z else None)"

lemma show_nat_nonempty [simp]: "show_nat n \<noteq> []"
  by (subst show_nat.simps) simp

lemma show_nat_digits: "\<forall>c \<in> set (show_nat n). is_digit c"
proof (induction n rule: show_nat.induct)
  case (1 n)
  then show ?case by (subst show_nat.simps) auto
qed

lemma digits_acc_append:
  "digits_acc a (xs @ ys) = (case digits_acc a xs of None \<Rightarrow> None | Some b \<Rightarrow> digits_acc b ys)"
  by (induction xs arbitrary: a) auto

lemma digits_acc_show [simp]: "digits_acc 0 (show_nat n) = Some n"
proof (induction n rule: show_nat.induct)
  case (1 n)
  then show ?case by (subst show_nat.simps) (auto simp: digits_acc_append)
qed

lemma show_nat_inject [simp]: "show_nat m = show_nat n \<longleftrightarrow> m = n"
  by (metis digits_acc_show option.inject)

lemma show_nat_no_char: "\<not> is_digit c \<Longrightarrow> c \<notin> set (show_nat n)"
  using show_nat_digits by blast

lemma parse_uint_show [simp]: "parse_uint (show_nat (unat w)) = Some w"
  using unsigned_less [of w, where 'a = nat] by (simp add: parse_uint_def)

lemma atoi_show_nat: "int n < 2 ^ 63 \<Longrightarrow> atoi (show_nat n) = Some (int n)"
proof -
  assume n: "int n < 2 ^ 63"
  have "hd (show_nat n) \<in> set (show_nat n)" by simp
  then have "is_digit (hd (show_nat n))" using show_nat_digits by blast
  then have "hd (show_nat n) \<noteq> CHR ''-''" and "hd (show_nat n) \<noteq> CHR ''+''"
    by (auto simp: is_digit_def)
  with n show ?thesis by (simp add: atoi_def Let_def fits64_def)
qed

lemma atoi_show_int: "0 \<le> z \<Longrightarrow> z < 2 ^ 63 \<Longrightarrow> atoi (show_int z) = Some z"
  using atoi_show_nat [of "nat z"] by (simp add: show_int_def)

lemma atoi_bounds: "atoi s = Some z \<Longrightarrow> fits64 z"
  by (auto simp: atoi_def Let_def split: if_splits option.splits)

section \<open>Runes\<close>

text \<open>
  \<open>for _, r := range s\<close> and \<open>strings.Map\<close> decode UTF-8: an ill-formed byte yields
  U+FFFD (65533) and is one byte wide. \<open>utf8_lead\<close> gives, for a lead byte, the number of
  continuation bytes, the range of the first one, and the lead's payload bits.
\<close>

definition utf8_lead :: "nat \<Rightarrow> nat \<times> nat \<times> nat \<times> nat" where
  "utf8_lead b =
     (if 194 \<le> b \<and> b \<le> 223 then (1, 128, 191, b - 192)
      else if b = 224 then (2, 160, 191, b - 224)
      else if b = 237 then (2, 128, 159, b - 224)
      else if 225 \<le> b \<and> b \<le> 239 then (2, 128, 191, b - 224)
      else if b = 240 then (3, 144, 191, b - 240)
      else if 241 \<le> b \<and> b \<le> 243 then (3, 128, 191, b - 240)
      else if b = 244 then (3, 128, 143, b - 240)
      else (0, 0, 0, 0))"

definition decode_rune :: "nat \<Rightarrow> nat list \<Rightarrow> nat \<times> nat" where
  "decode_rune b bs =
     (if b < 128 then (b, 0)
      else (case utf8_lead b of (n, lo, hi, bits) \<Rightarrow>
        let cs = take n bs in
        if n = 0 \<or> length cs < n \<or> \<not> (lo \<le> hd cs \<and> hd cs \<le> hi)
           \<or> \<not> list_all (\<lambda>c. 128 \<le> c \<and> c \<le> 191) (tl cs)
        then (65533, 0)
        else (foldl (\<lambda>a c. a * 64 + (c - 128)) bits cs, n)))"

fun rune_list :: "nat list \<Rightarrow> nat list" where
  "rune_list [] = []"
| "rune_list (b # bs) = (case decode_rune b bs of (r, n) \<Rightarrow> r # rune_list (drop n bs))"

definition runes :: "string \<Rightarrow> nat list" where
  "runes s = rune_list (map of_char s)"

lemma rune_list_ascii: "\<forall>b \<in> set bs. b < 128 \<Longrightarrow> rune_list bs = bs"
  by (induction bs) (auto simp: decode_rune_def)

lemma runes_ascii: "\<forall>c \<in> set s. (of_char c :: nat) < 128 \<Longrightarrow> runes s = map of_char s"
  by (simp add: runes_def rune_list_ascii)

lemma rune_list_Nil [simp]: "rune_list bs = [] \<longleftrightarrow> bs = []"
  by (cases bs) (auto split: prod.splits)

section \<open>Maps\<close>

type_synonym ('k, 'v) gomap = "('k \<times> 'v) list"

definition gomap_ok :: "('k, 'v) gomap \<Rightarrow> bool" where
  "gomap_ok m \<longleftrightarrow> distinct (map fst m)"

definition gput :: "('k, 'v) gomap \<Rightarrow> 'k \<Rightarrow> 'v \<Rightarrow> ('k, 'v) gomap" where
  "gput m k v = AList.update k v m"

definition gdel :: "('k, 'v) gomap \<Rightarrow> 'k \<Rightarrow> ('k, 'v) gomap" where
  "gdel m k = AList.delete k m"

text \<open>Reading an absent key yields the zero value.\<close>

definition gint :: "('k, int) gomap \<Rightarrow> 'k \<Rightarrow> int" where
  "gint m k = (case map_of m k of None \<Rightarrow> 0 | Some v \<Rightarrow> v)"

definition gstr :: "('k, string) gomap \<Rightarrow> 'k \<Rightarrow> string" where
  "gstr m k = (case map_of m k of None \<Rightarrow> [] | Some v \<Rightarrow> v)"

text \<open>A map that may be nil; reading from nil is reading from an empty map.\<close>

definition nstr :: "('k, string) gomap option \<Rightarrow> 'k \<Rightarrow> string" where
  "nstr m k = (case m of None \<Rightarrow> [] | Some mm \<Rightarrow> gstr mm k)"

text \<open>\<open>for k, v := range src { dst[k] = v }\<close>.\<close>

definition gcopy :: "('k, 'v) gomap \<Rightarrow> ('k, 'v) gomap \<Rightarrow> ('k, 'v) gomap" where
  "gcopy dst src = foldl (\<lambda>m (k, v). gput m k v) dst src"

lemma map_of_gput [simp]: "map_of (gput m k v) = (map_of m)(k \<mapsto> v)"
  by (simp add: gput_def update_conv')

lemma map_of_gdel [simp]: "map_of (gdel m k) = (map_of m)(k := None)"
  by (simp add: gdel_def delete_conv')

lemma gint_gput [simp]: "gint (gput m k v) k' = (if k' = k then v else gint m k')"
  by (simp add: gint_def)

lemma gstr_gput [simp]: "gstr (gput m k v) k' = (if k' = k then v else gstr m k')"
  by (simp add: gstr_def)

lemma gstr_gdel [simp]: "gstr (gdel m k) k' = (if k' = k then [] else gstr m k')"
  by (simp add: gstr_def)

lemma gint_Nil [simp]: "gint [] k = 0" and gstr_Nil [simp]: "gstr [] k = []"
  by (simp_all add: gint_def gstr_def)

lemma gomap_ok_Nil [simp, intro]: "gomap_ok []"
  by (simp add: gomap_ok_def)

lemma gomap_ok_gput [simp, intro]: "gomap_ok m \<Longrightarrow> gomap_ok (gput m k v)"
  by (simp add: gomap_ok_def gput_def distinct_update)

lemma gomap_ok_gdel [simp, intro]: "gomap_ok m \<Longrightarrow> gomap_ok (gdel m k)"
  by (simp add: gomap_ok_def gdel_def distinct_delete)

lemma keys_gput [simp]: "fst ` set (gput m k v) = insert k (fst ` set m)"
  by (simp add: gput_def dom_update)

lemma update_absent: "k \<notin> fst ` set m \<Longrightarrow> AList.update k v m = m @ [(k, v)]"
  by (induction m) auto

lemma set_gput_subset: "set (gput m k v) \<subseteq> insert (k, v) (set m)"
  unfolding gput_def by (induction m) auto

lemma set_gdel_subset: "set (gdel m k) \<subseteq> set m"
  by (auto simp: gdel_def AList.delete_eq)

lemma gput_nonempty [simp]: "gput m k v \<noteq> []"
  by (simp add: gput_def)

lemma gstr_in: "gstr m k \<noteq> [] \<Longrightarrow> (k, gstr m k) \<in> set m"
  by (auto simp: gstr_def split: option.splits dest: map_of_SomeD)

lemma gomap_ok_gcopy: "gomap_ok dst \<Longrightarrow> gomap_ok (gcopy dst src)"
  unfolding gcopy_def by (induction src arbitrary: dst) auto

lemma map_of_gcopy: "gomap_ok src \<Longrightarrow> map_of (gcopy dst src) = map_of dst ++ map_of src"
proof (induction src arbitrary: dst)
  case Nil
  then show ?case by (simp add: gcopy_def)
next
  case (Cons p src)
  then have ok: "gomap_ok src" and notin: "fst p \<notin> dom (map_of src)"
    by (auto simp: gomap_ok_def dom_map_of_conv_image_fst)
  have "gcopy dst (p # src) = gcopy (gput dst (fst p) (snd p)) src"
    by (simp add: gcopy_def split_beta)
  with Cons.IH [OF ok] notin show ?case
    by (auto simp: map_add_def fun_eq_iff split: option.splits)
qed

lemma map_of_gcopy_empty: "gomap_ok src \<Longrightarrow> map_of (gcopy [] src) = map_of src"
  by (simp add: map_of_gcopy)

lemma map_of_filter_ok:
  "gomap_ok m \<Longrightarrow> map_of (filter (\<lambda>kv. P (fst kv) (snd kv)) m) k =
     (case map_of m k of None \<Rightarrow> None | Some v \<Rightarrow> if P k v then Some v else None)"
  by (induction m)
    (auto simp: gomap_ok_def map_of_eq_None_iff image_iff split: option.splits if_splits)

lemma gomap_ok_filter [simp, intro]: "gomap_ok m \<Longrightarrow> gomap_ok (filter P m)"
  by (auto simp: gomap_ok_def distinct_map intro: inj_on_subset)

lemma keys_iff: "k \<in> fst ` set m \<longleftrightarrow> map_of m k \<noteq> None"
  by (metis domIff dom_map_of_conv_image_fst)

text \<open>The key list, sorted: the idiom by which the code makes iteration deterministic.\<close>

definition sorted_keys :: "(string, 'v) gomap \<Rightarrow> string list" where
  "sorted_keys m = sort (map fst m)"

lemma sorted_keys_sorted [simp]: "sorted (sorted_keys m)"
  by (simp add: sorted_keys_def)

lemma set_sorted_keys [simp]: "set (sorted_keys m) = fst ` set m"
  by (simp add: sorted_keys_def)

lemma distinct_sorted_keys: "gomap_ok m \<Longrightarrow> distinct (sorted_keys m)"
  by (simp add: sorted_keys_def gomap_ok_def)

text \<open>Two maps that agree as functions have the same sorted keys, whatever their order.\<close>

lemma sorted_keys_cong:
  assumes "gomap_ok m" "gomap_ok m'" "map_of m = map_of m'"
  shows "sorted_keys m = sorted_keys m'"
proof -
  have "fst ` set m = fst ` set m'"
    using assms(3) by (metis dom_map_of_conv_image_fst)
  then show ?thesis
    using assms(1,2)
    by (intro sorted_distinct_set_unique) (auto simp: distinct_sorted_keys)
qed

section \<open>Errors\<close>

text \<open>A Go function returning \<open>(T, error)\<close> returns \<open>'e + 'a\<close>: \<open>Inl\<close> is the error.\<close>

definition is_err :: "'e + 'a \<Rightarrow> bool" where
  "is_err r \<longleftrightarrow> (case r of Inl _ \<Rightarrow> True | Inr _ \<Rightarrow> False)"

lemma is_err_simps [simp]: "is_err (Inl e)" "\<not> is_err (Inr x)"
  by (simp_all add: is_err_def)

end
