(* ===== verification/Allocation.thy ===== *)
theory Allocation
  imports Fluence_Prelude
begin

text \<open>
  \<open>pkg/graph/allocation.go\<close> and \<open>request.go\<close>: reading the vertices of a Fluxion
  allocation. The decoding of the JSON text into the \<open>allocation\<close> struct is an argument
  \<open>unmarshal\<close>, which \<open>Allocation_Json\<close> defines; what the code does with the decoded value is
  defined here.
\<close>

record vertex_meta =
  vt_type :: string
  vt_name :: string
  vt_props :: "(string, string) gomap"

text \<open>The jgf form has its vertices under \<open>graph\<close>, the rv1 form under \<open>scheduling.graph\<close>.\<close>

record allocation =
  al_graph :: "vertex_meta list"
  al_scheduling :: "vertex_meta list"

definition vertices_of :: "allocation \<Rightarrow> vertex_meta list" where
  "vertices_of a = (if al_scheduling a \<noteq> [] then al_scheduling a else al_graph a)"

record allocated_node =
  an_name :: string
  an_props :: "(string, string) gomap"

definition HasProperty :: "allocated_node \<Rightarrow> string \<Rightarrow> bool" where
  "HasProperty n key \<longleftrightarrow> map_of (an_props n) key \<noteq> None"

definition NodesFromAllocation ::
    "(string \<Rightarrow> string + allocation) \<Rightarrow> string \<Rightarrow> string + allocated_node list" where
  "NodesFromAllocation unmarshal alloc =
     (case unmarshal alloc of
        Inl e \<Rightarrow> Inl (''parse allocation: '' @ e)
      | Inr a \<Rightarrow>
          Inr (map (\<lambda>v. \<lparr>an_name = vt_name v, an_props = vt_props v\<rparr>)
                 (filter (\<lambda>v. vt_type v = ''node'') (vertices_of a))))"

definition NamesFromAllocation ::
    "(string \<Rightarrow> string + allocation) \<Rightarrow> string \<Rightarrow> string \<Rightarrow> string + string list" where
  "NamesFromAllocation unmarshal alloc vertexType =
     (case unmarshal alloc of
        Inl e \<Rightarrow> Inl (''parse allocation: '' @ e)
      | Inr a \<Rightarrow> Inr (map vt_name (filter (\<lambda>v. vt_type v = vertexType) (vertices_of a))))"

definition BackendFromAllocation ::
    "(string \<Rightarrow> string + allocation) \<Rightarrow> string \<Rightarrow> string \<Rightarrow> string + string" where
  "BackendFromAllocation unmarshal alloc vertexType =
     (case NamesFromAllocation unmarshal alloc vertexType of
        Inl e \<Rightarrow> Inl e
      | Inr names \<Rightarrow>
          (case names of
             [] \<Rightarrow> Inl (''no '' @ vertexType @ '' vertex found in allocation'')
           | n # _ \<Rightarrow> Inr n))"

text \<open>\<open>request.go\<close>: the result of one match.\<close>

record match_request =
  mr_number :: uint64
  mr_allocation :: string
  mr_spec :: string

definition Satisfied :: "match_request \<Rightarrow> bool" where
  "Satisfied i \<longleftrightarrow> mr_allocation i \<noteq> []"

text \<open>The two readers agree: the node names are the names of the vertices of type node.\<close>

lemma NodesFromAllocation_names:
  "(case NodesFromAllocation um alloc of Inl e \<Rightarrow> Inl e | Inr ns \<Rightarrow> Inr (map an_name ns))
   = NamesFromAllocation um alloc ''node''"
  by (auto simp: NodesFromAllocation_def NamesFromAllocation_def comp_def split: sum.splits)

lemma BackendFromAllocation_ok:
  "BackendFromAllocation um alloc ty = Inr b \<longleftrightarrow>
     (\<exists>a v vs. um alloc = Inr a \<and> filter (\<lambda>v. vt_type v = ty) (vertices_of a) = v # vs
        \<and> b = vt_name v)"
  by (auto simp: BackendFromAllocation_def NamesFromAllocation_def
      split: sum.splits list.splits)

end
