(* ===== verification/Matcher.thy ===== *)
theory Matcher
  imports Allocation
begin

text \<open>
  \<open>pkg/graph/graph.go\<close>: \<open>FluxionGraph\<close>, the wrapper of the Fluxion client. The client
  itself (\<open>fluxcli.ReapiClient\<close>, a C++ library) is a parameter: the state \<open>'c\<close> of its
  resource graph and the functions for its calls. What the code relies on is the locale
  \<open>reapi_client\<close>; what the scheduler plugin relies on is the locale \<open>matcher\<close>, the
  contract of the plugin's \<open>matcher\<close> interface, which the wrapper gives for every client.
\<close>

section \<open>The wrapper\<close>

text \<open>The results of \<open>ReapiClient.MatchAllocate\<close>; the overhead in seconds is only printed.\<close>

record reply =
  rp_reserved :: bool
  rp_allocated :: string
  rp_at :: int
  rp_jobid :: uint64

record 'c fluxion_graph =
  fg_cli :: 'c
  fg_format :: string

text \<open>
  \<open>Init\<close>: a new client; an unreadable graph file is printed and leaves it without a graph,
  and an error of \<open>InitContext\<close> is only printed.
\<close>

definition init_options :: "string \<Rightarrow> string \<Rightarrow> string \<Rightarrow> string" where
  "init_options matchPolicy confFile matchFormat =
     ''{\"matcher_policy\": \"'' @ matchPolicy @ ''\", \"load_file\": \"'' @ confFile
     @ ''\", \"load_format\": \"jgf\", \"match_format\": \"'' @ matchFormat @ ''\"}''"

definition Init ::
    "'c \<Rightarrow> (string \<Rightarrow> string + string) \<Rightarrow> ('c \<Rightarrow> string \<Rightarrow> string \<Rightarrow> 'c \<times> string option)
     \<Rightarrow> 'c fluxion_graph \<Rightarrow> string \<Rightarrow> string \<Rightarrow> 'c fluxion_graph" where
  "Init new_client read_file init_context f confFile matchPolicy =
     (case read_file confFile of
        Inl _ \<Rightarrow> f\<lparr>fg_cli := new_client\<rparr>
      | Inr conf \<Rightarrow>
          let matchPolicy = (if matchPolicy = [] then ''first'' else matchPolicy);
              matchFormat = (if fg_format f = [] then ''simple'' else fg_format f)
          in f\<lparr>fg_cli := fst (init_context new_client conf
                 (init_options matchPolicy confFile matchFormat))\<rparr>)"

definition MatchAllocateSpec ::
    "('c \<Rightarrow> bool \<Rightarrow> string \<Rightarrow> 'c \<times> (string + reply)) \<Rightarrow> 'c fluxion_graph \<Rightarrow> string
     \<Rightarrow> 'c fluxion_graph \<times> (string + match_request)" where
  "MatchAllocateSpec cli_match f spec =
     (case cli_match (fg_cli f) False spec of
        (c, Inl e) \<Rightarrow> (f\<lparr>fg_cli := c\<rparr>, Inl e)
      | (c, Inr r) \<Rightarrow>
          (f\<lparr>fg_cli := c\<rparr>,
           Inr \<lparr>mr_number = rp_jobid r, mr_allocation = rp_allocated r, mr_spec = []\<rparr>))"

definition MatchAllocate ::
    "(string \<Rightarrow> string + string) \<Rightarrow> ('c \<Rightarrow> bool \<Rightarrow> string \<Rightarrow> 'c \<times> (string + reply))
     \<Rightarrow> 'c fluxion_graph \<Rightarrow> string \<Rightarrow> 'c fluxion_graph \<times> (string + match_request)" where
  "MatchAllocate read_file cli_match f specFile =
     (case read_file specFile of
        Inl _ \<Rightarrow> (f, Inl ''Error reading jobspec'')
      | Inr spec \<Rightarrow> MatchAllocateSpec cli_match f spec)"

text \<open>\<open>int64(jobid)\<close> reinterprets the 64 bits; the second argument is \<open>noent_ok\<close>.\<close>

definition Cancel ::
    "('c \<Rightarrow> int \<Rightarrow> bool \<Rightarrow> 'c \<times> string option) \<Rightarrow> 'c fluxion_graph \<Rightarrow> uint64
     \<Rightarrow> 'c fluxion_graph \<times> string option" where
  "Cancel cli_cancel f jobid =
     (case cli_cancel (fg_cli f) (sint jobid) True of (c, e) \<Rightarrow> (f\<lparr>fg_cli := c\<rparr>, e))"

definition UpdateAllocate ::
    "('c \<Rightarrow> int \<Rightarrow> string \<Rightarrow> 'c \<times> (string + int \<times> string)) \<Rightarrow> 'c fluxion_graph \<Rightarrow> uint64 \<Rightarrow> string
     \<Rightarrow> 'c fluxion_graph \<times> string option" where
  "UpdateAllocate cli_update f jobid R =
     (case cli_update (fg_cli f) (sint jobid) R of
        (c, Inl e) \<Rightarrow> (f\<lparr>fg_cli := c\<rparr>, Some e)
      | (c, Inr _) \<Rightarrow> (f\<lparr>fg_cli := c\<rparr>, None))"

text \<open>\<open>MatchSatisfy\<close> answers 0 (satisfiable), 1 (not) or an error; the answer is \<open>(satisfied, err)\<close>.\<close>

definition Satisfy ::
    "(string \<Rightarrow> string + string) \<Rightarrow> ('c \<Rightarrow> string \<Rightarrow> int \<times> string option) \<Rightarrow> 'c fluxion_graph
     \<Rightarrow> string \<Rightarrow> string + bool" where
  "Satisfy read_file cli_satisfy f specFile =
     (case read_file specFile of
        Inl _ \<Rightarrow> Inl ''Error reading jobspec''
      | Inr spec \<Rightarrow>
          (case cli_satisfy (fg_cli f) spec of
             (rc, Some e) \<Rightarrow> Inl e
           | (rc, None) \<Rightarrow> Inr (rc = 0)))"

section \<open>Contracts\<close>

text \<open>
  The contract of the scheduler's \<open>matcher\<close> interface. \<open>held\<close> are the jobids that hold
  resources, \<open>issued\<close> those ever handed out. A match returns a jobid never handed out
  before (nor held) and holds it, a failed match holds nothing new; a successful cancel releases exactly
  the given jobid (an unknown one is no error), a failed one at most that jobid.
\<close>

locale matcher =
  fixes do_match :: "'m \<Rightarrow> string \<Rightarrow> 'm \<times> (string + match_request)"
    and do_cancel :: "'m \<Rightarrow> uint64 \<Rightarrow> 'm \<times> string option"
    and held :: "'m \<Rightarrow> uint64 set"
    and issued :: "'m \<Rightarrow> uint64 set"
  assumes match_ok: "do_match m spec = (m', Inr r) \<Longrightarrow>
      mr_number r \<notin> issued m \<union> held m \<and> held m' = insert (mr_number r) (held m) \<and>
      issued m' = insert (mr_number r) (issued m)"
    and match_failed: "do_match m spec = (m', Inl e) \<Longrightarrow> held m' = held m \<and> issued m' = issued m"
    and cancel_ok: "do_cancel m j = (m', None) \<Longrightarrow> held m' = held m - {j} \<and> issued m' = issued m"
    and cancel_failed: "do_cancel m j = (m', Some e) \<Longrightarrow>
      held m - {j} \<subseteq> held m' \<and> held m' \<subseteq> held m \<and> issued m' = issued m"

text \<open>A matcher whose cancel does not fail.\<close>

locale reliable_matcher = matcher +
  assumes cancel_total: "snd (do_cancel m j) = None"

text \<open>The client's calls as the wrapper makes them.\<close>

locale reapi_client =
  fixes cli_match :: "'c \<Rightarrow> bool \<Rightarrow> string \<Rightarrow> 'c \<times> (string + reply)"
    and cli_cancel :: "'c \<Rightarrow> int \<Rightarrow> bool \<Rightarrow> 'c \<times> string option"
    and cli_held :: "'c \<Rightarrow> uint64 set"
    and cli_issued :: "'c \<Rightarrow> uint64 set"
  assumes cli_match_ok: "cli_match c False spec = (c', Inr r) \<Longrightarrow>
      rp_jobid r \<notin> cli_issued c \<union> cli_held c \<and> cli_held c' = insert (rp_jobid r) (cli_held c) \<and>
      cli_issued c' = insert (rp_jobid r) (cli_issued c)"
    and cli_match_failed: "cli_match c False spec = (c', Inl e) \<Longrightarrow>
      cli_held c' = cli_held c \<and> cli_issued c' = cli_issued c"
    and cli_cancel_ok: "cli_cancel c z True = (c', None) \<Longrightarrow>
      cli_held c' = cli_held c - {word_of_int z} \<and> cli_issued c' = cli_issued c"
    and cli_cancel_failed: "cli_cancel c z True = (c', Some e) \<Longrightarrow>
      cli_held c - {word_of_int z} \<subseteq> cli_held c' \<and> cli_held c' \<subseteq> cli_held c \<and>
      cli_issued c' = cli_issued c"

locale reliable_client = reapi_client +
  assumes cli_cancel_total: "snd (cli_cancel c z True) = None"

text \<open>The wrapper keeps the contract over every such client.\<close>

sublocale reapi_client < fluxion: matcher "MatchAllocateSpec cli_match" "Cancel cli_cancel"
  "\<lambda>f. cli_held (fg_cli f)" "\<lambda>f. cli_issued (fg_cli f)"
proof unfold_locales
  show "mr_number r \<notin> cli_issued (fg_cli m) \<union> cli_held (fg_cli m) \<and>
      cli_held (fg_cli m') = insert (mr_number r) (cli_held (fg_cli m)) \<and>
      cli_issued (fg_cli m') = insert (mr_number r) (cli_issued (fg_cli m))"
    if "MatchAllocateSpec cli_match m spec = (m', Inr r)" for m spec m' r
    using that cli_match_ok [of "fg_cli m" spec]
    by (auto simp: MatchAllocateSpec_def split: prod.splits sum.splits)
  show "cli_held (fg_cli m') = cli_held (fg_cli m) \<and> cli_issued (fg_cli m') = cli_issued (fg_cli m)"
    if "MatchAllocateSpec cli_match m spec = (m', Inl e)" for m spec m' e
    using that cli_match_failed [of "fg_cli m" spec]
    by (auto simp: MatchAllocateSpec_def split: prod.splits sum.splits)
  show "cli_held (fg_cli m') = cli_held (fg_cli m) - {j} \<and> cli_issued (fg_cli m') = cli_issued (fg_cli m)"
    if "Cancel cli_cancel m j = (m', None)" for m j m'
    using that cli_cancel_ok [of "fg_cli m" "sint j"]
    by (auto simp: Cancel_def split: prod.splits)
  show "cli_held (fg_cli m) - {j} \<subseteq> cli_held (fg_cli m') \<and> cli_held (fg_cli m') \<subseteq> cli_held (fg_cli m) \<and>
      cli_issued (fg_cli m') = cli_issued (fg_cli m)"
    if "Cancel cli_cancel m j = (m', Some e)" for m j m' e
    using that cli_cancel_failed [of "fg_cli m" "sint j"]
    by (auto simp: Cancel_def split: prod.splits)
qed

sublocale reliable_client < fluxion: reliable_matcher "MatchAllocateSpec cli_match" "Cancel cli_cancel"
  "\<lambda>f. cli_held (fg_cli f)" "\<lambda>f. cli_issued (fg_cli f)"
  by unfold_locales (simp add: Cancel_def split_beta cli_cancel_total)

section \<open>A scripted client\<close>

text \<open>
  A client that answers matches from a script and counts its jobids up, as Fluxion does. It
  shows that the contract can be met and is what concrete examples run on; it is not a model
  of Fluxion's matching.
\<close>

record script_client =
  sc_next :: int
  sc_held :: "uint64 list"
  sc_script :: "(string + string) list"

definition sc_match :: "script_client \<Rightarrow> bool \<Rightarrow> string \<Rightarrow> script_client \<times> (string + reply)" where
  "sc_match c orelse_reserve spec =
     (if sc_next c < 0 \<or> 2 ^ 63 \<le> sc_next c \<or> word_of_int (sc_next c) \<in> set (sc_held c) then (c, Inl ''no more jobids'')
      else case sc_script c of
             [] \<Rightarrow> (c, Inl ''no match'')
           | Inl e # rest \<Rightarrow> (c\<lparr>sc_script := rest\<rparr>, Inl e)
           | Inr R # rest \<Rightarrow>
               (c\<lparr>sc_script := rest, sc_next := sc_next c + 1,
                  sc_held := word_of_int (sc_next c) # sc_held c\<rparr>,
                Inr \<lparr>rp_reserved = False, rp_allocated = R, rp_at = 0,
                     rp_jobid = word_of_int (sc_next c)\<rparr>))"

definition sc_cancel :: "script_client \<Rightarrow> int \<Rightarrow> bool \<Rightarrow> script_client \<times> string option" where
  "sc_cancel c jobid noent_ok =
     (c\<lparr>sc_held := filter (\<lambda>j. j \<noteq> word_of_int jobid) (sc_held c)\<rparr>, None)"

definition sc_issued :: "script_client \<Rightarrow> uint64 set" where
  "sc_issued c = word_of_int ` {0..<min (sc_next c) (2 ^ 63)}"

lemma jobid_fresh:
  assumes "0 \<le> z" "z < 2 ^ 63"
  shows "(word_of_int z :: uint64) \<notin> word_of_int ` {0..<z}"
proof
  assume "(word_of_int z :: uint64) \<in> word_of_int ` {0..<z}"
  then obtain y where y: "0 \<le> y" "y < z" "(word_of_int z :: uint64) = word_of_int y" by auto
  with assms have "take_bit 64 z = z" "take_bit 64 y = y"
    by (simp_all add: take_bit_int_eq_self_iff)
  with y(3) have "z = y"
    by (simp add: word_of_int_eq_iff)
  with y(2) show False by simp
qed

interpretation scripted: reliable_client sc_match sc_cancel "\<lambda>c. set (sc_held c)" sc_issued
proof unfold_locales
  show "rp_jobid r \<notin> sc_issued c \<union> set (sc_held c) \<and> set (sc_held c') = insert (rp_jobid r) (set (sc_held c)) \<and>
      sc_issued c' = insert (rp_jobid r) (sc_issued c)"
    if "sc_match c False spec = (c', Inr r)" for c spec c' r
  proof -
    have n: "0 \<le> sc_next c" "sc_next c < 2 ^ 63" and c': "sc_next c' = sc_next c + 1"
      "sc_held c' = word_of_int (sc_next c) # sc_held c" "word_of_int (sc_next c) \<notin> set (sc_held c)" "rp_jobid r = word_of_int (sc_next c)"
      using that by (auto simp: sc_match_def split: if_splits list.splits sum.splits)
    have "{0..<sc_next c + 1} = insert (sc_next c) {0..<sc_next c}" using n by auto
    moreover have "min (sc_next c + 1) (2 ^ 63) = sc_next c + 1" using n by simp
    ultimately have "sc_issued c' = insert (word_of_int (sc_next c)) (word_of_int ` {0..<sc_next c})"
      by (simp add: sc_issued_def c'(1))
    moreover have "sc_issued c = word_of_int ` {0..<sc_next c}" using n by (simp add: sc_issued_def)
    ultimately show ?thesis using c' jobid_fresh [OF n] by simp
  qed
  show "set (sc_held c') = set (sc_held c) \<and> sc_issued c' = sc_issued c"
    if "sc_match c False spec = (c', Inl e)" for c spec c' e
    using that by (auto simp: sc_match_def sc_issued_def split: if_splits list.splits sum.splits)
  show "set (sc_held c') = set (sc_held c) - {word_of_int z} \<and> sc_issued c' = sc_issued c"
    if "sc_cancel c z True = (c', None)" for c z c'
    using that by (auto simp: sc_cancel_def sc_issued_def)
qed (auto simp: sc_cancel_def)

end
