(* ===== verification/Go_Json.thy ===== *)
theory Go_Json
  imports Fluence_Prelude
begin

text \<open>
  JSON values and their text, as \<open>encoding/json\<close> writes it: \<open>json_compact\<close> is
  \<open>json.Marshal\<close>, \<open>json_indent\<close> is \<open>json.MarshalIndent(v, "", "  ")\<close>. An object is an
  ordered list of fields; a Go struct is written in field order, a Go map in key order
  (\<open>map_object\<close>). Every number the program writes is an integer; \<open>JNum\<close> is the
  literal of any other number, which occurs in texts it reads.
\<close>

datatype jval =
    JNull
  | JBool bool
  | JInt int
  | JNum string
  | JStr string
  | JArr "jval list"
  | JObj "(string \<times> jval) list"

definition hex_digit :: "nat \<Rightarrow> char" where
  "hex_digit d = (if d < 10 then char_of (48 + d) else char_of (87 + d))"

definition backslash :: char where
  "backslash = CHR 0x5C"

definition dquote :: char where
  "dquote = CHR 0x22"

definition newline :: char where
  "newline = CHR 0x0A"

text \<open>The HTML-safe string escape of \<open>encoding/json\<close>, on the bytes of one rune.\<close>

definition escape_rune :: "nat \<Rightarrow> nat list \<Rightarrow> string" where
  "escape_rune r bs =
     (if r = 34 \<or> r = 92 then [backslash, char_of r]
      else if r = 8 then [backslash, CHR ''b'']
      else if r = 9 then [backslash, CHR ''t'']
      else if r = 10 then [backslash, CHR ''n'']
      else if r = 12 then [backslash, CHR ''f'']
      else if r = 13 then [backslash, CHR ''r'']
      else if r < 32 \<or> r = 38 \<or> r = 60 \<or> r = 62
        then backslash # ''u00'' @ [hex_digit (r div 16), hex_digit (r mod 16)]
      else if r = 65533 \<and> length bs = 1 then backslash # ''ufffd''
      else if r = 8232 then backslash # ''u2028''
      else if r = 8233 then backslash # ''u2029''
      else map char_of bs)"

fun escape_bytes :: "nat list \<Rightarrow> string" where
  "escape_bytes [] = []"
| "escape_bytes (b # bs) =
     (case decode_rune b bs of (r, n) \<Rightarrow>
        escape_rune r (b # take n bs) @ escape_bytes (drop n bs))"

definition json_string :: "string \<Rightarrow> string" where
  "json_string s = dquote # escape_bytes (map of_char s) @ [dquote]"

fun json_compact :: "jval \<Rightarrow> string" where
  "json_compact JNull = ''null''"
| "json_compact (JBool b) = (if b then ''true'' else ''false'')"
| "json_compact (JInt z) = show_int z"
| "json_compact (JNum l) = l"
| "json_compact (JStr s) = json_string s"
| "json_compact (JArr vs) = ''['' @ join_with '','' (map json_compact vs) @ '']''"
| "json_compact (JObj fs) =
     ''{'' @ join_with '','' (map (\<lambda>(k, v). json_string k @ '':'' @ json_compact v) fs) @ ''}''"

definition line_break :: "nat \<Rightarrow> string" where
  "line_break d = newline # concat (replicate d ''  '')"

fun json_indent_at :: "nat \<Rightarrow> jval \<Rightarrow> string" where
  "json_indent_at d JNull = ''null''"
| "json_indent_at d (JBool b) = (if b then ''true'' else ''false'')"
| "json_indent_at d (JInt z) = show_int z"
| "json_indent_at d (JNum l) = l"
| "json_indent_at d (JStr s) = json_string s"
| "json_indent_at d (JArr vs) =
     (if vs = [] then ''[]''
      else ''['' @ line_break (Suc d)
           @ join_with ('','' @ line_break (Suc d)) (map (json_indent_at (Suc d)) vs)
           @ line_break d @ '']'')"
| "json_indent_at d (JObj fs) =
     (if fs = [] then ''{}''
      else ''{'' @ line_break (Suc d)
           @ join_with ('','' @ line_break (Suc d))
               (map (\<lambda>(k, v). json_string k @ '': '' @ json_indent_at (Suc d) v) fs)
           @ line_break d @ ''}'')"

definition json_indent :: "jval \<Rightarrow> string" where
  "json_indent v = json_indent_at 0 v"

text \<open>A tree of Go maps (\<open>map[string]interface{}\<close>): every object is written in key order.\<close>

fun map_object :: "jval \<Rightarrow> jval" where
  "map_object (JArr vs) = JArr (map map_object vs)"
| "map_object (JObj fs) = JObj (sort_key fst (map (\<lambda>(k, v). (k, map_object v)) fs))"
| "map_object v = v"

text \<open>The first field of a name.\<close>

fun jfield :: "string \<Rightarrow> jval \<Rightarrow> jval option" where
  "jfield k (JObj fs) = map_of fs k"
| "jfield k _ = None"

end
