(* ===== verification/JGF.thy ===== *)
theory JGF
  imports Go_Json
begin

text \<open>
  \<open>pkg/jgf/jgf.go\<close>: the builder of a JSON Graph Format resource graph. A vertex handle is
  immutable once made, so a pointer to it is the vertex itself. Ids are counters that stay
  below the number of vertices, so they are plain integers.
\<close>

section \<open>The builder\<close>

record vertex =
  v_key :: string
  v_path :: string
  v_typ :: string
  v_basename :: string
  v_name :: string
  v_id :: int
  v_uniq :: int
  v_size :: int
  v_unit :: string
  v_exclusive :: bool
  v_props :: "(string, jval) gomap"
  v_node_props :: "(string, string) gomap"
  v_rank :: int

record builder =
  b_vertices :: "vertex list"
  b_edges :: "(string \<times> string) list"
  b_next :: int
  b_idx :: "(string, int) gomap"

record vertex_options =
  o_name :: string
  o_size :: int
  o_unit :: string
  o_exclusive :: bool
  o_props :: "(string, jval) gomap"
  o_node_props :: "(string, string) gomap"
  o_rank :: "int option"

definition no_options :: vertex_options where
  "no_options = \<lparr>o_name = [], o_size = 0, o_unit = [], o_exclusive = False, o_props = [],
     o_node_props = [], o_rank = None\<rparr>"

definition NewBuilder :: builder where
  "NewBuilder = \<lparr>b_vertices = [], b_edges = [], b_next = 0, b_idx = []\<rparr>"

definition new_vertex ::
    "builder \<Rightarrow> vertex option \<Rightarrow> string \<Rightarrow> string \<Rightarrow> vertex_options \<Rightarrow> vertex" where
  "new_vertex b parent typ basename opts =
     (let idx = gint (b_idx b) basename;
          name = (if o_name opts = [] then basename @ show_int idx else o_name opts)
      in \<lparr>v_key = show_int (b_next b),
          v_path = (case parent of None \<Rightarrow> ''/'' @ name | Some p \<Rightarrow> v_path p @ ''/'' @ name),
          v_typ = typ,
          v_basename = basename,
          v_name = name,
          v_id = idx,
          v_uniq = b_next b,
          v_size = (if o_size opts = 0 then 1 else o_size opts),
          v_unit = o_unit opts,
          v_exclusive = o_exclusive opts,
          v_props = o_props opts,
          v_node_props = o_node_props opts,
          v_rank = (case o_rank opts of None \<Rightarrow> -1 | Some r \<Rightarrow> r)\<rparr>)"

definition add ::
    "builder \<Rightarrow> vertex option \<Rightarrow> string \<Rightarrow> string \<Rightarrow> vertex_options \<Rightarrow> builder \<times> vertex" where
  "add b parent typ basename opts =
     (let v = new_vertex b parent typ basename opts
      in (b\<lparr>b_vertices := b_vertices b @ [v],
            b_next := b_next b + 1,
            b_idx := gput (b_idx b) basename (gint (b_idx b) basename + 1)\<rparr>, v))"

definition AddRoot :: "builder \<Rightarrow> string \<Rightarrow> string \<Rightarrow> vertex_options \<Rightarrow> builder \<times> vertex" where
  "AddRoot b typ basename opts = add b None typ basename opts"

definition AddChild ::
    "builder \<Rightarrow> vertex \<Rightarrow> string \<Rightarrow> string \<Rightarrow> vertex_options \<Rightarrow> builder \<times> vertex" where
  "AddChild b parent typ basename opts =
     (case add b (Some parent) typ basename opts of
        (b', v) \<Rightarrow> (b'\<lparr>b_edges := b_edges b' @ [(v_key parent, v_key v)]\<rparr>, v))"

section \<open>The document\<close>

text \<open>
  \<open>MarshalJSON\<close> of a vertex: the standard fields, then the extra properties that do not
  clobber one of them, then the RFC 31 properties when there are any; written in key order.
\<close>

definition standard_fields :: "vertex \<Rightarrow> (string, jval) gomap" where
  "standard_fields v =
     [(''type'', JStr (v_typ v)), (''basename'', JStr (v_basename v)), (''name'', JStr (v_name v)),
      (''id'', JInt (v_id v)), (''uniq_id'', JInt (v_uniq v)), (''rank'', JInt (v_rank v)),
      (''exclusive'', JBool (v_exclusive v)), (''unit'', JStr (v_unit v)),
      (''size'', JInt (v_size v)), (''paths'', JObj [(''containment'', JStr (v_path v))])]"

definition add_unreserved ::
    "(string, jval) gomap \<Rightarrow> string \<times> jval \<Rightarrow> (string, jval) gomap" where
  "add_unreserved out kv =
     (case kv of (k, v) \<Rightarrow> if map_of out k = None then gput out k v else out)"

definition metadata_fields :: "vertex \<Rightarrow> (string, jval) gomap" where
  "metadata_fields v =
     (let out = foldl add_unreserved (standard_fields v) (v_props v)
      in if v_node_props v \<noteq> []
         then gput out ''properties'' (JObj (map (\<lambda>(k, x). (k, JStr x)) (v_node_props v)))
         else out)"

definition metadata_json :: "vertex \<Rightarrow> jval" where
  "metadata_json v = map_object (JObj (metadata_fields v))"

definition MarshalJSON :: "vertex \<Rightarrow> string" where
  "MarshalJSON v = json_compact (metadata_json v)"

definition node_json :: "vertex \<Rightarrow> jval" where
  "node_json v = JObj [(''id'', JStr (v_key v)), (''metadata'', metadata_json v)]"

definition edge_json :: "string \<times> string \<Rightarrow> jval" where
  "edge_json e =
     JObj [(''source'', JStr (fst e)), (''target'', JStr (snd e)),
           (''metadata'', JObj [(''subsystem'', JStr ''containment'')])]"

text \<open>A nil slice is written as null.\<close>

definition slice_json :: "jval list \<Rightarrow> jval" where
  "slice_json vs = (if vs = [] then JNull else JArr vs)"

definition Document :: "builder \<Rightarrow> jval" where
  "Document b =
     JObj [(''graph'',
       JObj [(''nodes'', slice_json (map node_json (b_vertices b))),
             (''edges'', slice_json (map edge_json (b_edges b)))])]"

definition builder_JSON :: "builder \<Rightarrow> string + string" where
  "builder_JSON b = Inr (json_indent (Document b))"

section \<open>The builder's invariant\<close>

text \<open>
  The vertex at index \<open>i\<close> has unique id \<open>i\<close>; an edge goes from an earlier vertex to a
  later one whose path extends the earlier one's; every vertex is the target of at most one
  edge; and one that is the target of none is a root.
\<close>

definition is_edge :: "builder \<Rightarrow> nat \<Rightarrow> nat \<Rightarrow> bool" where
  "is_edge b i j \<longleftrightarrow> (show_nat i, show_nat j) \<in> set (b_edges b)"

definition edge_ok :: "vertex list \<Rightarrow> string \<times> string \<Rightarrow> bool" where
  "edge_ok vs e \<longleftrightarrow> (\<exists>i j. e = (show_nat i, show_nat j) \<and> i < j \<and> j < length vs \<and>
      v_path (vs ! j) = v_path (vs ! i) @ ''/'' @ v_name (vs ! j))"

definition builder_ok :: "builder \<Rightarrow> bool" where
  "builder_ok b \<longleftrightarrow>
     b_next b = int (length (b_vertices b)) \<and>
     (\<forall>i < length (b_vertices b).
        v_key (b_vertices b ! i) = show_nat i \<and> v_uniq (b_vertices b ! i) = int i) \<and>
     list_all (edge_ok (b_vertices b)) (b_edges b) \<and>
     distinct (map snd (b_edges b)) \<and>
     (\<forall>i < length (b_vertices b).
        show_nat i \<notin> snd ` set (b_edges b) \<longrightarrow>
        v_path (b_vertices b ! i) = ''/'' @ v_name (b_vertices b ! i))"

definition root_count :: "builder \<Rightarrow> nat" where
  "root_count b = length (b_vertices b) - length (b_edges b)"

lemma show_int_of_nat [simp]: "show_int (int n) = show_nat n"
  by (simp add: show_int_def)

lemma builder_ok_New: "builder_ok NewBuilder"
  by (simp add: builder_ok_def NewBuilder_def)

lemma edge_ok_append: "edge_ok vs e \<Longrightarrow> edge_ok (vs @ [v]) e"
  unfolding edge_ok_def by (elim exE conjE, intro exI conjI) (auto simp: nth_append)

lemma edges_below:
  assumes "builder_ok b" "e \<in> set (b_edges b)"
  obtains i j where "e = (show_nat i, show_nat j)" "i < j" "j < length (b_vertices b)"
  using assms by (auto simp: builder_ok_def list_all_iff edge_ok_def)

lemma new_key_fresh: "builder_ok b \<Longrightarrow> show_nat (length (b_vertices b)) \<notin> snd ` set (b_edges b)"
proof
  assume ok: "builder_ok b" and "show_nat (length (b_vertices b)) \<in> snd ` set (b_edges b)"
  then obtain e where e: "e \<in> set (b_edges b)" "snd e = show_nat (length (b_vertices b))" by auto
  from ok e(1) obtain i j where "e = (show_nat i, show_nat j)" "j < length (b_vertices b)"
    by (rule edges_below)
  with e(2) show False by simp
qed

lemma builder_ok_AddRoot:
  assumes "builder_ok b"
  shows "builder_ok (fst (AddRoot b typ basename opts))"
proof -
  let ?v = "new_vertex b None typ basename opts"
  have v: "v_key ?v = show_nat (length (b_vertices b))" "v_uniq ?v = int (length (b_vertices b))"
    "v_path ?v = ''/'' @ v_name ?v"
    using assms by (simp_all add: new_vertex_def Let_def builder_ok_def)
  then show ?thesis
    using assms
    by (auto simp: AddRoot_def add_def Let_def builder_ok_def list_all_iff nth_append
        less_Suc_eq edge_ok_append)
qed

lemma builder_ok_AddChild:
  assumes ok: "builder_ok b" and parent: "parent \<in> set (b_vertices b)"
  shows "builder_ok (fst (AddChild b parent typ basename opts))"
proof -
  let ?v = "new_vertex b (Some parent) typ basename opts"
  let ?n = "length (b_vertices b)"
  obtain i where i: "i < ?n" "parent = b_vertices b ! i"
    using parent by (auto simp: in_set_conv_nth)
  have v: "v_key ?v = show_nat ?n" "v_uniq ?v = int ?n"
    "v_path ?v = v_path parent @ ''/'' @ v_name ?v"
    using ok by (simp_all add: new_vertex_def Let_def builder_ok_def)
  have key: "v_key parent = show_nat i"
    using ok i by (simp add: builder_ok_def)
  have new_edge: "edge_ok (b_vertices b @ [?v]) (v_key parent, v_key ?v)"
    unfolding edge_ok_def using i v key by (intro exI [of _ i] exI [of _ ?n]) (simp add: nth_append)
  show ?thesis
    using ok v new_edge new_key_fresh [OF ok]
    by (auto simp: AddChild_def add_def Let_def builder_ok_def list_all_iff nth_append
        less_Suc_eq edge_ok_append)
qed

text \<open>What one call adds.\<close>

lemma AddChild_vertices [simp]:
  "b_vertices (fst (AddChild b parent typ basename opts)) =
     b_vertices b @ [new_vertex b (Some parent) typ basename opts]"
  "snd (AddChild b parent typ basename opts) = new_vertex b (Some parent) typ basename opts"
  "b_edges (fst (AddChild b parent typ basename opts)) =
     b_edges b @ [(v_key parent, v_key (new_vertex b (Some parent) typ basename opts))]"
  by (simp_all add: AddChild_def add_def Let_def)

lemma AddRoot_vertices [simp]:
  "b_vertices (fst (AddRoot b typ basename opts)) =
     b_vertices b @ [new_vertex b None typ basename opts]"
  "snd (AddRoot b typ basename opts) = new_vertex b None typ basename opts"
  "b_edges (fst (AddRoot b typ basename opts)) = b_edges b"
  by (simp_all add: AddRoot_def add_def Let_def)

lemma new_vertex_simps [simp]:
  "v_typ (new_vertex b parent typ basename opts) = typ"
  "v_basename (new_vertex b parent typ basename opts) = basename"
  "v_rank (new_vertex b parent typ basename opts) = (case o_rank opts of None \<Rightarrow> -1 | Some r \<Rightarrow> r)"
  "v_node_props (new_vertex b parent typ basename opts) = o_node_props opts"
  "v_size (new_vertex b parent typ basename opts) = (if o_size opts = 0 then 1 else o_size opts)"
  by (simp_all add: new_vertex_def Let_def)

section \<open>Trees\<close>

text \<open>A builder with one root: one edge less than vertices.\<close>

definition tree_ok :: "builder \<Rightarrow> bool" where
  "tree_ok b \<longleftrightarrow> builder_ok b \<and> length (b_vertices b) = length (b_edges b) + 1"

lemma tree_ok_child:
  "tree_ok b \<Longrightarrow> parent \<in> set (b_vertices b) \<Longrightarrow> tree_ok (fst (AddChild b parent typ basename opts))"
  by (simp add: tree_ok_def builder_ok_AddChild)

lemma tree_ok_root: "tree_ok (fst (AddRoot NewBuilder typ basename opts))"
  by (simp add: tree_ok_def builder_ok_AddRoot [OF builder_ok_New]) (simp add: NewBuilder_def)

lemma edge_target_set:
  assumes "tree_ok b"
  shows "snd ` set (b_edges b) = show_nat ` {1..<length (b_vertices b)}"
proof (rule card_subset_eq)
  show "finite (show_nat ` {1..<length (b_vertices b)})" by simp
  show "snd ` set (b_edges b) \<subseteq> show_nat ` {1..<length (b_vertices b)}"
    using assms by (fastforce simp: tree_ok_def elim!: edges_below)
  have "card (snd ` set (b_edges b)) = length (b_edges b)"
    using assms distinct_card [of "map snd (b_edges b)"] by (simp add: tree_ok_def builder_ok_def)
  moreover have "card (show_nat ` {1..<length (b_vertices b)}) = length (b_vertices b) - 1"
    by (subst card_image) (auto intro: inj_onI)
  ultimately show "card (snd ` set (b_edges b)) = card (show_nat ` {1..<length (b_vertices b)})"
    using assms by (simp add: tree_ok_def)
qed

text \<open>Every vertex but the first has exactly one parent, which comes earlier.\<close>

lemma tree_parent:
  assumes "tree_ok b" "0 < j" "j < length (b_vertices b)"
  shows "\<exists>!i. is_edge b i j"
proof -
  have "show_nat j \<in> snd ` set (b_edges b)"
    unfolding edge_target_set [OF assms(1)] using assms(2,3) by auto
  then obtain e where e: "e \<in> set (b_edges b)" "snd e = show_nat j" by auto
  have ok: "builder_ok b" using assms(1) by (simp add: tree_ok_def)
  from ok e(1) obtain i j' where ij: "e = (show_nat i, show_nat j')" by (rule edges_below)
  with e have "is_edge b i j" by (simp add: is_edge_def)
  moreover have "i' = i" if "is_edge b i' j" for i'
  proof -
    have "distinct (map snd (b_edges b))" using ok by (simp add: builder_ok_def)
    with that \<open>is_edge b i j\<close> have "(show_nat i', show_nat j) = (show_nat i, show_nat j)"
      unfolding is_edge_def by (metis distinct_map inj_onD snd_conv)
    then show ?thesis by simp
  qed
  ultimately show ?thesis by blast
qed

lemma edge_earlier: "builder_ok b \<Longrightarrow> is_edge b i j \<Longrightarrow> i < j \<and> j < length (b_vertices b) \<and>
    v_path (b_vertices b ! j) = v_path (b_vertices b ! i) @ ''/'' @ v_name (b_vertices b ! j)"
  by (auto simp: builder_ok_def list_all_iff is_edge_def edge_ok_def)

text \<open>In a tree every path starts at the root's.\<close>

lemma tree_path:
  assumes "tree_ok b" "j < length (b_vertices b)"
  shows "has_prefix (v_path (b_vertices b ! j)) (v_path (b_vertices b ! 0))"
  using assms(2)
proof (induction j rule: less_induct)
  case (less j)
  show ?case
  proof (cases "j = 0")
    case True
    then show ?thesis by (simp add: has_prefix_def)
  next
    case False
    with less.prems obtain i where "is_edge b i j" using tree_parent [OF assms(1)] by blast
    with assms(1) have i: "i < j" "v_path (b_vertices b ! j)
        = v_path (b_vertices b ! i) @ ''/'' @ v_name (b_vertices b ! j)"
      using edge_earlier by (auto simp: tree_ok_def)
    with less.prems less.IH [of i] obtain r where "v_path (b_vertices b ! i) = v_path (b_vertices b ! 0) @ r"
      by (auto elim: has_prefixE)
    with i(2) show ?thesis by simp
  qed
qed

lemma keys_distinct:
  assumes "builder_ok b"
  shows "distinct (map v_key (b_vertices b))"
proof -
  have "map v_key (b_vertices b) = map show_nat [0..<length (b_vertices b)]"
    using assms by (intro nth_equalityI) (auto simp: builder_ok_def)
  then show ?thesis by (simp add: distinct_map inj_on_def)
qed

section \<open>Metadata\<close>

lemma map_of_add_unreserved:
  "map_of (foldl add_unreserved out ps) k =
     (case map_of out k of Some v \<Rightarrow> Some v | None \<Rightarrow> map_of ps k)"
proof (induction ps arbitrary: out)
  case Nil
  then show ?case by (simp split: option.split)
next
  case (Cons kv ps)
  then show ?case
    by (cases kv) (auto simp: add_unreserved_def split: option.splits)
qed

lemma gomap_ok_add_unreserved: "gomap_ok out \<Longrightarrow> gomap_ok (foldl add_unreserved out ps)"
  by (induction ps arbitrary: out) (auto simp: add_unreserved_def split: prod.splits)

lemma gomap_ok_metadata: "gomap_ok (metadata_fields v)"
proof -
  have "gomap_ok (standard_fields v)" by (simp add: standard_fields_def gomap_ok_def)
  then show ?thesis by (simp add: metadata_fields_def Let_def gomap_ok_add_unreserved)
qed

lemma map_of_sort_key:
  "gomap_ok m \<Longrightarrow> map_of (sort_key fst m) = map_of m"
  by (subst map_of_inject_set) (auto simp: gomap_ok_def distinct_map inj_on_def)

lemma map_of_metadata_fields:
  "map_of (metadata_fields v) k =
     (if k = ''properties'' \<and> v_node_props v \<noteq> []
      then Some (JObj (map (\<lambda>(k, x). (k, JStr x)) (v_node_props v)))
      else case map_of (standard_fields v) k of Some x \<Rightarrow> Some x | None \<Rightarrow> map_of (v_props v) k)"
  by (simp add: metadata_fields_def Let_def map_of_add_unreserved)

text \<open>
  A vertex's metadata object keeps every standard field whatever its extra properties
  are called, carries its RFC 31 properties as a nested object exactly when it has some, and
  is written with strictly increasing keys.
\<close>
lemma metadata_fields_kept:
  "restrict_map (map_of (metadata_fields v)) (fst ` set (standard_fields v)) = map_of (standard_fields v) \<and>
   map_of (metadata_fields v) ''properties'' =
     (if v_node_props v \<noteq> [] then Some (JObj (map (\<lambda>(k, x). (k, JStr x)) (v_node_props v)))
      else map_of (v_props v) ''properties'') \<and>
   (\<exists>fs. metadata_json v = JObj fs \<and> sorted (map fst fs) \<and> distinct (map fst fs) \<and>
      set (map fst fs) = fst ` set (metadata_fields v))"
proof -
  have props: "map_of (standard_fields v) ''properties'' = None"
    by (simp add: standard_fields_def)
  have restricted: "restrict_map (map_of (metadata_fields v)) (fst ` set (standard_fields v))
      = map_of (standard_fields v)"
    using props by (auto simp: restrict_map_def map_of_metadata_fields fun_eq_iff keys_iff split: option.splits)
  let ?fs = "sort_key fst (map (\<lambda>(k, v). (k, map_object v)) (metadata_fields v))"
  have keys: "map fst (map (\<lambda>(k, v). (k, map_object v)) (metadata_fields v)) = map fst (metadata_fields v)"
    by (simp add: comp_def split_beta)
  have "distinct (map fst (map (\<lambda>(k, v). (k, map_object v)) (metadata_fields v)))"
    unfolding keys using gomap_ok_metadata [of v] by (simp add: gomap_ok_def)
  then have "distinct (map fst ?fs)" by (simp only: distinct_map distinct_sort set_sort)
  moreover have "set (map fst ?fs) = fst ` set (metadata_fields v)"
    using arg_cong [OF keys, of set] by (simp only: set_map set_sort)
  moreover have "sorted (map fst ?fs)" by simp
  moreover have "metadata_json v = JObj ?fs" by (simp add: metadata_json_def)
  ultimately show ?thesis using restricted map_of_metadata_fields props by simp
qed

end
