(* ===== verification/Kube.thy ===== *)
theory Kube
  imports Fluence_Prelude
begin

text \<open>
  The Kubernetes API objects the code reads and writes, with the fields it uses
  (\<open>k8s.io/api\<close> is a library: these are its data types, no behaviour of it is defined here).

  A \<open>resource.Quantity\<close> appears only through two readings, \<open>Value()\<close> (whole units,
  rounded up) and \<open>MilliValue()\<close>, both \<open>int64\<close>; a quantity is that pair of readings.
  A pointer or a map that may be nil is an \<open>option\<close> where the code tests for nil.
\<close>

record quantity =
  q_value :: int
  q_milli :: int

text \<open>\<open>EnvVarSource\<close>: the three optional references the code looks at.\<close>

record env_source =
  field_ref :: "string option"
  secret_ref :: "string option"
  config_ref :: "string option"

record env_var =
  ev_name :: string
  ev_value :: string
  ev_from :: "env_source option"

record volume_mount =
  vm_name :: string
  vm_path :: string
  vm_read_only :: bool

record container =
  c_name :: string
  c_image :: string
  c_pull_always :: bool
  c_command :: "string list"
  c_env :: "env_var list"
  c_requests :: "(string, quantity) gomap"
  c_limits :: "(string, quantity) gomap"
  c_mounts :: "volume_mount list"

record taint =
  taint_key :: string
  taint_effect :: string

record node =
  n_name :: string
  n_unschedulable :: bool
  n_taints :: "taint list"
  n_allocatable :: "(string, quantity) gomap"
  n_capacity :: "(string, quantity) gomap"

record owner_ref =
  or_kind :: string
  or_name :: string

text \<open>\<open>spec.schedulingGroup\<close>, whose \<open>podGroupName\<close> is itself a pointer.\<close>

record scheduling_group =
  sg_name :: "string option"

record pod =
  p_name :: string
  p_namespace :: string
  p_labels :: "(string, string) gomap option"
  p_annotations :: "(string, string) gomap option"
  p_owners :: "owner_ref list"
  p_scheduler :: string
  p_containers :: "container list"
  p_init :: "container list"
  p_volumes :: "string list"
  p_gates :: "string list"
  p_group :: "scheduling_group option"
  p_priority_class :: string
  p_priority :: "int option"
  p_service_account :: string
  p_node :: string
  p_phase :: string

record pod_group =
  pg_name :: string
  pg_namespace :: string
  pg_labels :: "(string, string) gomap"
  pg_annotations :: "(string, string) gomap"
  pg_min_count :: int
  pg_created :: int

text \<open>Blank objects, from which concrete ones are built by record update.\<close>

definition blank_container :: container where
  "blank_container = \<lparr>c_name = [], c_image = [], c_pull_always = False, c_command = [],
     c_env = [], c_requests = [], c_limits = [], c_mounts = []\<rparr>"

definition blank_pod :: pod where
  "blank_pod = \<lparr>p_name = [], p_namespace = [], p_labels = None, p_annotations = None,
     p_owners = [], p_scheduler = [], p_containers = [], p_init = [], p_volumes = [],
     p_gates = [], p_group = None, p_priority_class = [], p_priority = None,
     p_service_account = [], p_node = [], p_phase = []\<rparr>"

definition blank_node :: node where
  "blank_node = \<lparr>n_name = [], n_unschedulable = False, n_taints = [], n_allocatable = [],
     n_capacity = []\<rparr>"

definition units :: "int \<Rightarrow> quantity" where
  "units n = \<lparr>q_value = n, q_milli = 1000 * n\<rparr>"

lemma units_simps [simp]: "q_value (units n) = n" "q_milli (units n) = 1000 * n"
  by (simp_all add: units_def)

end
