(* ===== verification/Jobspec.thy ===== *)
theory Jobspec
  imports Go_Json
begin

text \<open>
  \<open>pkg/jobspec/jobspec.go\<close>: the typed jobspec, its JSON rendering (the struct tags with
  their \<open>omitempty\<close>), and \<open>Load\<close>, whose decoder (\<open>sigs.k8s.io/yaml\<close>) is a parameter.
\<close>

datatype resource = Resource
  (r_type: string) (r_count: int) (r_label: string) (r_exclusive: "bool option")
  (r_with: "resource list")

record task =
  t_command :: "string list"
  t_slot :: string
  t_count :: "(string, int) gomap"

record jobspec =
  js_version :: int
  js_resources :: "resource list"
  js_attributes :: "(string, jval) gomap"
  js_tasks :: "task list"

text \<open>\<open>omitempty\<close>: a field that holds its zero value is left out.\<close>

definition omit_if :: "bool \<Rightarrow> string \<Rightarrow> jval \<Rightarrow> (string \<times> jval) list" where
  "omit_if zero k v = (if zero then [] else [(k, v)])"

fun resource_json :: "resource \<Rightarrow> jval" where
  "resource_json (Resource ty n lbl ex ws) =
     JObj ([(''type'', JStr ty)]
       @ omit_if (n = 0) ''count'' (JInt n)
       @ omit_if (lbl = []) ''label'' (JStr lbl)
       @ (case ex of None \<Rightarrow> [] | Some b \<Rightarrow> [(''exclusive'', JBool b)])
       @ omit_if (ws = []) ''with'' (JArr (map resource_json ws)))"

definition task_json :: "task \<Rightarrow> jval" where
  "task_json t =
     JObj ([(''command'', JArr (map JStr (t_command t)))]
       @ omit_if (t_slot t = []) ''slot'' (JStr (t_slot t))
       @ omit_if (t_count t = []) ''count''
           (map_object (JObj (map (\<lambda>(k, n). (k, JInt n)) (t_count t)))))"

definition jobspec_json :: "jobspec \<Rightarrow> jval" where
  "jobspec_json j =
     JObj [(''version'', JInt (js_version j)),
           (''resources'', JArr (map resource_json (js_resources j))),
           (''attributes'', map_object (JObj (js_attributes j))),
           (''tasks'', JArr (map task_json (js_tasks j)))]"

text \<open>
  \<open>JSON\<close>: \<open>json.MarshalIndent\<close> fails only on values JSON cannot hold, and a jobspec has
  none, so the error branch of the result type is never taken.
\<close>

definition JSON :: "jobspec \<Rightarrow> string + string" where
  "JSON j = Inr (json_indent (jobspec_json j))"

text \<open>\<open>YAML\<close>, over the encoder of \<open>sigs.k8s.io/yaml\<close>.\<close>

definition YAML :: "(jobspec \<Rightarrow> string + string) \<Rightarrow> jobspec \<Rightarrow> string + string" where
  "YAML marshal j =
     (case marshal j of
        Inl e \<Rightarrow> Inl (''render jobspec as yaml: '' @ e)
      | Inr b \<Rightarrow> Inr b)"

definition detectFormat :: "string \<Rightarrow> string" where
  "detectFormat s =
     (let t = trim_space s
      in if has_prefix t ''{'' \<or> has_prefix t ''['' then ''json'' else ''yaml'')"

definition Load :: "(string \<Rightarrow> string + jobspec) \<Rightarrow> string \<Rightarrow> string + jobspec" where
  "Load unmarshal input =
     (case unmarshal input of
        Inl e \<Rightarrow> Inl (''parse '' @ detectFormat input @ '' jobspec: '' @ e)
      | Inr js \<Rightarrow> Inr js)"

definition LoadFile ::
    "(string \<Rightarrow> string + string) \<Rightarrow> (string \<Rightarrow> string + jobspec) \<Rightarrow> string
     \<Rightarrow> string + jobspec" where
  "LoadFile read_file unmarshal path =
     (case read_file path of
        Inl e \<Rightarrow> Inl (''read jobspec '' @ path @ '': '' @ e)
      | Inr b \<Rightarrow> Load unmarshal b)"

text \<open>A file that holds what \<open>YAML\<close> rendered loads as the jobspec, with a decoder that undoes the encoder.\<close>

lemma LoadFile_YAML:
  assumes "YAML marshal j = Inr t" "\<And>b. marshal j = Inr b \<Longrightarrow> unmarshal b = Inr j" "read_file path = Inr t"
  shows "LoadFile read_file unmarshal path = Inr j"
  using assms by (simp add: YAML_def LoadFile_def Load_def split: sum.splits)

end
