(* ===== verification/Placement.thy ===== *)
theory Placement
  imports Kube Jobspec Allocation
begin

text \<open>
  \<open>pkg/placement/placement.go\<close>: a pod group becomes jobspecs (one compute jobspec and one
  per virtual device type), and an allocation becomes a placement (bind nodes, backend,
  backend attributes).
\<close>

section \<open>Names\<close>

definition FluxionResourcePrefix :: string where
  "FluxionResourcePrefix = ''fluxion.flux-framework.org/''"

definition BackendAnnotation :: string where
  "BackendAnnotation = ''fluence.flux-framework.org/backend''"

definition JobIDAnnotation :: string where
  "JobIDAnnotation = ''fluence.flux-framework.org/jobid''"

definition CreatedByAnnotation :: string where
  "CreatedByAnnotation = ''fluence.flux-framework.org/created-by''"

definition CreatedByValue :: string where
  "CreatedByValue = ''fluence-webhook''"

definition AttributeAnnotationPrefix :: string where
  "AttributeAnnotationPrefix = ''fluence.flux-framework.org/attr-''"

definition EnvVarPrefix :: string where
  "EnvVarPrefix = ''FLUXION_''"

definition VirtualPropertyTrue :: string where
  "VirtualPropertyTrue = ''virtual=true''"

definition VirtualPropertyFalse :: string where
  "VirtualPropertyFalse = ''virtual=false''"

definition ClassPropertyPrefix :: string where
  "ClassPropertyPrefix = ''class=''"

definition RequireAnnotationPrefix :: string where
  "RequireAnnotationPrefix = ''fluence.flux-framework.org/require-''"

text \<open>\<open>EnvVarName\<close>: one output byte for each rune of the key.\<close>

definition env_rune :: "nat \<Rightarrow> char" where
  "env_rune r =
     (if 97 \<le> r \<and> r \<le> 122 then char_of (r - 97 + 65)
      else if (65 \<le> r \<and> r \<le> 90) \<or> (48 \<le> r \<and> r \<le> 57) then char_of r
      else CHR ''_'')"

definition EnvVarName :: "string \<Rightarrow> string" where
  "EnvVarName attrKey = EnvVarPrefix @ map env_rune (runes attrKey)"

definition PodGroupName :: "pod \<Rightarrow> string" where
  "PodGroupName p =
     (case p_group p of
        None \<Rightarrow> []
      | Some sg \<Rightarrow> (case sg_name sg of None \<Rightarrow> [] | Some n \<Rightarrow> n))"

definition ComposeClassProperty :: "string \<Rightarrow> string" where
  "ComposeClassProperty resourceType = ClassPropertyPrefix @ resourceType"

definition ComposeAttributeProperty :: "string \<Rightarrow> string \<Rightarrow> string" where
  "ComposeAttributeProperty attr val = FluxionResourcePrefix @ attr @ ''='' @ val"

text \<open>
  \<open>requireConstraintsFromPods\<close>: the annotations of every pod in iteration order, one
  property per require annotation, each once, sorted. A nil annotation map has no entries.
\<close>

definition pod_annotations :: "pod \<Rightarrow> (string, string) gomap" where
  "pod_annotations p = (case p_annotations p of None \<Rightarrow> [] | Some m \<Rightarrow> m)"

definition require_step :: "string list \<Rightarrow> string \<times> string \<Rightarrow> string list" where
  "require_step props kv =
     (case kv of (k, v) \<Rightarrow>
        if \<not> has_prefix k RequireAnnotationPrefix \<or> v = [] then props
        else let pr = ComposeAttributeProperty (trim_prefix k RequireAnnotationPrefix) v
             in if pr \<in> set props then props else props @ [pr])"

definition requireConstraintsFromPods :: "pod list \<Rightarrow> string list" where
  "requireConstraintsFromPods pods =
     sort (foldl (\<lambda>props p. foldl require_step props (pod_annotations p)) [] pods)"

section \<open>Resources of a pod\<close>

definition computeTypes :: "string list" where
  "computeTypes = [''core'', ''memory'', ''gpu'']"

definition mib :: int where
  "mib = 1024 * 1024"

definition gadd :: "(string, int) gomap \<Rightarrow> string \<Rightarrow> int \<Rightarrow> (string, int) gomap" where
  "gadd counts t n = gput counts t (i64 (gint counts t + n))"

definition count_request :: "(string, int) gomap \<Rightarrow> string \<times> quantity \<Rightarrow> (string, int) gomap" where
  "count_request counts nq =
     (case nq of (name, q) \<Rightarrow>
        if name = ''cpu'' then gadd counts ''core'' (q_value q)
        else if name = ''memory'' then
          gadd counts ''memory'' (go_div (i64 (q_value q + mib - 1)) mib)
        else if name = ''nvidia.com/gpu'' then gadd counts ''gpu'' (q_value q)
        else if has_prefix name FluxionResourcePrefix then
          gadd counts (trim_prefix name FluxionResourcePrefix) (q_value q)
        else counts)"

definition podResources :: "pod \<Rightarrow> (string, int) gomap" where
  "podResources p =
     (let counts = foldl (\<lambda>counts c. foldl count_request counts (c_requests c)) [] (p_containers p)
      in if gint counts ''core'' = 0 then gput counts ''core'' 1 else counts)"

definition PodCores :: "pod \<Rightarrow> int" where
  "PodCores p = gint (podResources p) ''core''"

definition split_step ::
    "(string, int) gomap \<times> (string, int) gomap \<Rightarrow> string \<times> int
     \<Rightarrow> (string, int) gomap \<times> (string, int) gomap" where
  "split_step cd tc =
     (case cd of (compute, devices) \<Rightarrow> case tc of (t, c) \<Rightarrow>
        if c \<le> 0 then (compute, devices)
        else if t \<in> set computeTypes then (gput compute t c, devices)
        else (compute, gput devices t c))"

definition splitResources ::
    "(string, int) gomap \<Rightarrow> (string, int) gomap \<times> (string, int) gomap" where
  "splitResources counts = foldl split_step ([], []) counts"

section \<open>Jobspecs\<close>

definition withEntries :: "(string, int) gomap \<Rightarrow> resource list" where
  "withEntries counts = map (\<lambda>t. Resource t (gint counts t) [] None []) (sorted_keys counts)"

definition strings_json :: "string list \<Rightarrow> jval" where
  "strings_json xs = JArr (map JStr xs)"

definition systemAttributes :: "string list \<Rightarrow> string list \<Rightarrow> (string, jval) gomap" where
  "systemAttributes properties excludeNodes =
     (let base = JObj [(''properties'', strings_json properties)];
          constraints =
            (if excludeNodes \<noteq> [] then
               JObj [(''and'', JArr [base,
                 JObj [(''not'', JArr [JObj [(''hostlist'', strings_json excludeNodes)]])]])]
             else base)
      in [(''system'', JObj [(''duration'', JInt 0), (''constraints'', constraints)])])"

definition computeJobspec ::
    "string \<Rightarrow> int \<Rightarrow> (string, int) gomap \<Rightarrow> string list \<Rightarrow> jobspec" where
  "computeJobspec groupName slots compute excludeNodes =
     \<lparr>js_version = 9999,
      js_resources = [Resource ''slot'' slots ''default'' None (withEntries compute)],
      js_attributes = systemAttributes [VirtualPropertyFalse] excludeNodes,
      js_tasks = [\<lparr>t_command = [groupName], t_slot = ''default'',
                   t_count = [(''per_slot'', 1)]\<rparr>]\<rparr>"

definition deviceJobspec :: "string \<Rightarrow> string \<Rightarrow> int \<Rightarrow> string list \<Rightarrow> jobspec" where
  "deviceJobspec groupName deviceType cnt extraProps =
     \<lparr>js_version = 9999,
      js_resources = [Resource ''slot'' 1 ''device'' None [Resource ''node'' cnt [] None []]],
      js_attributes =
        systemAttributes ([VirtualPropertyTrue, ComposeClassProperty deviceType] @ extraProps) [],
      js_tasks = [\<lparr>t_command = [groupName], t_slot = ''device'',
                   t_count = [(''per_slot'', 1)]\<rparr>]\<rparr>"

datatype jobspec_error =
    NoPods string
  | NotModeled string string
  | NoResourcesGraph string string

definition max_step :: "(string, int) gomap \<Rightarrow> string \<times> int \<Rightarrow> (string, int) gomap" where
  "max_step devices tc =
     (case tc of (t, c) \<Rightarrow> if c > gint devices t then gput devices t c else devices)"

definition group_devices :: "pod list \<Rightarrow> (string, int) gomap" where
  "group_devices pods =
     foldl (\<lambda>devices p. foldl max_step devices (snd (splitResources (podResources p)))) [] pods"

text \<open>
  The loop over the sorted device types; \<open>knownDevices\<close> is None when the map is nil, and a
  non-nil set is the list of the types it holds.
\<close>

fun device_jobspecs ::
    "string \<Rightarrow> string list option \<Rightarrow> (string, int) gomap \<Rightarrow> string list \<Rightarrow> string list
     \<Rightarrow> jobspec_error + jobspec list" where
  "device_jobspecs groupName knownDevices devices requireProps [] = Inr []"
| "device_jobspecs groupName knownDevices devices requireProps (t # ts) =
     (if (case knownDevices of None \<Rightarrow> False | Some ks \<Rightarrow> ks \<noteq> [] \<and> t \<notin> set ks)
      then Inl (NotModeled groupName t)
      else if knownDevices = None then Inl (NoResourcesGraph groupName t)
      else case device_jobspecs groupName knownDevices devices requireProps ts of
             Inl e \<Rightarrow> Inl e
           | Inr specs \<Rightarrow> Inr (deviceJobspec groupName t (gint devices t) requireProps # specs))"

definition JobspecsForGroup ::
    "string \<Rightarrow> pod list \<Rightarrow> string list option \<Rightarrow> string list \<Rightarrow> jobspec_error + jobspec list" where
  "JobspecsForGroup groupName pods knownDevices excludeNodes =
     (if pods = [] then Inl (NoPods groupName)
      else
        let compute = fst (splitResources (podResources (hd pods)));
            devices = group_devices pods;
            spec = computeJobspec groupName (int (length pods)) compute excludeNodes
        in case device_jobspecs groupName knownDevices devices (requireConstraintsFromPods pods)
                  (sorted_keys devices) of
             Inl e \<Rightarrow> Inl e
           | Inr specs \<Rightarrow> Inr (spec # specs))"

section \<open>Placements\<close>

record placement =
  pl_nodes :: "string list"
  pl_backend :: string
  pl_attrs :: "(string, string) gomap"

definition empty_placement :: placement where
  "empty_placement = \<lparr>pl_nodes = [], pl_backend = [], pl_attrs = []\<rparr>"

definition decomposeProperty :: "string \<Rightarrow> string \<times> string" where
  "decomposeProperty prop =
     (case index_byte prop (CHR ''='') of
        Some i \<Rightarrow> (take i prop, drop (Suc i) prop)
      | None \<Rightarrow> (prop, []))"

definition attr_step :: "(string, string) gomap \<Rightarrow> string \<times> string \<Rightarrow> (string, string) gomap" where
  "attr_step attrs pv =
     (case pv of (prop, _) \<Rightarrow>
        if \<not> has_prefix prop FluxionResourcePrefix then attrs
        else case decomposeProperty (trim_prefix prop FluxionResourcePrefix) of
               (key, val) \<Rightarrow> gput attrs key val)"

definition backendAttributes :: "(string, string) gomap \<Rightarrow> (string, string) gomap" where
  "backendAttributes props = foldl attr_step [] props"

definition placement_step :: "placement \<Rightarrow> allocated_node \<Rightarrow> placement" where
  "placement_step p n =
     (if HasProperty n VirtualPropertyTrue then
        (if pl_backend p \<noteq> [] then p
         else p\<lparr>pl_backend := an_name n, pl_attrs := backendAttributes (an_props n)\<rparr>)
      else p\<lparr>pl_nodes := pl_nodes p @ [an_name n]\<rparr>)"

definition PlacementFromAllocation ::
    "(string \<Rightarrow> string + allocation) \<Rightarrow> string \<Rightarrow> string + placement" where
  "PlacementFromAllocation unmarshal alloc =
     (case NodesFromAllocation unmarshal alloc of
        Inl e \<Rightarrow> Inl e
      | Inr nodes \<Rightarrow> Inr (foldl placement_step empty_placement nodes))"

section \<open>Pod resources: the counts are wrapped sums\<close>

text \<open>What one request contributes to the count of a graph type.\<close>

definition request_units :: "string \<Rightarrow> string \<times> quantity \<Rightarrow> int" where
  "request_units t nq =
     (case nq of (name, q) \<Rightarrow>
        if name = ''cpu'' then (if t = ''core'' then q_value q else 0)
        else if name = ''memory'' then
          (if t = ''memory'' then go_div (i64 (q_value q + mib - 1)) mib else 0)
        else if name = ''nvidia.com/gpu'' then (if t = ''gpu'' then q_value q else 0)
        else if has_prefix name FluxionResourcePrefix then
          (if t = trim_prefix name FluxionResourcePrefix then q_value q else 0)
        else 0)"

definition pod_units :: "pod \<Rightarrow> string \<Rightarrow> int" where
  "pod_units p t = (\<Sum>c\<leftarrow>p_containers p. \<Sum>nq\<leftarrow>c_requests c. request_units t nq)"

lemma i64_add_left [go_simps]: "i64 (i64 a + b) = i64 (a + b)"
  unfolding i64_def by (metis signed_take_bit_add signed_take_bit_signed_take_bit min.idem)

lemma i64_zero [simp]: "i64 0 = 0"
  by (simp add: i64_def)

lemma gint_gadd: "gint (gadd m t n) t' = (if t' = t then i64 (gint m t + n) else gint m t')"
  by (simp add: gadd_def)

lemma count_request_units:
  "i64 (gint (count_request m nq) t) = i64 (gint m t + request_units t nq)"
  by (cases nq) (simp add: count_request_def request_units_def gint_gadd i64_add_left [where b = 0, simplified])

lemma foldl_count_request:
  "i64 (gint (foldl count_request m nqs) t) = i64 (gint m t + (\<Sum>nq\<leftarrow>nqs. request_units t nq))"
proof (induction nqs arbitrary: m)
  case Nil
  then show ?case by simp
next
  case (Cons nq nqs)
  have "i64 (gint (foldl count_request m (nq # nqs)) t)
      = i64 (i64 (gint (count_request m nq) t) + (\<Sum>nq\<leftarrow>nqs. request_units t nq))"
    using Cons.IH by (simp add: i64_add_left)
  also have "\<dots> = i64 (gint m t + request_units t nq + (\<Sum>nq\<leftarrow>nqs. request_units t nq))"
    by (simp only: count_request_units i64_add_left)
  finally show ?case by (simp add: add.assoc)
qed

lemma foldl_containers:
  "i64 (gint (foldl (\<lambda>m c. foldl count_request m (c_requests c)) m cs) t)
   = i64 (gint m t + (\<Sum>c\<leftarrow>cs. \<Sum>nq\<leftarrow>c_requests c. request_units t nq))"
proof (induction cs arbitrary: m)
  case Nil
  then show ?case by simp
next
  case (Cons c cs)
  let ?m' = "foldl count_request m (c_requests c)"
  let ?rest = "\<Sum>c\<leftarrow>cs. \<Sum>nq\<leftarrow>c_requests c. request_units t nq"
  have "i64 (gint (foldl (\<lambda>m c. foldl count_request m (c_requests c)) m (c # cs)) t)
      = i64 (i64 (gint ?m' t) + ?rest)"
    using Cons.IH by (simp add: i64_add_left)
  also have "\<dots> = i64 (gint m t + (\<Sum>nq\<leftarrow>c_requests c. request_units t nq) + ?rest)"
    by (simp only: foldl_count_request i64_add_left)
  finally show ?case by (simp add: add.assoc)
qed

text \<open>Every count a loop leaves is already wrapped, so the outer wrap can be dropped.\<close>

definition wrapped :: "(string, int) gomap \<Rightarrow> bool" where
  "wrapped m \<longleftrightarrow> (\<forall>t. i64 (gint m t) = gint m t)"

lemma i64_idem [simp]: "i64 (i64 x) = i64 x"
  using i64_add_left [of x 0] by simp

lemma wrapped_gadd: "wrapped m \<Longrightarrow> wrapped (gadd m t n)"
  by (simp add: wrapped_def gint_gadd)

lemma wrapped_count_request: "wrapped m \<Longrightarrow> wrapped (count_request m nq)"
  by (cases nq) (simp add: count_request_def wrapped_gadd)

lemma wrapped_foldl: "wrapped m \<Longrightarrow> wrapped (foldl count_request m nqs)"
  by (induction nqs arbitrary: m) (simp_all add: wrapped_count_request)

lemma wrapped_containers:
  "wrapped m \<Longrightarrow> wrapped (foldl (\<lambda>m c. foldl count_request m (c_requests c)) m cs)"
  by (induction cs arbitrary: m) (simp_all add: wrapped_foldl)

lemma wrapped_Nil [simp]: "wrapped []"
  by (simp add: wrapped_def)

lemma gint_containers:
  "gint (foldl (\<lambda>m c. foldl count_request m (c_requests c)) [] (p_containers p)) t
   = i64 (pod_units p t)"
  using wrapped_containers [of "[]" "p_containers p"] foldl_containers [where m = "[]" and t = t and cs = "p_containers p"]
  by (simp add: wrapped_def pod_units_def)

lemma gint_podResources:
  "gint (podResources p) t =
     (if t = ''core'' \<and> i64 (pod_units p ''core'') = 0 then 1 else i64 (pod_units p t))"
  by (simp add: podResources_def Let_def gint_containers)

lemma gomap_ok_count_request: "gomap_ok m \<Longrightarrow> gomap_ok (count_request m nq)"
  by (cases nq) (simp add: count_request_def gadd_def)

lemma gomap_ok_foldl_request: "gomap_ok m \<Longrightarrow> gomap_ok (foldl count_request m nqs)"
  by (induction nqs arbitrary: m) (simp_all add: gomap_ok_count_request)

lemma gomap_ok_containers:
  "gomap_ok m \<Longrightarrow> gomap_ok (foldl (\<lambda>m c. foldl count_request m (c_requests c)) m cs)"
  by (induction cs arbitrary: m) (simp_all add: gomap_ok_foldl_request)

lemma gomap_ok_podResources: "gomap_ok (podResources p)"
  by (simp add: podResources_def Let_def gomap_ok_containers)

section \<open>Splitting counts into compute and devices\<close>

lemma foldl_split_step:
  "foldl split_step (c, d) m =
     (gcopy c (filter (\<lambda>tn. 0 < snd tn \<and> fst tn \<in> set computeTypes) m),
      gcopy d (filter (\<lambda>tn. 0 < snd tn \<and> fst tn \<notin> set computeTypes) m))"
  by (induction m arbitrary: c d) (auto simp: split_step_def gcopy_def)

lemma map_of_split:
  assumes "gomap_ok m"
  shows "map_of (fst (splitResources m)) t =
      (case map_of m t of None \<Rightarrow> None
       | Some n \<Rightarrow> if 0 < n \<and> t \<in> set computeTypes then Some n else None)"
    and "map_of (snd (splitResources m)) t =
      (case map_of m t of None \<Rightarrow> None
       | Some n \<Rightarrow> if 0 < n \<and> t \<notin> set computeTypes then Some n else None)"
  using map_of_filter_ok [OF assms, of "\<lambda>t n. 0 < n \<and> t \<in> set computeTypes" t]
    map_of_filter_ok [OF assms, of "\<lambda>t n. 0 < n \<and> t \<notin> set computeTypes" t] assms
  by (simp_all add: splitResources_def foldl_split_step map_of_gcopy_empty)

lemma gomap_ok_split:
  "gomap_ok (fst (splitResources m))" "gomap_ok (snd (splitResources m))"
  by (simp_all add: splitResources_def foldl_split_step gomap_ok_gcopy)

text \<open>The units of a device type one pod asks for.\<close>

definition device_request :: "pod \<Rightarrow> string \<Rightarrow> int" where
  "device_request p t = (if t \<in> set computeTypes then 0 else max 0 (gint (podResources p) t))"

lemma map_of_pod_devices:
  "map_of (snd (splitResources (podResources p))) t =
     (if 0 < device_request p t then Some (device_request p t) else None)"
  by (simp add: map_of_split [OF gomap_ok_podResources] device_request_def gint_def
      split: option.splits)

text \<open>The compute slot: the positive compute counts, in key order.\<close>

definition compute_types_sorted :: "string list" where
  "compute_types_sorted = [''core'', ''gpu'', ''memory'']"

definition compute_entries :: "pod \<Rightarrow> resource list" where
  "compute_entries p =
     map (\<lambda>t. Resource t (gint (podResources p) t) [] None [])
       (filter (\<lambda>t. 0 < gint (podResources p) t) compute_types_sorted)"

lemma sorted_compute_types: "sorted compute_types_sorted" "distinct compute_types_sorted"
  by (simp_all add: compute_types_sorted_def)

lemma set_compute_types: "set compute_types_sorted = set computeTypes"
  by (auto simp: compute_types_sorted_def computeTypes_def)

lemma map_of_pod_compute:
  "map_of (fst (splitResources (podResources p))) t =
     (if t \<in> set computeTypes \<and> 0 < gint (podResources p) t
      then Some (gint (podResources p) t) else None)"
  by (simp add: map_of_split [OF gomap_ok_podResources] gint_def split: option.splits)

lemma sorted_keys_eqI:
  assumes "gomap_ok m" "sorted ks" "distinct ks" "fst ` set m = set ks"
  shows "sorted_keys m = ks"
  using assms by (intro sorted_distinct_set_unique) (auto simp: distinct_sorted_keys)

lemma withEntries_compute:
  "withEntries (fst (splitResources (podResources p))) = compute_entries p"
proof -
  let ?m = "fst (splitResources (podResources p))"
  let ?ks = "filter (\<lambda>t. 0 < gint (podResources p) t) compute_types_sorted"
  have "fst ` set ?m = set ?ks"
    by (auto simp: set_eq_iff keys_iff map_of_pod_compute set_compute_types)
  then have keys: "sorted_keys ?m = ?ks"
    using sorted_compute_types
    by (intro sorted_keys_eqI) (auto simp: gomap_ok_split sorted_wrt_filter)
  show ?thesis
    unfolding withEntries_def compute_entries_def keys
    by (auto simp: gint_def [of ?m] map_of_pod_compute set_compute_types)
qed

section \<open>Devices of a group\<close>

definition group_max :: "pod list \<Rightarrow> string \<Rightarrow> int" where
  "group_max pods t = Max (insert 0 ((\<lambda>p. device_request p t) ` set pods))"

lemma group_max_Cons: "group_max (p # pods) t = max (device_request p t) (group_max pods t)"
  unfolding group_max_def by (simp add: insert_commute [of 0])

lemma group_max_nonneg: "0 \<le> group_max pods t"
  unfolding group_max_def by simp

definition positive_map :: "(string, int) gomap \<Rightarrow> bool" where
  "positive_map m \<longleftrightarrow> gomap_ok m \<and> (\<forall>t n. map_of m t = Some n \<longrightarrow> 0 < n)"

lemma positive_map_keys: "positive_map m \<Longrightarrow> fst ` set m = {t. 0 < gint m t}"
proof (intro set_eqI)
  fix t
  assume "positive_map m"
  then show "t \<in> fst ` set m \<longleftrightarrow> t \<in> {t. 0 < gint m t}"
    by (simp add: keys_iff positive_map_def gint_def split: option.splits)
qed

lemma positive_map_nonneg: "positive_map m \<Longrightarrow> 0 \<le> gint m t"
  by (auto simp: positive_map_def gint_def less_imp_le split: option.splits)

lemma positive_max_step: "positive_map d \<Longrightarrow> 0 < snd tc \<Longrightarrow> positive_map (max_step d tc)"
  by (cases tc) (auto simp: max_step_def positive_map_def)

lemma foldl_max_step:
  assumes "positive_map d" "positive_map m"
  shows "positive_map (foldl max_step d m) \<and>
    gint (foldl max_step d m) t = max (gint d t) (gint m t)"
  using assms
proof (induction m arbitrary: d)
  case Nil
  then show ?case by (simp add: max_absorb1 positive_map_nonneg)
next
  case (Cons tc m)
  obtain u n where tc: "tc = (u, n)" by force
  have m: "positive_map m" and n: "0 < n" and fresh: "map_of m u = None"
    using Cons.prems(2) by (auto simp: positive_map_def gomap_ok_def tc map_of_eq_None_iff
        split: if_splits)
  have d': "positive_map (max_step d tc)"
    using Cons.prems(1) n by (simp add: positive_max_step tc)
  have "gint (max_step d tc) t = (if t = u then max (gint d t) n else gint d t)"
    by (auto simp: tc max_step_def)
  with Cons.IH [OF d' m] fresh show ?case
    using positive_map_nonneg [OF d', of t] n by (auto simp: gint_def [of m] tc gint_def [of "(u, n) # m"])
qed

lemma positive_pod_devices: "positive_map (snd (splitResources (podResources p)))"
  by (auto simp: positive_map_def gomap_ok_split map_of_pod_devices split: if_splits)

lemma gint_pod_devices: "gint (snd (splitResources (podResources p))) t = device_request p t"
  using positive_map_nonneg [OF positive_pod_devices, of p t]
  by (auto simp: gint_def map_of_pod_devices device_request_def)

lemma foldl_group_devices:
  assumes "positive_map d"
  shows "positive_map (foldl (\<lambda>d p. foldl max_step d (snd (splitResources (podResources p)))) d pods)
    \<and> gint (foldl (\<lambda>d p. foldl max_step d (snd (splitResources (podResources p)))) d pods) t
      = max (gint d t) (group_max pods t)"
  using assms
proof (induction pods arbitrary: d)
  case Nil
  then show ?case by (simp add: group_max_def max_absorb1 positive_map_nonneg)
next
  case (Cons p pods)
  note step = foldl_max_step [OF Cons.prems positive_pod_devices [of p], of t]
  show ?case
    using Cons.IH [OF conjunct1 [OF step]] conjunct2 [OF step]
    by (simp add: gint_pod_devices group_max_Cons max.assoc)
qed

lemma positive_group_devices: "positive_map (group_devices pods)"
  and gint_group_devices: "gint (group_devices pods) t = group_max pods t"
  using foldl_group_devices [of "[]" pods t]
  by (auto simp: group_devices_def positive_map_def max_absorb2 group_max_nonneg)

text \<open>The distinct device types a group asks for, sorted.\<close>

definition wanted_devices :: "pod list \<Rightarrow> string list" where
  "wanted_devices pods = sorted_list_of_set {t. 0 < group_max pods t}"

lemma sorted_keys_group_devices: "sorted_keys (group_devices pods) = wanted_devices pods"
proof -
  have eq: "{t. 0 < group_max pods t} = fst ` set (group_devices pods)"
    using positive_map_keys [OF positive_group_devices] by (simp add: gint_group_devices)
  show ?thesis
    unfolding wanted_devices_def eq
    using positive_group_devices [of pods]
    by (intro sorted_keys_eqI) (auto simp: positive_map_def)
qed

lemma set_wanted_devices: "set (wanted_devices pods) = {t. 0 < group_max pods t}"
  by (metis set_sorted_keys sorted_keys_group_devices positive_map_keys positive_group_devices
      gint_group_devices Collect_cong)

section \<open>What the group's jobspecs are\<close>

text \<open>
  The specification of \<open>JobspecsForGroup\<close>: an error for the first wanted device, in
  sorted order, that is refused; otherwise one compute jobspec with a slot per pod and one
  jobspec per wanted device, with the largest count any pod asks for.
\<close>

definition refused_device :: "string list option \<Rightarrow> string \<Rightarrow> bool" where
  "refused_device known t =
     (case known of None \<Rightarrow> True | Some ks \<Rightarrow> ks \<noteq> [] \<and> t \<notin> set ks)"

definition refusal :: "string list option \<Rightarrow> string \<Rightarrow> string \<Rightarrow> jobspec_error" where
  "refusal known g t =
     (case known of None \<Rightarrow> NoResourcesGraph g t | Some _ \<Rightarrow> NotModeled g t)"

definition group_jobspecs ::
    "string \<Rightarrow> pod list \<Rightarrow> string list option \<Rightarrow> string list \<Rightarrow> jobspec_error + jobspec list" where
  "group_jobspecs g pods known excluded =
     (case pods of
        [] \<Rightarrow> Inl (NoPods g)
      | p # _ \<Rightarrow>
          (case find (refused_device known) (wanted_devices pods) of
             Some t \<Rightarrow> Inl (refusal known g t)
           | None \<Rightarrow>
               Inr (\<lparr>js_version = 9999,
                     js_resources =
                       [Resource ''slot'' (int (length pods)) ''default'' None (compute_entries p)],
                     js_attributes = systemAttributes [VirtualPropertyFalse] excluded,
                     js_tasks = [\<lparr>t_command = [g], t_slot = ''default'',
                                  t_count = [(''per_slot'', 1)]\<rparr>]\<rparr>
                 # map (\<lambda>t. deviceJobspec g t (group_max pods t) (requireConstraintsFromPods pods))
                     (wanted_devices pods))))"

lemma device_jobspecs_find:
  "device_jobspecs g known devices req ts =
     (case find (refused_device known) ts of
        Some t \<Rightarrow> Inl (refusal known g t)
      | None \<Rightarrow> Inr (map (\<lambda>t. deviceJobspec g t (gint devices t) req) ts))"
  by (induction ts)
    (auto simp: refused_device_def refusal_def split: option.splits sum.splits)

text \<open>
  C1: \<open>JobspecsForGroup\<close> computes exactly the jobspecs of its specification: no pods is an
  error, the first refused device in sorted order is an error, and otherwise there is one
  compute jobspec, with a slot per pod and the representative pod's positive compute counts in
  key order, followed by one device jobspec per distinct device type, in sorted order, with the
  largest count asked for by any pod of the group wherever it stands in the list.
\<close>
theorem JobspecsForGroup_correct:
  "JobspecsForGroup g pods known excluded = group_jobspecs g pods known excluded"
proof (cases pods)
  case Nil
  then show ?thesis by (simp add: JobspecsForGroup_def group_jobspecs_def)
next
  case (Cons p ps)
  then show ?thesis
    unfolding JobspecsForGroup_def group_jobspecs_def Let_def sorted_keys_group_devices
      device_jobspecs_find gint_group_devices computeJobspec_def
    by (auto simp: withEntries_compute split: option.splits)
qed

text \<open>
  The count of every graph type in a pod is the 64-bit sum of what its containers'
  requests contribute, in whatever order the request maps are iterated, except that a pod
  whose core sum is zero gets one core.
\<close>
lemma podResources_counts:
  "gint (podResources p) t =
     (if t = ''core'' \<and> i64 (pod_units p ''core'') = 0 then 1 else i64 (pod_units p t))"
  by (rule gint_podResources)

section \<open>Require annotations\<close>

lemma set_require_step:
  "set (require_step props (k, v)) =
     (if has_prefix k RequireAnnotationPrefix \<and> v \<noteq> []
      then insert (ComposeAttributeProperty (trim_prefix k RequireAnnotationPrefix) v) (set props)
      else set props)"
  by (auto simp: require_step_def Let_def)

lemma set_require_pod:
  "set (foldl require_step props kvs) =
     set props \<union> {ComposeAttributeProperty a v |a v. (RequireAnnotationPrefix @ a, v) \<in> set kvs \<and> v \<noteq> []}"
proof (induction kvs arbitrary: props)
  case Nil
  then show ?case by simp
next
  case (Cons kv kvs)
  obtain k v where kv: "kv = (k, v)" by force
  have "{ComposeAttributeProperty a v |a v. (RequireAnnotationPrefix @ a, v) \<in> set (kv # kvs) \<and> v \<noteq> []}
      = (if has_prefix k RequireAnnotationPrefix \<and> v \<noteq> []
         then {ComposeAttributeProperty (trim_prefix k RequireAnnotationPrefix) v} else {})
        \<union> {ComposeAttributeProperty a v |a v. (RequireAnnotationPrefix @ a, v) \<in> set kvs \<and> v \<noteq> []}"
    using prefix_trim_prefix [of k RequireAnnotationPrefix] by (auto simp: kv)
  with Cons.IH show ?case by (simp add: kv set_require_step)
qed

lemma set_require_pods:
  "set (foldl (\<lambda>props p. foldl require_step props (pod_annotations p)) props pods) =
     set props \<union> {ComposeAttributeProperty a v |p a v.
        p \<in> set pods \<and> (RequireAnnotationPrefix @ a, v) \<in> set (pod_annotations p) \<and> v \<noteq> []}"
  by (induction pods arbitrary: props) (auto simp: set_require_pod)

lemma distinct_require_pod: "distinct props \<Longrightarrow> distinct (foldl require_step props kvs)"
  by (induction kvs arbitrary: props) (auto simp: require_step_def Let_def split: prod.splits)

lemma distinct_require_pods:
  "distinct props \<Longrightarrow>
   distinct (foldl (\<lambda>props p. foldl require_step props (pod_annotations p)) props pods)"
  by (induction pods arbitrary: props) (auto simp: distinct_require_pod)

text \<open>
  The require constraints of a group are the properties of every non-empty require
  annotation of every pod of the group, each once, in sorted order: the result does not
  depend on the order of the pods or of their annotation maps.
\<close>
lemma requireConstraints_exact:
  "requireConstraintsFromPods pods =
     sorted_list_of_set {ComposeAttributeProperty a v |p a v.
        p \<in> set pods \<and> (RequireAnnotationPrefix @ a, v) \<in> set (pod_annotations p) \<and> v \<noteq> []}"
proof -
  let ?props = "foldl (\<lambda>props p. foldl require_step props (pod_annotations p)) [] pods"
  have "distinct ?props" by (rule distinct_require_pods) simp
  then have "sort ?props = sorted_list_of_set (set ?props)"
    by (simp add: sorted_list_of_set_sort_remdups distinct_remdups_id)
  then show ?thesis by (simp add: requireConstraintsFromPods_def set_require_pods)
qed

section \<open>What the constraints select (RFC 31)\<close>

text \<open>
  The meaning RFC 31 gives to a constraint object at a vertex with a host name and a set of
  property keys: \<open>properties\<close> holds when every listed key is present, \<open>hostlist\<close> when the
  host is listed, and \<open>and\<close>, \<open>or\<close>, \<open>not\<close> are logical. It is a specification used to state
  what the generated constraints select; the matcher itself is Fluxion's.
\<close>

fun holds :: "string \<Rightarrow> string list \<Rightarrow> jval \<Rightarrow> bool" where
  "holds h ps (JObj [(oper, JArr vs)]) =
     (if oper = ''properties'' then
        list_all (\<lambda>v. case v of JStr s \<Rightarrow> s \<in> set ps | _ \<Rightarrow> False) vs
      else if oper = ''hostlist'' then list_ex (\<lambda>v. v = JStr h) vs
      else if oper = ''and'' then list_all (holds h ps) vs
      else if oper = ''or'' then list_ex (holds h ps) vs
      else if oper = ''not'' then \<not> list_all (holds h ps) vs
      else False)"
| "holds h ps _ = False"

definition jobspec_constraint :: "jobspec \<Rightarrow> jval" where
  "jobspec_constraint j =
     (case map_of (js_attributes j) ''system'' of
        None \<Rightarrow> JNull
      | Some sys \<Rightarrow> (case jfield ''constraints'' sys of None \<Rightarrow> JNull | Some c \<Rightarrow> c))"

lemma holds_properties:
  "holds h ps (JObj [(''properties'', strings_json xs)]) \<longleftrightarrow> set xs \<subseteq> set ps"
  by (auto simp: strings_json_def list_all_iff)

lemma holds_hostlist:
  "holds h ps (JObj [(''hostlist'', strings_json xs)]) \<longleftrightarrow> h \<in> set xs"
  by (auto simp: strings_json_def list_ex_iff)

lemma holds_systemAttributes:
  "holds h ps (jobspec_constraint j) \<longleftrightarrow> set props \<subseteq> set ps \<and> h \<notin> set excluded"
  if "js_attributes j = systemAttributes props excluded"
proof (cases excluded)
  case Nil
  then show ?thesis
    by (simp add: jobspec_constraint_def that systemAttributes_def Let_def holds_properties
        del: holds.simps)
next
  case (Cons e es)
  have "jobspec_constraint j =
      JObj [(''and'', JArr [JObj [(''properties'', strings_json props)],
        JObj [(''not'', JArr [JObj [(''hostlist'', strings_json excluded)]])]])]"
    by (simp add: jobspec_constraint_def that systemAttributes_def Let_def Cons)
  moreover have "holds h ps (JObj [(''not'', JArr [JObj [(''hostlist'', strings_json excluded)]])])
      \<longleftrightarrow> h \<notin> set excluded"
    by (subst holds.simps) (simp add: holds_hostlist del: holds.simps)
  ultimately show ?thesis
    by (subst \<open>jobspec_constraint j = _\<close>, subst holds.simps)
      (simp add: holds_properties del: holds.simps)
qed

text \<open>
  Under RFC 31 a compute jobspec is satisfied exactly by the vertices that are marked
  virtual=false and whose host is not excluded, and a device jobspec exactly by the vertices
  that are marked virtual=true, advertise the class and have every required property.
\<close>
lemma jobspec_constraints_select:
  "(holds h ps (jobspec_constraint (computeJobspec g n compute excluded)) \<longleftrightarrow>
      VirtualPropertyFalse \<in> set ps \<and> h \<notin> set excluded) \<and>
   (holds h ps (jobspec_constraint (deviceJobspec g t n req)) \<longleftrightarrow>
      VirtualPropertyTrue \<in> set ps \<and> ComposeClassProperty t \<in> set ps \<and> set req \<subseteq> set ps)"
proof -
  have "holds h ps (jobspec_constraint (computeJobspec g n compute excluded)) \<longleftrightarrow>
      set [VirtualPropertyFalse] \<subseteq> set ps \<and> h \<notin> set excluded"
    by (rule holds_systemAttributes) (simp add: computeJobspec_def)
  moreover have "holds h ps (jobspec_constraint (deviceJobspec g t n req)) \<longleftrightarrow>
      set ([VirtualPropertyTrue, ComposeClassProperty t] @ req) \<subseteq> set ps \<and> h \<notin> set []"
    by (rule holds_systemAttributes) (simp add: deviceJobspec_def)
  ultimately show ?thesis by auto
qed

section \<open>Reading a placement back\<close>

definition is_virtual :: "allocated_node \<Rightarrow> bool" where
  "is_virtual n \<longleftrightarrow> HasProperty n VirtualPropertyTrue"

definition named_virtual :: "allocated_node \<Rightarrow> bool" where
  "named_virtual n \<longleftrightarrow> is_virtual n \<and> an_name n \<noteq> []"

lemma foldl_placement_nodes:
  "pl_nodes (foldl placement_step p ns) =
     pl_nodes p @ map an_name (filter (\<lambda>n. \<not> is_virtual n) ns)"
  by (induction ns arbitrary: p) (simp_all add: placement_step_def is_virtual_def)

lemma foldl_placement_kept:
  "pl_backend p \<noteq> [] \<Longrightarrow>
   pl_backend (foldl placement_step p ns) = pl_backend p \<and>
   pl_attrs (foldl placement_step p ns) = pl_attrs p"
  by (induction ns arbitrary: p) (simp_all add: placement_step_def)

lemma foldl_placement_backend:
  "pl_backend p = [] \<Longrightarrow>
   (case find named_virtual ns of
      None \<Rightarrow> pl_backend (foldl placement_step p ns) = []
    | Some n \<Rightarrow> pl_backend (foldl placement_step p ns) = an_name n \<and>
        pl_attrs (foldl placement_step p ns) = backendAttributes (an_props n))"
proof (induction ns arbitrary: p)
  case Nil
  then show ?case by simp
next
  case (Cons n ns)
  show ?case
  proof (cases "named_virtual n")
    case True
    then have "placement_step p n = p\<lparr>pl_backend := an_name n, pl_attrs := backendAttributes (an_props n)\<rparr>"
      using Cons.prems by (simp add: placement_step_def named_virtual_def is_virtual_def)
    moreover have "an_name n \<noteq> []" using True by (simp add: named_virtual_def)
    ultimately show ?thesis
      using True foldl_placement_kept [of "placement_step p n" ns] by simp
  next
    case False
    then have "pl_backend (placement_step p n) = []"
      using Cons.prems by (auto simp: placement_step_def named_virtual_def is_virtual_def)
    from Cons.IH [OF this] False show ?thesis by (simp split: option.splits)
  qed
qed

text \<open>
  A parsed allocation is split by the virtual marker alone. The bind nodes are the names
  of the node vertices without virtual=true, in allocation order; the backend is the first
  virtual node that has a name, with the attributes decomposed from that node's properties;
  without such a node there is no backend; and text that does not parse is an error.
\<close>
lemma PlacementFromAllocation_classifies:
  "(case NodesFromAllocation um alloc of
      Inl e \<Rightarrow> PlacementFromAllocation um alloc = Inl e
    | Inr ns \<Rightarrow> \<exists>p. PlacementFromAllocation um alloc = Inr p \<and>
        pl_nodes p = map an_name (filter (\<lambda>n. \<not> is_virtual n) ns) \<and>
        (case find named_virtual ns of
           None \<Rightarrow> pl_backend p = []
         | Some b \<Rightarrow> pl_backend p = an_name b \<and> pl_attrs p = backendAttributes (an_props b)))"
proof (cases "NodesFromAllocation um alloc")
  case (Inl e)
  then show ?thesis by (simp add: PlacementFromAllocation_def)
next
  case (Inr ns)
  have "pl_nodes empty_placement = []" and "pl_backend empty_placement = []"
    by (simp_all add: empty_placement_def)
  with Inr show ?thesis
    using foldl_placement_nodes [of empty_placement ns]
      foldl_placement_backend [of empty_placement ns]
    by (simp add: PlacementFromAllocation_def)
qed

section \<open>Property strings and environment names\<close>

lemma decomposeProperty_pair:
  "CHR ''='' \<notin> set k \<Longrightarrow> decomposeProperty (k @ CHR ''='' # v) = (k, v)"
  by (simp add: decomposeProperty_def index_byte_append)

lemma decomposeProperty_bare:
  "CHR ''='' \<notin> set k \<Longrightarrow> decomposeProperty k = (k, [])"
  by (simp add: decomposeProperty_def split: option.splits)
    (metis index_byte_None option.distinct(1))

text \<open>
  Decomposing a property recovers it: the parts are joined by the first equals sign, a
  property without one is a bare key, and the key part never holds an equals sign.
\<close>
lemma decomposeProperty_recovers:
  "case decomposeProperty pr of (k, v) \<Rightarrow>
     CHR ''='' \<notin> set k \<and>
     (if CHR ''='' \<in> set pr then pr = k @ ''='' @ v else k = pr \<and> v = [])"
proof (cases "index_byte pr (CHR ''='')")
  case None
  then have "CHR ''='' \<notin> set pr" by simp
  then show ?thesis by (simp add: decomposeProperty_bare)
next
  case (Some i)
  note pos = index_byte_Some [OF Some]
  then have "pr = take i pr @ CHR ''='' # drop (Suc i) pr"
    using id_take_nth_drop [of i pr] by simp
  moreover have "CHR ''='' \<in> set pr" using pos nth_mem [of i pr] by simp
  ultimately show ?thesis using Some pos by (simp add: decomposeProperty_def)
qed

definition env_char :: "char \<Rightarrow> bool" where
  "env_char c \<longleftrightarrow> (CHR ''A'' \<le> c \<and> c \<le> CHR ''Z'') \<or> (CHR ''0'' \<le> c \<and> c \<le> CHR ''9'') \<or> c = CHR ''_''"

lemma env_char_env_rune: "env_char (env_rune r)"
proof -
  have le: "\<And>a b :: char. a \<le> b \<longleftrightarrow> (of_char a :: nat) \<le> of_char b"
    by (simp add: less_eq_char_def)
  show ?thesis
    by (auto simp: env_rune_def env_char_def le)
qed

text \<open>
  An environment variable name made from any attribute key is the prefix followed by
  exactly one letter, digit or underscore per rune of the key, so it is a valid name.
\<close>
lemma EnvVarName_valid:
  "take (length EnvVarPrefix) (EnvVarName k) = EnvVarPrefix \<and>
   length (EnvVarName k) = length EnvVarPrefix + length (runes k) \<and>
   list_all env_char (EnvVarName k)"
  by (auto simp: EnvVarName_def list_all_iff env_char_env_rune) (auto simp: EnvVarPrefix_def env_char_def)

end
