(* ===== verification/Cluster.thy ===== *)
theory Cluster
  imports JGF Placement
begin

text \<open>
  \<open>pkg/cluster\<close>: the resources configuration (\<open>resources.go\<close>), the virtual part of the
  graph (\<open>resources_graph.go\<close>) and the whole graph built from the cluster's nodes
  (\<open>cluster.go\<close>). The YAML decoder (\<open>sigs.k8s.io/yaml\<close>) is a parameter of
  \<open>LoadResourcesConfig\<close>.
\<close>

section \<open>The resources configuration\<close>

record attr_spec =
  as_ref :: string
  as_inline :: "(string, string) gomap"

definition no_attrs :: attr_spec where
  "no_attrs = \<lparr>as_ref = [], as_inline = []\<rparr>"

text \<open>
  \<open>Resource\<close>. \<open>cr_resolved\<close> is \<open>ResolvedAttributes\<close>: the code keeps nil for an
  empty map and only iterates it, so both are the empty list.
\<close>

datatype cresource = CResource
  (cr_type: string) (cr_name: string) (cr_count: int) (cr_parent: string)
  (cr_attributes: attr_spec) (cr_with: "cresource list")
  (cr_resolved: "(string, string) gomap") (cr_backend: string)

record resources_config =
  rc_resources :: "cresource list"
  rc_attributes :: "(string, (string, string) gomap) gomap"

definition DefaultParent :: string where
  "DefaultParent = ''cluster''"

text \<open>
  \<open>UnmarshalJSON\<close>: the first byte of the raw value decides; a string is a reference, an
  object an inline map (whose null values are left at the zero value), null is no attributes.
\<close>

fun string_value :: "jval \<Rightarrow> string option" where
  "string_value (JStr s) = Some s"
| "string_value JNull = Some []"
| "string_value _ = None"

fun string_object :: "(string, string) gomap \<Rightarrow> (string \<times> jval) list \<Rightarrow> (string, string) gomap option" where
  "string_object m [] = Some m"
| "string_object m ((k, v) # fs) =
     (case string_value v of None \<Rightarrow> None | Some s \<Rightarrow> string_object (gput m k s) fs)"

fun UnmarshalJSON :: "attr_spec \<Rightarrow> jval \<Rightarrow> attr_spec option" where
  "UnmarshalJSON a JNull = Some a"
| "UnmarshalJSON a (JStr s) = Some (a\<lparr>as_ref := s\<rparr>)"
| "UnmarshalJSON a (JObj fs) =
     (case string_object [] fs of None \<Rightarrow> None | Some m \<Rightarrow> Some (a\<lparr>as_inline := m\<rparr>))"
| "UnmarshalJSON a _ = None"

definition attrs_empty :: "attr_spec \<Rightarrow> bool" where
  "attrs_empty a \<longleftrightarrow> as_ref a = [] \<and> as_inline a = []"

datatype config_error =
    ParseError string
  | NoResources
  | MissingType
  | UnknownAttributeSet string string

definition resolveAttributes ::
    "attr_spec \<Rightarrow> (string, (string, string) gomap) gomap \<Rightarrow> string
     \<Rightarrow> config_error + (string, string) gomap" where
  "resolveAttributes spec registry resourceType =
     (if as_ref spec \<noteq> [] then
        (case map_of registry (as_ref spec) of
           None \<Rightarrow> Inl (UnknownAttributeSet resourceType (as_ref spec))
         | Some attrs \<Rightarrow> Inr (gcopy [] attrs))
      else Inr (gcopy [] (as_inline spec)))"

text \<open>Start from the inherited map, apply the own one; an empty own value clears the key.\<close>

definition own_step :: "(string, string) gomap \<Rightarrow> string \<times> string \<Rightarrow> (string, string) gomap" where
  "own_step merged kv = (case kv of (k, v) \<Rightarrow> if v = [] then gdel merged k else gput merged k v)"

definition merge_attrs ::
    "(string, string) gomap \<Rightarrow> (string, string) gomap \<Rightarrow> (string, string) gomap" where
  "merge_attrs inherited own = foldl own_step (gcopy [] inherited) own"

definition own_attrs ::
    "cresource \<Rightarrow> (string, (string, string) gomap) gomap \<Rightarrow> config_error + (string, string) gomap" where
  "own_attrs r registry =
     (if attrs_empty (cr_attributes r) then Inr []
      else resolveAttributes (cr_attributes r) registry (cr_type r))"

text \<open>
  \<open>resolveResourceInherited\<close> and its loop over the children, which first hands each child
  the backend name. The resource is returned resolved, or the first error.
\<close>

fun resolveResourceInherited ::
    "(string, (string, string) gomap) gomap \<Rightarrow> bool \<Rightarrow> (string, string) gomap \<Rightarrow> cresource
     \<Rightarrow> config_error + cresource"
  and resolveChildren ::
    "(string, (string, string) gomap) gomap \<Rightarrow> (string, string) gomap \<Rightarrow> string \<Rightarrow> cresource list
     \<Rightarrow> config_error + cresource list" where
  "resolveResourceInherited registry topLevel inherited (CResource ty nm cnt par attrs ws res bk) =
     (if ty = [] then Inl MissingType
      else
        let par' = (if topLevel \<and> par = [] then DefaultParent else par)
        in case own_attrs (CResource ty nm cnt par attrs ws res bk) registry of
             Inl e \<Rightarrow> Inl e
           | Inr own \<Rightarrow>
               let merged = merge_attrs inherited own;
                   bk' = (if topLevel \<and> nm \<noteq> [] then nm else bk)
               in case resolveChildren registry merged bk' ws of
                    Inl e \<Rightarrow> Inl e
                  | Inr ws' \<Rightarrow> Inr (CResource ty nm cnt par' attrs ws' merged bk'))"
| "resolveChildren registry merged bk [] = Inr []"
| "resolveChildren registry merged bk (CResource ty nm cnt par attrs ws res bk0 # rs) =
     (case resolveResourceInherited registry False merged (CResource ty nm cnt par attrs ws res bk) of
        Inl e \<Rightarrow> Inl e
      | Inr r' \<Rightarrow>
          (case resolveChildren registry merged bk rs of
             Inl e \<Rightarrow> Inl e
           | Inr rs' \<Rightarrow> Inr (r' # rs')))"

definition resolveResource ::
    "(string, (string, string) gomap) gomap \<Rightarrow> bool \<Rightarrow> cresource \<Rightarrow> config_error + cresource" where
  "resolveResource registry topLevel r = resolveResourceInherited registry topLevel [] r"

fun resolve_list ::
    "(string, (string, string) gomap) gomap \<Rightarrow> cresource list \<Rightarrow> config_error + cresource list" where
  "resolve_list registry [] = Inr []"
| "resolve_list registry (r # rs) =
     (case resolveResource registry True r of
        Inl e \<Rightarrow> Inl e
      | Inr r' \<Rightarrow>
          (case resolve_list registry rs of Inl e \<Rightarrow> Inl e | Inr rs' \<Rightarrow> Inr (r' # rs')))"

definition hasContent :: "string \<Rightarrow> bool" where
  "hasContent input =
     list_ex (\<lambda>line. let t = trim_space line in t \<noteq> [] \<and> \<not> has_prefix t ''#'')
       (split_on newline input)"

definition LoadResourcesConfig ::
    "(string \<Rightarrow> string + resources_config) \<Rightarrow> string \<Rightarrow> config_error + resources_config" where
  "LoadResourcesConfig unmarshal input =
     (case unmarshal input of
        Inl e \<Rightarrow> Inl (ParseError e)
      | Inr c \<Rightarrow>
          if rc_resources c = [] \<and> hasContent input then Inl NoResources
          else (case resolve_list (rc_attributes c) (rc_resources c) of
                  Inl e \<Rightarrow> Inl e
                | Inr rs \<Rightarrow> Inr (c\<lparr>rc_resources := rs\<rparr>)))"

section \<open>Virtual resources as graph vertices\<close>

definition VirtualProperty :: string where
  "VirtualProperty = ''virtual''"

definition ClassProperty :: string where
  "ClassProperty = ''class''"

definition ComposeProperty :: "string \<Rightarrow> string \<Rightarrow> string" where
  "ComposeProperty key val = (if val = [] then key else key @ ''='' @ val)"

text \<open>The set of types of a subtree, each once, in the order the walk finds them.\<close>

definition add_type :: "string list \<Rightarrow> string \<Rightarrow> string list" where
  "add_type types t = (if t \<in> set types then types else types @ [t])"

fun walk_types :: "string list \<Rightarrow> cresource \<Rightarrow> string list"
  and walk_types_list :: "string list \<Rightarrow> cresource list \<Rightarrow> string list" where
  "walk_types types (CResource ty nm cnt par attrs ws res bk) =
     walk_types_list (add_type types ty) ws"
| "walk_types_list types [] = types"
| "walk_types_list types (r # rs) = walk_types_list (walk_types types r) rs"

definition subtreeClasses :: "cresource \<Rightarrow> string list" where
  "subtreeClasses r = walk_types [] r"

definition virtualProperties :: "cresource \<Rightarrow> (string, string) gomap" where
  "virtualProperties res =
     (let props = gput [] (ComposeProperty VirtualProperty ''true'') [];
          props = foldl (\<lambda>m t. gput m (ComposeProperty ClassProperty t) []) props
                    (subtreeClasses res);
          props = foldl (\<lambda>m (k, v). gput m (ComposeProperty (FluxionResourcePrefix @ k) v) []) props
                    (cr_resolved res)
      in if cr_backend res \<noteq> []
         then gput props (ComposeProperty (FluxionResourcePrefix @ ''backend'') (cr_backend res)) []
         else props)"

text \<open>
  \<open>addResource\<close>: one node vertex, with the next rank, then the children under it. The
  source's error result is always nil and is left out.
\<close>

definition resource_options :: "cresource \<Rightarrow> int \<Rightarrow> vertex_options" where
  "resource_options res r =
     no_options\<lparr>o_name := cr_name res, o_size := (if cr_count res = 0 then 1 else cr_count res),
       o_node_props := virtualProperties res, o_rank := Some r\<rparr>"

fun addResource :: "builder \<Rightarrow> vertex \<Rightarrow> cresource \<Rightarrow> int \<Rightarrow> builder \<times> int"
  and addChildren :: "builder \<Rightarrow> vertex \<Rightarrow> cresource list \<Rightarrow> int \<Rightarrow> builder \<times> int" where
  "addResource b parent (CResource ty nm cnt par attrs ws res bk) rank =
     (case AddChild b parent ''node'' ty
             (resource_options (CResource ty nm cnt par attrs ws res bk) rank) of
        (b', v) \<Rightarrow> addChildren b' v ws (rank + 1))"
| "addChildren b v [] rank = (b, rank)"
| "addChildren b v (r # rs) rank =
     (case addResource b v r rank of (b', rank') \<Rightarrow> addChildren b' v rs rank')"

datatype graph_error = UnknownParent string string | EncodeError string

fun appendResources ::
    "builder \<Rightarrow> (string, vertex) gomap \<Rightarrow> string \<Rightarrow> cresource list \<Rightarrow> int
     \<Rightarrow> graph_error + builder \<times> int" where
  "appendResources b parents clusterName [] rank = Inr (b, rank)"
| "appendResources b parents clusterName (res # rs) rank =
     (let parentName = (if cr_parent res = [] then clusterName else cr_parent res)
      in case map_of parents parentName of
           None \<Rightarrow> Inl (UnknownParent (cr_type res) parentName)
         | Some parent \<Rightarrow>
             (case addResource b parent res rank of
                (b', rank') \<Rightarrow> appendResources b' parents clusterName rs rank'))"

definition FluxionResourceNames :: "cresource list \<Rightarrow> string list" where
  "FluxionResourceNames resources =
     sort (map (\<lambda>t. FluxionResourcePrefix @ t) (walk_types_list [] resources))"

fun walk_keys :: "string list \<Rightarrow> cresource list \<Rightarrow> string list" where
  "walk_keys keys [] = keys"
| "walk_keys keys (CResource ty nm cnt par attrs ws res bk # rs) =
     walk_keys (walk_keys (foldl add_type keys (map fst res)) ws) rs"

definition AttributeKeys :: "cresource list \<Rightarrow> string list" where
  "AttributeKeys resources = sort (walk_keys [] resources)"

section \<open>The graph of the cluster\<close>

record graph_options =
  go_cluster :: string
  go_gpu :: string
  go_resources :: "cresource list"
  go_unschedulable :: bool

definition controlPlaneTaints :: "string list" where
  "controlPlaneTaints =
     [''node-role.kubernetes.io/control-plane'', ''node-role.kubernetes.io/master'']"

definition isControlPlane :: "node \<Rightarrow> bool" where
  "isControlPlane n = list_ex (\<lambda>t. taint_key t \<in> set controlPlaneTaints) (n_taints n)"

definition node_count :: "node \<Rightarrow> string \<Rightarrow> int" where
  "node_count n name =
     (case map_of (n_allocatable n) name of
        Some q \<Rightarrow> q_value q
      | None \<Rightarrow> (case map_of (n_capacity n) name of Some q \<Rightarrow> q_value q | None \<Rightarrow> 0))"

definition memoryChunkMiB :: "node \<Rightarrow> int \<Rightarrow> int" where
  "memoryChunkMiB n cores =
     (if cores \<le> 0 then 0
      else
        case (case map_of (n_allocatable n) ''memory'' of
                Some q \<Rightarrow> Some q | None \<Rightarrow> map_of (n_capacity n) ''memory'') of
          None \<Rightarrow> 0
        | Some q \<Rightarrow> go_div (go_div (q_value q) (1024 * 1024)) cores)"

text \<open>\<open>for i := 0; i < k; i++ { b.AddChild(parent, typ, typ, opts) }\<close>.\<close>

fun add_copies :: "nat \<Rightarrow> builder \<Rightarrow> vertex \<Rightarrow> string \<Rightarrow> vertex_options \<Rightarrow> builder" where
  "add_copies 0 b parent typ opts = b"
| "add_copies (Suc k) b parent typ opts =
     add_copies k (fst (AddChild b parent typ typ opts)) parent typ opts"

definition skip_node :: "graph_options \<Rightarrow> node \<Rightarrow> bool" where
  "skip_node opts n \<longleftrightarrow>
     (n_unschedulable n \<and> \<not> go_unschedulable opts) \<or> (isControlPlane n \<and> \<not> go_unschedulable opts)"

definition node_options :: "node \<Rightarrow> int \<Rightarrow> vertex_options" where
  "node_options n r =
     no_options\<lparr>o_name := n_name n, o_rank := Some r, o_props := [(''hostname'', JStr (n_name n))],
       o_node_props := [(ComposeProperty VirtualProperty ''false'', [])]\<rparr>"

definition add_node ::
    "string \<Rightarrow> vertex \<Rightarrow> node \<Rightarrow> builder \<times> int \<times> (string, vertex) gomap
     \<Rightarrow> builder \<times> int \<times> (string, vertex) gomap" where
  "add_node gpuName root n st =
     (case st of (b, rank, parents) \<Rightarrow>
        case AddChild b root ''node'' ''node'' (node_options n rank) of (b, nodeV) \<Rightarrow>
        let parents = gput parents (n_name n) nodeV;
            cores = node_count n ''cpu'';
            b = add_copies (nat cores) b nodeV ''core'' no_options;
            chunk = memoryChunkMiB n cores;
            b = (if chunk > 0
                 then add_copies (nat cores) b nodeV ''memory''
                        (no_options\<lparr>o_size := chunk, o_unit := ''MiB''\<rparr>)
                 else b);
            b = add_copies (nat (node_count n gpuName)) b nodeV ''gpu'' no_options
        in (b, rank + 1, parents))"

fun add_nodes ::
    "graph_options \<Rightarrow> string \<Rightarrow> vertex \<Rightarrow> node list \<Rightarrow> builder \<times> int \<times> (string, vertex) gomap
     \<Rightarrow> builder \<times> int \<times> (string, vertex) gomap" where
  "add_nodes opts gpuName root [] st = st"
| "add_nodes opts gpuName root (n # ns) st =
     add_nodes opts gpuName root ns
       (if skip_node opts n then st else add_node gpuName root n st)"

definition DefaultGPUResource :: string where
  "DefaultGPUResource = ''nvidia.com/gpu''"

definition cluster_name :: "graph_options \<Rightarrow> string" where
  "cluster_name opts = (if go_cluster opts = [] then ''cluster'' else go_cluster opts)"

definition gpu_name :: "graph_options \<Rightarrow> string" where
  "gpu_name opts = (if go_gpu opts = [] then DefaultGPUResource else go_gpu opts)"

definition build_builder :: "node list \<Rightarrow> graph_options \<Rightarrow> graph_error + builder \<times> int" where
  "build_builder nodes opts =
     (case AddRoot NewBuilder ''cluster'' ''cluster'' (no_options\<lparr>o_name := cluster_name opts\<rparr>) of
        (b, root) \<Rightarrow>
          (case add_nodes opts (gpu_name opts) root nodes (b, 0, [(cluster_name opts, root)]) of
             (b, rank, parents) \<Rightarrow>
               appendResources b parents (cluster_name opts) (go_resources opts) rank))"

definition BuildGraph :: "node list \<Rightarrow> graph_options \<Rightarrow> graph_error + string" where
  "BuildGraph nodes opts =
     (case build_builder nodes opts of
        Inl e \<Rightarrow> Inl e
      | Inr (b, _) \<Rightarrow>
          (case builder_JSON b of Inl e \<Rightarrow> Inl (EncodeError e) | Inr s \<Rightarrow> Inr s))"

end
