(* ===== verification/Scheduler.thy ===== *)
theory Scheduler
  imports Matcher Cluster
begin

text \<open>
  \<open>pkg/fluence/fluence.go\<close>: the scheduler-framework plugin. The matcher is a parameter
  (two operations on a state \<open>'m\<close>), as it is an interface in the code. The Kubernetes API
  is a parameter too: a handler gets what the API answers and returns, besides its new state,
  the requests it sends. Locks are not modelled: every critical section is one step.
\<close>

section \<open>State\<close>

record group_alloc =
  ga_place :: placement
  ga_jobids :: "uint64 list"

record 'm fluence =
  fl_matcher :: 'm
  fl_known :: "string list option"
  fl_placement :: "string \<rightharpoonup> group_alloc"
  fl_excluded :: "string \<rightharpoonup> string list"

text \<open>The codes of the scheduler framework; a status is a code and a reason.\<close>

datatype code = Success | Error | Unschedulable | UnschedulableAndUnresolvable | Wait | Skip | Pending

type_synonym status = "code \<times> string"

definition AsStatus :: "string \<Rightarrow> status" where
  "AsStatus err = (Error, err)"

definition NewStatus :: "code \<Rightarrow> status" where
  "NewStatus c = (c, [])"

text \<open>What a handler asks of the Kubernetes API.\<close>

datatype request =
    PatchPod string string "(string, string) gomap"
  | PatchGroup string string "(string, string) gomap"
  | DeleteGroup string string

text \<open>What the API answers: the pod lister, the PodGroup lister and getter, and the outcome of writes.\<close>

record api =
  api_pods :: "string \<Rightarrow> string + pod list"
  api_groups :: "string + pod_group list"
  api_group :: "string \<Rightarrow> string \<Rightarrow> string + pod_group"
  api_write :: "request \<Rightarrow> string option"

section \<open>Construction\<close>

definition schedulableNodes :: "node list \<Rightarrow> node list" where
  "schedulableNodes nodes =
     filter (\<lambda>n. \<not> n_unschedulable n \<and>
       \<not> list_ex (\<lambda>t. taint_effect t = ''NoSchedule'' \<or> taint_effect t = ''NoExecute'') (n_taints n))
       nodes"

datatype new_error =
    ListNodes string
  | BadConfig config_error
  | ReadConfig string string
  | BadGraph graph_error
  | TempFile string

text \<open>
  The resources configuration named by \<open>FLUENCE_RESOURCES\<close>: reading the file gives its
  bytes, no such file (None) or another error.
\<close>

definition load_resources ::
    "(string \<Rightarrow> string + resources_config) \<Rightarrow> (string \<Rightarrow> string + string option) \<Rightarrow> string
     \<Rightarrow> new_error + cresource list \<times> string list" where
  "load_resources unmarshal read_file path =
     (if path = [] then Inr ([], [])
      else case read_file path of
             Inl e \<Rightarrow> Inl (ReadConfig path e)
           | Inr None \<Rightarrow> Inr ([], [])
           | Inr (Some raw) \<Rightarrow>
               (case LoadResourcesConfig unmarshal raw of
                  Inl e \<Rightarrow> Inl (BadConfig e)
                | Inr rc \<Rightarrow>
                    Inr (rc_resources rc,
                      map (\<lambda>name. trim_prefix name FluxionResourcePrefix)
                        (FluxionResourceNames (rc_resources rc)))))"

text \<open>
  \<open>New\<close>: \<open>stage\<close> writes the graph to a temporary file and returns its name, \<open>init\<close>
  makes the matcher from it. Registering the handlers and starting the sweep have no result.
\<close>

definition New ::
    "(string \<Rightarrow> string + resources_config) \<Rightarrow> (string \<Rightarrow> string + string option)
     \<Rightarrow> (string \<Rightarrow> string + string) \<Rightarrow> (string \<Rightarrow> string \<Rightarrow> 'm) \<Rightarrow> (string \<Rightarrow> string)
     \<Rightarrow> string + node list \<Rightarrow> new_error + 'm fluence" where
  "New unmarshal read_file stage init getenv node_list =
     (case node_list of
        Inl e \<Rightarrow> Inl (ListNodes e)
      | Inr nodes \<Rightarrow>
          (case load_resources unmarshal read_file (getenv ''FLUENCE_RESOURCES'') of
             Inl e \<Rightarrow> Inl e
           | Inr (resources, known) \<Rightarrow>
               (case BuildGraph (schedulableNodes nodes)
                       \<lparr>go_cluster = [], go_gpu = [], go_resources = resources,
                        go_unschedulable = False\<rparr> of
                  Inl e \<Rightarrow> Inl (BadGraph e)
                | Inr jgf \<Rightarrow>
                    (case stage jgf of
                       Inl e \<Rightarrow> Inl (TempFile e)
                     | Inr tmp \<Rightarrow>
                         Inr \<lparr>fl_matcher = init tmp (getenv ''FLUENCE_MATCH_POLICY''),
                              fl_known = Some known, fl_placement = Map.empty,
                              fl_excluded = Map.empty\<rparr>))))"

section \<open>Group identity\<close>

definition groupKey :: "pod \<Rightarrow> string" where
  "groupKey p =
     (if PodGroupName p \<noteq> [] then p_namespace p @ ''/'' @ PodGroupName p
      else p_namespace p @ ''/'' @ p_name p)"

definition groupPods :: "api \<Rightarrow> pod \<Rightarrow> string + pod list" where
  "groupPods w p =
     (if PodGroupName p = [] then Inr [p]
      else case api_pods w (p_namespace p) of
             Inl e \<Rightarrow> Inl e
           | Inr ps \<Rightarrow> Inr (filter (\<lambda>q. PodGroupName q = PodGroupName p \<and> p_gates q = []) ps))"

section \<open>Jobid annotations\<close>

definition formatJobIDs :: "uint64 list \<Rightarrow> string" where
  "formatJobIDs jobids = join_with '','' (map (\<lambda>j. show_nat (unat j)) jobids)"

fun parse_parts :: "string list \<Rightarrow> uint64 list option" where
  "parse_parts [] = Some []"
| "parse_parts (part # parts) =
     (let part = trim_space part
      in if part = [] then parse_parts parts
         else case parse_uint part of
                None \<Rightarrow> None
              | Some j \<Rightarrow> map_option (Cons j) (parse_parts parts))"

definition parse_jobid_text :: "string \<Rightarrow> uint64 list option" where
  "parse_jobid_text raw =
     (if raw = [] then None
      else case parse_parts (split_on (CHR '','') raw) of
             None \<Rightarrow> None
           | Some jobids \<Rightarrow> if jobids = [] then None else Some jobids)"

definition parseJobIDs :: "(string, string) gomap \<Rightarrow> uint64 list option" where
  "parseJobIDs ann = parse_jobid_text (gstr ann JobIDAnnotation)"

text \<open>The keys of a set, a map to bool of which any key counts, in order.\<close>

definition keysOf :: "(string, bool) gomap \<Rightarrow> string list" where
  "keysOf m = sort (map fst m)"

section \<open>Matching a group\<close>

primrec cancelJobids ::
    "('m \<Rightarrow> uint64 \<Rightarrow> 'm \<times> string option) \<Rightarrow> 'm \<Rightarrow> uint64 list \<Rightarrow> 'm" where
  "cancelJobids do_cancel m [] = m"
| "cancelJobids do_cancel m (j # js) = cancelJobids do_cancel (fst (do_cancel m j)) js"

definition merge_placement :: "placement \<Rightarrow> placement \<Rightarrow> placement" where
  "merge_placement combined place =
     (let combined = combined\<lparr>pl_nodes := pl_nodes combined @ pl_nodes place\<rparr>
      in if pl_backend place \<noteq> []
         then combined\<lparr>pl_backend := pl_backend place, pl_attrs := pl_attrs place\<rparr>
         else combined)"

text \<open>The loop of \<open>matchGroup\<close>, every failure after rolling back what was allocated.\<close>

fun match_specs ::
    "('m \<Rightarrow> string \<Rightarrow> 'm \<times> (string + match_request)) \<Rightarrow> ('m \<Rightarrow> uint64 \<Rightarrow> 'm \<times> string option)
     \<Rightarrow> (string \<Rightarrow> string + allocation) \<Rightarrow> 'm \<Rightarrow> placement \<Rightarrow> uint64 list \<Rightarrow> jobspec list
     \<Rightarrow> 'm \<times> (status + placement \<times> uint64 list)" where
  "match_specs do_match do_cancel unmarshal m combined jobids [] = (m, Inr (combined, jobids))"
| "match_specs do_match do_cancel unmarshal m combined jobids (js # specs) =
     (case JSON js of
        Inl e \<Rightarrow> (cancelJobids do_cancel m jobids, Inl (AsStatus e))
      | Inr spec \<Rightarrow>
          (case do_match m spec of
             (m, Inl e) \<Rightarrow>
               (cancelJobids do_cancel m jobids, Inl (Unschedulable, ''fluxion match failed: '' @ e))
           | (m, Inr req) \<Rightarrow>
               (case PlacementFromAllocation unmarshal (mr_allocation req) of
                  Inl e \<Rightarrow> (cancelJobids do_cancel m (jobids @ [mr_number req]), Inl (AsStatus e))
                | Inr place \<Rightarrow>
                    match_specs do_match do_cancel unmarshal m (merge_placement combined place)
                      (jobids @ [mr_number req]) specs)))"

definition matchGroup ::
    "('m \<Rightarrow> string \<Rightarrow> 'm \<times> (string + match_request)) \<Rightarrow> ('m \<Rightarrow> uint64 \<Rightarrow> 'm \<times> string option)
     \<Rightarrow> (string \<Rightarrow> string + allocation) \<Rightarrow> 'm \<Rightarrow> jobspec list
     \<Rightarrow> 'm \<times> (status + placement \<times> uint64 list)" where
  "matchGroup do_match do_cancel unmarshal m specs =
     (case match_specs do_match do_cancel unmarshal m empty_placement [] specs of
        (m, Inl st) \<Rightarrow> (m, Inl st)
      | (m, Inr (combined, jobids)) \<Rightarrow>
          if pl_nodes combined = [] \<and> pl_backend combined = []
          then (cancelJobids do_cancel m jobids,
                Inl (Unschedulable, ''fluxion returned no allocation''))
          else (m, Inr (combined, jobids)))"

section \<open>Extension points\<close>

text \<open>The text of an error of \<open>JobspecsForGroup\<close>; names are quoted and need no escapes.\<close>

definition quoted :: "string \<Rightarrow> string" where
  "quoted s = ''\"'' @ s @ ''\"''"

fun jobspec_error_text :: "jobspec_error \<Rightarrow> string" where
  "jobspec_error_text (NoPods g) = ''pod group '' @ quoted g @ '' has no pods''"
| "jobspec_error_text (NotModeled g t) =
     ''pod group '' @ quoted g @ '' requests virtual resource '' @ quoted t
     @ '' which is not modeled in the resources graph''"
| "jobspec_error_text (NoResourcesGraph g t) =
     ''pod group '' @ quoted g @ '' requests virtual resource '' @ quoted t
     @ '' but no resources graph is configured''"

definition excluded_nodes :: "'m fluence \<Rightarrow> string \<Rightarrow> string list" where
  "excluded_nodes f k = (case fl_excluded f k of None \<Rightarrow> [] | Some ns \<Rightarrow> ns)"

definition PreFilter ::
    "('m \<Rightarrow> string \<Rightarrow> 'm \<times> (string + match_request)) \<Rightarrow> ('m \<Rightarrow> uint64 \<Rightarrow> 'm \<times> string option)
     \<Rightarrow> (string \<Rightarrow> string + allocation) \<Rightarrow> api \<Rightarrow> 'm fluence \<Rightarrow> pod \<Rightarrow> 'm fluence \<times> status" where
  "PreFilter do_match do_cancel unmarshal w f p =
     (let grp = groupKey p
      in if fl_placement f grp \<noteq> None then (f, NewStatus Success)
         else case groupPods w p of
                Inl e \<Rightarrow> (f, AsStatus e)
              | Inr pods \<Rightarrow>
                  (case JobspecsForGroup grp pods (fl_known f) (sort (excluded_nodes f grp)) of
                     Inl e \<Rightarrow> (f, AsStatus (jobspec_error_text e))
                   | Inr specs \<Rightarrow>
                       (case matchGroup do_match do_cancel unmarshal (fl_matcher f) specs of
                          (m, Inl st) \<Rightarrow> (f\<lparr>fl_matcher := m\<rparr>, st)
                        | (m, Inr (place, jobids)) \<Rightarrow>
                            (f\<lparr>fl_matcher := m,
                               fl_placement := (fl_placement f)(grp \<mapsto>
                                 \<lparr>ga_place = place, ga_jobids = jobids\<rparr>)\<rparr>, NewStatus Success))))"

definition cached_nodes :: "'m fluence \<Rightarrow> string \<Rightarrow> string list" where
  "cached_nodes f k = (case fl_placement f k of None \<Rightarrow> [] | Some a \<Rightarrow> pl_nodes (ga_place a))"

definition Filter :: "'m fluence \<Rightarrow> pod \<Rightarrow> node \<Rightarrow> status" where
  "Filter f p n =
     (let nodes = cached_nodes f (groupKey p)
      in if nodes = [] then NewStatus Success
         else if n_name n \<in> set nodes then NewStatus Success
         else (Unschedulable, ''node not in fluxion allocation for this group''))"

text \<open>
  \<open>PostFilter\<close>: the status reader may be nil and may have no status for a node; either
  leaves the code at its zero value, \<open>Success\<close>.
\<close>

definition node_code :: "(string \<Rightarrow> code option) option \<Rightarrow> string \<Rightarrow> code" where
  "node_code statuses n =
     (case statuses of
        None \<Rightarrow> Success
      | Some get \<Rightarrow> (case get n of None \<Rightarrow> Success | Some c \<Rightarrow> c))"

definition PostFilter ::
    "('m \<Rightarrow> uint64 \<Rightarrow> 'm \<times> string option) \<Rightarrow> 'm fluence \<Rightarrow> pod
     \<Rightarrow> (string \<Rightarrow> code option) option \<Rightarrow> 'm fluence \<times> status" where
  "PostFilter do_cancel f p statuses =
     (let grp = groupKey p
      in case fl_placement f grp of
           None \<Rightarrow> (f, NewStatus Unschedulable)
         | Some alloc \<Rightarrow>
             let excluded =
                   foldl (\<lambda>ex n. if node_code statuses n = UnschedulableAndUnresolvable
                                  then List.insert n ex else ex)
                     (excluded_nodes f grp) (pl_nodes (ga_place alloc))
             in (f\<lparr>fl_excluded := (fl_excluded f)(grp \<mapsto> excluded),
                   fl_placement := (fl_placement f)(grp := None),
                   fl_matcher := cancelJobids do_cancel (fl_matcher f) (ga_jobids alloc)\<rparr>,
                 NewStatus Unschedulable))"

definition PreBindPreFlight :: "'m fluence \<Rightarrow> pod \<Rightarrow> status" where
  "PreBindPreFlight f p =
     (if fl_placement f (groupKey p) = None then NewStatus Skip else NewStatus Success)"

text \<open>
  The patch of \<open>patchPodAnnotations\<close> and of \<open>recordJobIDs\<close>, as the annotations it sets.
  A write returns its error.
\<close>

definition backend_annotations :: "placement \<Rightarrow> (string, string) gomap" where
  "backend_annotations place =
     foldl (\<lambda>ann (k, v). gput ann (AttributeAnnotationPrefix @ k) v)
       (gput [] BackendAnnotation (pl_backend place)) (pl_attrs place)"

definition stampBackend :: "'m fluence \<Rightarrow> pod \<Rightarrow> request list" where
  "stampBackend f p =
     (case fl_placement f (groupKey p) of
        None \<Rightarrow> []
      | Some alloc \<Rightarrow>
          if pl_backend (ga_place alloc) = [] then []
          else [PatchPod (p_namespace p) (p_name p) (backend_annotations (ga_place alloc))])"

definition patchPodAnnotation :: "string \<Rightarrow> string \<Rightarrow> string \<Rightarrow> string \<Rightarrow> request" where
  [simp]: "patchPodAnnotation ns name key val = PatchPod ns name [(key, val)]"

definition recordJobIDs :: "pod \<Rightarrow> uint64 list \<Rightarrow> request" where
  "recordJobIDs p jobids =
     (let v = formatJobIDs jobids
      in if PodGroupName p \<noteq> [] then PatchGroup (p_namespace p) (PodGroupName p) [(JobIDAnnotation, v)]
         else patchPodAnnotation (p_namespace p) (p_name p) JobIDAnnotation v)"

text \<open>Send requests in order, stopping at the first that fails: what was sent and the error.\<close>

fun send :: "api \<Rightarrow> request list \<Rightarrow> request list \<times> string option" where
  "send w [] = ([], None)"
| "send w (r # rs) =
     (case api_write w r of
        Some e \<Rightarrow> ([r], Some e)
      | None \<Rightarrow> (case send w rs of (sent, e) \<Rightarrow> (r # sent, e)))"

definition Reserve :: "api \<Rightarrow> 'm fluence \<Rightarrow> pod \<Rightarrow> request list \<times> status" where
  "Reserve w f p =
     (case send w (stampBackend f p) of
        (sent, Some e) \<Rightarrow> (sent, AsStatus (''stamp backend annotations: '' @ e))
      | (sent, None) \<Rightarrow> (sent, NewStatus Success))"

text \<open>A reservation that is given up later leaves the annotation; nothing of the plugin changes.\<close>

definition Unreserve :: "'m fluence \<Rightarrow> pod \<Rightarrow> 'm fluence \<times> request list" where
  "Unreserve f p = (f, [])"

definition PreBind :: "api \<Rightarrow> 'm fluence \<Rightarrow> pod \<Rightarrow> request list \<times> status" where
  "PreBind w f p =
     (case fl_placement f (groupKey p) of
        None \<Rightarrow> ([], NewStatus Success)
      | Some alloc \<Rightarrow>
          (case send w [recordJobIDs p (ga_jobids alloc)] of
             (sent, Some e) \<Rightarrow> (sent, AsStatus (''record jobids: '' @ e))
           | (sent, None) \<Rightarrow>
               (case send w (stampBackend f p) of
                  (sent', Some e) \<Rightarrow> (sent @ sent', AsStatus (''stamp backend annotations: '' @ e))
                | (sent', None) \<Rightarrow> (sent @ sent', NewStatus Success))))"

section \<open>Freeing allocations\<close>

text \<open>\<open>cancelGroup\<close>: the annotation first, the memo when it is missing or unreadable.\<close>

definition cancelGroup ::
    "('m \<Rightarrow> uint64 \<Rightarrow> 'm \<times> string option) \<Rightarrow> 'm fluence \<Rightarrow> string \<Rightarrow> (string, string) gomap
     \<Rightarrow> 'm fluence" where
  "cancelGroup do_cancel f k ann =
     (case (case parseJobIDs ann of
              Some jobids \<Rightarrow> Some jobids
            | None \<Rightarrow> map_option ga_jobids (fl_placement f k)) of
        None \<Rightarrow> f
      | Some jobids \<Rightarrow>
          f\<lparr>fl_matcher := cancelJobids do_cancel (fl_matcher f) jobids,
            fl_placement := (fl_placement f)(k := None),
            fl_excluded := (fl_excluded f)(k := None)\<rparr>)"

definition podTerminal :: "pod \<Rightarrow> bool" where
  "podTerminal p \<longleftrightarrow> p_phase p = ''Succeeded'' \<or> p_phase p = ''Failed''"

definition webhookGroupLabel :: string where
  "webhookGroupLabel = ''fluence.flux-framework.org/group''"

definition scoutGroupSuffix :: string where
  "scoutGroupSuffix = ''-scout''"

definition reconcileGraceForEmpty :: int where
  "reconcileGraceForEmpty = 120"

definition member_of :: "string \<Rightarrow> pod \<Rightarrow> bool" where
  "member_of g p \<longleftrightarrow> PodGroupName p = g \<or> nstr (p_labels p) webhookGroupLabel = g"

text \<open>
  \<open>reconcileGroup\<close>, with the time in seconds. The requests it sends are its only effect.
\<close>

definition may_reap :: "int \<Rightarrow> string \<Rightarrow> pod_group \<Rightarrow> pod list \<Rightarrow> bool" where
  "may_reap now g pg pods \<longleftrightarrow>
     (let members = filter (member_of g) pods
      in list_all podTerminal members \<and>
         (members \<noteq> [] \<or> parseJobIDs (pg_annotations pg) \<noteq> None
          \<or> \<not> now - pg_created pg < reconcileGraceForEmpty))"

definition reconcileGroup :: "api \<Rightarrow> int \<Rightarrow> string \<Rightarrow> string \<Rightarrow> request list" where
  "reconcileGroup w now namespace g =
     (if g = [] then []
      else case api_group w namespace g of
             Inl _ \<Rightarrow> []
           | Inr pg \<Rightarrow>
               if gstr (pg_annotations pg) CreatedByAnnotation \<noteq> CreatedByValue then []
               else case api_pods w namespace of
                      Inl _ \<Rightarrow> []
                    | Inr pods \<Rightarrow>
                        if \<not> may_reap now g pg pods then []
                        else let del = DeleteGroup namespace g
                             in if api_write w del \<noteq> None then [del]
                                else if has_suffix g scoutGroupSuffix then [del]
                                else [del, DeleteGroup namespace (g @ scoutGroupSuffix)])"

definition reconcileAll :: "api \<Rightarrow> int \<Rightarrow> request list" where
  "reconcileAll w now =
     (case api_groups w of
        Inl _ \<Rightarrow> []
      | Inr pgs \<Rightarrow>
          concat (map (\<lambda>pg. reconcileGroup w now (pg_namespace pg) (pg_name pg))
            (filter (\<lambda>pg. gstr (pg_annotations pg) CreatedByAnnotation = CreatedByValue) pgs)))"

text \<open>
  What an informer hands to a delete handler: the object, a tombstone with the last known
  object, or something else.
\<close>

datatype 'a deleted = Deleted 'a | Tombstone 'a | Unknown

fun last_known :: "'a deleted \<Rightarrow> 'a option" where
  "last_known (Deleted x) = Some x"
| "last_known (Tombstone x) = Some x"
| "last_known Unknown = None"

definition onPodUpdated ::
    "('m \<Rightarrow> uint64 \<Rightarrow> 'm \<times> string option) \<Rightarrow> api \<Rightarrow> int \<Rightarrow> 'm fluence \<Rightarrow> pod \<Rightarrow> pod
     \<Rightarrow> 'm fluence \<times> request list" where
  "onPodUpdated do_cancel w now f oldPod newPod =
     (if podTerminal oldPod \<or> \<not> podTerminal newPod then (f, [])
      else if PodGroupName newPod = [] then
        (cancelGroup do_cancel f (p_namespace newPod @ ''/'' @ p_name newPod)
           (pod_annotations newPod), [])
      else (f, reconcileGroup w now (p_namespace newPod) (PodGroupName newPod)))"

definition onPodGroupDeleted ::
    "('m \<Rightarrow> uint64 \<Rightarrow> 'm \<times> string option) \<Rightarrow> 'm fluence \<Rightarrow> pod_group deleted \<Rightarrow> 'm fluence" where
  "onPodGroupDeleted do_cancel f obj =
     (case last_known obj of
        None \<Rightarrow> f
      | Some pg \<Rightarrow> cancelGroup do_cancel f (pg_namespace pg @ ''/'' @ pg_name pg) (pg_annotations pg))"

definition onPodDeleted ::
    "('m \<Rightarrow> uint64 \<Rightarrow> 'm \<times> string option) \<Rightarrow> api \<Rightarrow> int \<Rightarrow> 'm fluence \<Rightarrow> pod deleted
     \<Rightarrow> 'm fluence \<times> request list" where
  "onPodDeleted do_cancel w now f obj =
     (case last_known obj of
        None \<Rightarrow> (f, [])
      | Some p \<Rightarrow>
          if PodGroupName p \<noteq> [] then (f, reconcileGroup w now (p_namespace p) (PodGroupName p))
          else (cancelGroup do_cancel f (p_namespace p @ ''/'' @ p_name p) (pod_annotations p), []))"

text \<open>
  \<open>registerCancelHandlers\<close>: what the informers report, and the handler each report is given to;
  the others have none.
\<close>

datatype notice =
    GroupAdded pod_group
  | GroupUpdated pod_group pod_group
  | GroupDeleted "pod_group deleted"
  | PodAdded pod
  | PodUpdated pod pod
  | PodDeleted "pod deleted"

fun handle_notice ::
    "('m \<Rightarrow> uint64 \<Rightarrow> 'm \<times> string option) \<Rightarrow> api \<Rightarrow> int \<Rightarrow> 'm fluence \<Rightarrow> notice
     \<Rightarrow> 'm fluence \<times> request list" where
  "handle_notice do_cancel w now f (GroupDeleted obj) = (onPodGroupDeleted do_cancel f obj, [])"
| "handle_notice do_cancel w now f (PodUpdated old new) = onPodUpdated do_cancel w now f old new"
| "handle_notice do_cancel w now f (PodDeleted obj) = onPodDeleted do_cancel w now f obj"
| "handle_notice do_cancel w now f _ = (f, [])"

definition reconcileInterval :: int where
  "reconcileInterval = 60"

text \<open>
  \<open>runReconcileSweeps\<close>: nothing when the context ends before the caches have synced; otherwise a
  sweep at once and one per tick until the context ends. \<open>view\<close> is what the caches and the API
  hold at a time, \<open>ticks\<close> how many ticks come before the end; a sweep sends its requests at the
  time it starts.
\<close>

definition runReconcileSweeps :: "bool \<Rightarrow> (int \<Rightarrow> api) \<Rightarrow> int \<Rightarrow> nat \<Rightarrow> (int \<times> request list) list" where
  "runReconcileSweeps synced view start ticks =
     (if \<not> synced then []
      else map (\<lambda>k. let t = start + int k * reconcileInterval in (t, reconcileAll (view t) t))
        [0 ..< Suc ticks])"

end
