(* ===== verification/Cluster_Config.thy ===== *)
theory Cluster_Config
  imports Cluster
begin

text \<open>
  The resources configuration: what a loaded configuration guarantees (types, attribute
  inheritance, backend identity), which configurations are refused, and how the properties
  of a virtual vertex select it and are read back.
\<close>

section \<open>Trees\<close>

fun subtree :: "cresource \<Rightarrow> cresource list" where
  "subtree (CResource ty nm cnt par attrs ws res bk) =
     CResource ty nm cnt par attrs ws res bk # concat (map subtree ws)"

definition forest :: "cresource list \<Rightarrow> cresource list" where
  "forest rs = concat (map subtree rs)"

lemma subtree_self: "r \<in> set (subtree r)"
  by (cases r) simp

lemma subtree_eq: "subtree r = r # forest (cr_with r)"
  by (cases r) (simp add: forest_def)

lemma forest_simps [simp]: "forest [] = []" "forest (r # rs) = subtree r @ forest rs"
  by (simp_all add: forest_def)

section \<open>Merging attributes\<close>

definition registry_ok :: "(string, (string, string) gomap) gomap \<Rightarrow> bool" where
  "registry_ok reg \<longleftrightarrow> (\<forall>k m. map_of reg k = Some m \<longrightarrow> gomap_ok m)"

definition overridden ::
    "(string \<Rightarrow> string option) \<Rightarrow> (string \<Rightarrow> string option) \<Rightarrow> string \<Rightarrow> string option" where
  "overridden inherited own k =
     (case own k of None \<Rightarrow> inherited k | Some v \<Rightarrow> if v = [] then None else Some v)"

lemma map_of_own_fold:
  "gomap_ok own \<Longrightarrow> map_of (foldl own_step m own) k = overridden (map_of m) (map_of own) k"
proof (induction own arbitrary: m)
  case Nil
  then show ?case by (simp add: overridden_def)
next
  case (Cons kv own)
  obtain k' v where kv: "kv = (k', v)" by force
  have ok: "gomap_ok own" and fresh: "map_of own k' = None"
    using Cons.prems by (auto simp: gomap_ok_def kv map_of_eq_None_iff)
  show ?case
    using Cons.IH [OF ok, of "own_step m kv"] fresh
    by (auto simp: kv own_step_def overridden_def split: option.splits)
qed

lemma gomap_ok_own_fold: "gomap_ok m \<Longrightarrow> gomap_ok (foldl own_step m own)"
  by (induction own arbitrary: m) (auto simp: own_step_def split: prod.splits)

lemma gomap_ok_merge: "gomap_ok (merge_attrs inherited own)"
  by (simp add: merge_attrs_def gomap_ok_own_fold gomap_ok_gcopy)

lemma map_of_merge:
  "gomap_ok inherited \<Longrightarrow> gomap_ok own \<Longrightarrow>
   map_of (merge_attrs inherited own) k = overridden (map_of inherited) (map_of own) k"
  by (simp add: merge_attrs_def map_of_own_fold map_of_gcopy_empty)

text \<open>A decoded resource has well-formed inline maps.\<close>

definition inline_ok :: "cresource \<Rightarrow> bool" where
  "inline_ok r \<longleftrightarrow> gomap_ok (as_inline (cr_attributes r))"

lemma own_attrs_ok: "own_attrs r reg = Inr own \<Longrightarrow> gomap_ok own"
  by (auto simp: own_attrs_def resolveAttributes_def gomap_ok_gcopy
      split: if_splits option.splits)

text \<open>\<open>own_attrs\<close> fails only on a reference that the registry does not hold.\<close>

definition dangling :: "(string, (string, string) gomap) gomap \<Rightarrow> cresource \<Rightarrow> bool" where
  "dangling reg r \<longleftrightarrow> as_ref (cr_attributes r) \<noteq> [] \<and> map_of reg (as_ref (cr_attributes r)) = None"

lemma own_attrs_err: "is_err (own_attrs r reg) \<longleftrightarrow> dangling reg r"
  by (auto simp: own_attrs_def resolveAttributes_def dangling_def attrs_empty_def
      split: option.splits)

section \<open>Resolution\<close>

text \<open>
  What resolution establishes at a vertex, given what it inherits and its backend identity:
  the recursive specification of a resolved tree.
\<close>

fun resolved_tree ::
    "(string, (string, string) gomap) gomap \<Rightarrow> (string \<Rightarrow> string option) \<Rightarrow> string \<Rightarrow> cresource \<Rightarrow> bool" where
  "resolved_tree reg inh bk (CResource ty nm cnt par attrs ws res bk') \<longleftrightarrow>
     ty \<noteq> [] \<and> bk' = bk \<and> gomap_ok res \<and>
     (\<exists>own. own_attrs (CResource ty nm cnt par attrs ws res bk') reg = Inr own \<and>
        map_of res = overridden inh (map_of own)) \<and>
     list_all (resolved_tree reg (map_of res) bk) ws"

definition backend_of :: "bool \<Rightarrow> cresource \<Rightarrow> string" where
  "backend_of topLevel r = (if topLevel \<and> cr_name r \<noteq> [] then cr_name r else cr_backend r)"

lemma own_attrs_cong:
  "cr_attributes r = cr_attributes s \<Longrightarrow> cr_type r = cr_type s \<Longrightarrow> own_attrs r reg = own_attrs s reg"
  by (simp add: own_attrs_def)

lemma resolve_resolved_tree:
  "gomap_ok inh \<Longrightarrow> resolveResourceInherited reg atTop inh r = Inr r' \<Longrightarrow>
     resolved_tree reg (map_of inh) (backend_of atTop r) r'"
  "gomap_ok inh \<Longrightarrow> resolveChildren reg inh bk ws = Inr ws' \<Longrightarrow>
     list_all (resolved_tree reg (map_of inh) bk) ws'"
proof (induction reg atTop inh r and reg inh bk ws arbitrary: r' and ws'
    rule: resolveResourceInherited_resolveChildren.induct)
  case (1 reg atTop inh ty nm cnt par attrs ws res bk)
  let ?r = "CResource ty nm cnt par attrs ws res bk"
  let ?bk = "if atTop \<and> nm \<noteq> [] then nm else bk"
  from "1.prems" obtain own ws'' where ty: "ty \<noteq> []"
    and own: "own_attrs ?r reg = Inr own"
    and ws: "resolveChildren reg (merge_attrs inh own) ?bk ws = Inr ws''"
    and r': "r' = CResource ty nm cnt (if atTop \<and> par = [] then DefaultParent else par) attrs ws''
        (merge_attrs inh own) ?bk"
    by (auto simp: Let_def split: if_splits sum.splits)
  have "list_all (resolved_tree reg (map_of (merge_attrs inh own)) ?bk) ws''"
    by (rule "1.IH" [OF ty refl own refl refl gomap_ok_merge ws])
  moreover have "map_of (merge_attrs inh own) = overridden (map_of inh) (map_of own)"
    using "1.prems"(1) own_attrs_ok [OF own] by (simp add: fun_eq_iff map_of_merge)
  moreover have "own_attrs r' reg = Inr own"
    using own by (simp add: r' own_attrs_def split: if_splits)
  ultimately show ?case
    using ty by (auto simp: r' backend_of_def gomap_ok_merge)
next
  case (2 reg merged bk)
  then show ?case by simp
next
  case (3 reg merged bk ty nm cnt par attrs ws res bk0 rs)
  then show ?case by (auto simp: backend_of_def split: sum.splits)
qed

lemma resolve_error_iff:
  "is_err (resolveResourceInherited reg atTop inh r) \<longleftrightarrow>
     (\<exists>n \<in> set (subtree r). cr_type n = [] \<or> dangling reg n)"
  "is_err (resolveChildren reg inh bk ws) \<longleftrightarrow>
     (\<exists>n \<in> set (forest ws). cr_type n = [] \<or> dangling reg n)"
proof (induction reg atTop inh r and reg inh bk ws
    rule: resolveResourceInherited_resolveChildren.induct)
  case (1 reg atTop inh ty nm cnt par attrs ws res bk)
  let ?r = "CResource ty nm cnt par attrs ws res bk"
  show ?case
  proof (cases "ty = []")
    case True
    then show ?thesis by simp
  next
    case ty: False
    show ?thesis
    proof (cases "own_attrs ?r reg")
      case (Inl e)
      then have "dangling reg ?r" using own_attrs_err [of ?r reg] by simp
      then show ?thesis using ty Inl by simp
    next
      case (Inr own)
      then have nd: "\<not> dangling reg ?r" using own_attrs_err [of ?r reg] by simp
      from "1.IH" [OF ty refl Inr refl refl] nd ty Inr show ?thesis
        by (auto simp: Let_def forest_def split: sum.splits)
    qed
  qed
next
  case (2 reg merged bk)
  then show ?case by simp
next
  case (3 reg merged bk ty nm cnt par attrs ws res bk0 rs)
  have same: "(\<exists>n \<in> set (subtree (CResource ty nm cnt par attrs ws res bk)). cr_type n = [] \<or> dangling reg n)
      \<longleftrightarrow> (\<exists>n \<in> set (subtree (CResource ty nm cnt par attrs ws res bk0)). cr_type n = [] \<or> dangling reg n)"
    by (simp add: dangling_def)
  show ?case
    using "3.IH" same
    by (cases "resolveResourceInherited reg False merged (CResource ty nm cnt par attrs ws res bk)")
      (auto split: sum.splits)
qed

text \<open>Consequences of a resolved tree at every vertex of it.\<close>

lemma resolved_tree_subtree:
  "resolved_tree reg inh bk r \<Longrightarrow> n \<in> set (subtree r) \<Longrightarrow>
     \<exists>inh'. resolved_tree reg inh' bk n \<and>
       (n = r \<and> inh' = inh \<or> (\<exists>p \<in> set (subtree r). n \<in> set (cr_with p) \<and> inh' = map_of (cr_resolved p)))"
proof (induction reg inh bk r rule: resolved_tree.induct)
  case (1 reg inh bk ty nm cnt par attrs ws res bk')
  let ?r = "CResource ty nm cnt par attrs ws res bk'"
  show ?case
  proof (cases "n = ?r")
    case True
    with "1.prems" show ?thesis by blast
  next
    case False
    with "1.prems"(2) obtain w where w: "w \<in> set ws" "n \<in> set (subtree w)" by auto
    from "1.prems"(1) w(1) have tree: "resolved_tree reg (map_of res) bk w"
      by (simp add: list_all_iff)
    from "1.IH" [OF w(1) tree w(2)] w(1) show ?thesis by force
  qed
qed

lemma resolved_tree_self:
  "resolved_tree reg inh bk n \<Longrightarrow> cr_type n \<noteq> [] \<and> cr_backend n = bk \<and> gomap_ok (cr_resolved n) \<and>
     (\<exists>own. own_attrs n reg = Inr own \<and> map_of (cr_resolved n) = overridden inh (map_of own)) \<and>
     (\<forall>c \<in> set (cr_with n). resolved_tree reg (map_of (cr_resolved n)) bk c)"
  by (cases n) (auto simp: list_all_iff)

lemma resolved_tree_values:
  "resolved_tree reg inh bk r \<Longrightarrow> (\<forall>k. inh k \<noteq> Some []) \<Longrightarrow> n \<in> set (subtree r) \<Longrightarrow>
     map_of (cr_resolved n) k \<noteq> Some []"
proof (induction reg inh bk r arbitrary: k rule: resolved_tree.induct)
  case (1 reg inh bk ty nm cnt par attrs ws res bk')
  have here: "map_of res k \<noteq> Some []" for k
    using "1.prems"(1,2) by (auto simp: overridden_def split: option.splits if_splits)
  show ?case
  proof (cases "n = CResource ty nm cnt par attrs ws res bk'")
    case True
    with here show ?thesis by simp
  next
    case False
    with "1.prems"(3) obtain w where w: "w \<in> set ws" "n \<in> set (subtree w)" by auto
    with "1.prems"(1) have "resolved_tree reg (map_of res) bk w" by (simp add: list_all_iff)
    from "1.IH" [OF w(1) this] here w(2) show ?thesis by blast
  qed
qed

lemma resolve_list_err:
  "is_err (resolve_list reg rs) \<longleftrightarrow> (\<exists>n \<in> set (forest rs). cr_type n = [] \<or> dangling reg n)"
proof (induction rs)
  case Nil
  then show ?case by simp
next
  case (Cons r rs)
  then show ?case
    using resolve_error_iff(1) [of reg True "[]" r]
    by (cases "resolveResourceInherited reg True [] r")
      (auto simp: resolveResource_def split: sum.splits)
qed

lemma resolve_list_trees:
  "resolve_list reg rs = Inr rs' \<Longrightarrow>
     list_all2 (\<lambda>r r'. resolved_tree reg Map.empty (backend_of True r) r') rs rs'"
proof (induction rs arbitrary: rs')
  case Nil
  then show ?case by simp
next
  case (Cons r rs)
  then show ?case
    using resolve_resolved_tree(1) [of "[]" reg True r]
    by (auto simp: resolveResource_def split: sum.splits)
qed

section \<open>Loaded configurations\<close>

text \<open>
  C34: \<open>LoadResourcesConfig\<close> accepts exactly the configurations that decode, that do not have
  content without a resource, and in which every resource at every depth has a type and refers
  to no attribute set the registry lacks.
\<close>
theorem LoadResourcesConfig_accepts:
  "\<not> is_err (LoadResourcesConfig um input) \<longleftrightarrow>
     (\<exists>c. um input = Inr c \<and> \<not> (rc_resources c = [] \<and> hasContent input) \<and>
        \<not> (\<exists>n \<in> set (forest (rc_resources c)). cr_type n = [] \<or> dangling (rc_attributes c) n))"
proof (cases "um input")
  case (Inl e)
  then show ?thesis by (simp add: LoadResourcesConfig_def)
next
  case (Inr c)
  show ?thesis
    using resolve_list_err [of "rc_attributes c" "rc_resources c"]
    by (cases "resolve_list (rc_attributes c) (rc_resources c)")
      (auto simp: LoadResourcesConfig_def Inr)
qed

lemma LoadResourcesConfig_tree:
  assumes "LoadResourcesConfig um input = Inr c" "n \<in> set (forest (rc_resources c))"
  obtains r bk where "r \<in> set (rc_resources c)" "n \<in> set (subtree r)"
    "resolved_tree (rc_attributes c) Map.empty bk r"
proof -
  from assms(1) obtain c0 rs where c0: "um input = Inr c0"
    and rs: "resolve_list (rc_attributes c0) (rc_resources c0) = Inr rs"
    and c: "c = c0\<lparr>rc_resources := rs\<rparr>"
    by (auto simp: LoadResourcesConfig_def split: sum.splits if_splits)
  from assms(2) obtain r where r: "r \<in> set rs" "n \<in> set (subtree r)"
    by (auto simp: c forest_def)
  from resolve_list_trees [OF rs] r(1)
  obtain r0 where "resolved_tree (rc_attributes c0) Map.empty (backend_of True r0) r"
    by (auto simp: list_all2_conv_all_nth in_set_conv_nth)
  with r show thesis by (intro that) (auto simp: c)
qed

text \<open>Resolution keeps what is declared, at every depth.\<close>

definition declared :: "cresource \<Rightarrow> (string \<times> string \<times> int \<times> attr_spec) list" where
  "declared r = map (\<lambda>n. (cr_type n, cr_name n, cr_count n, cr_attributes n)) (subtree r)"

lemma resolve_keeps:
  "resolveResourceInherited reg atTop inh r = Inr r' \<Longrightarrow> declared r' = declared r"
  "resolveChildren reg inh bk ws = Inr ws' \<Longrightarrow> concat (map declared ws') = concat (map declared ws)"
proof (induction reg atTop inh r and reg inh bk ws arbitrary: r' and ws'
    rule: resolveResourceInherited_resolveChildren.induct)
  case (1 reg atTop inh ty nm cnt par attrs ws res bk)
  from "1.prems" obtain own ws'' where ty: "ty \<noteq> []"
    and own: "own_attrs (CResource ty nm cnt par attrs ws res bk) reg = Inr own"
    and ws: "resolveChildren reg (merge_attrs inh own) (if atTop \<and> nm \<noteq> [] then nm else bk) ws = Inr ws''"
    and r': "r' = CResource ty nm cnt (if atTop \<and> par = [] then DefaultParent else par) attrs ws''
        (merge_attrs inh own) (if atTop \<and> nm \<noteq> [] then nm else bk)"
    by (auto simp: Let_def split: if_splits sum.splits)
  have "concat (map declared ws'') = concat (map declared ws)" by (rule "1.IH" [OF ty refl own refl refl ws])
  then show ?case by (simp add: r' declared_def [abs_def] map_concat comp_def)
next
  case (3 reg merged bk ty nm cnt par attrs ws res bk0 rs)
  then have "declared (CResource ty nm cnt par attrs ws res bk0) = declared (CResource ty nm cnt par attrs ws res bk)"
    by (simp add: declared_def)
  with 3 show ?case by (auto split: sum.splits)
qed simp

lemma declared_top:
  assumes "declared r' = declared r"
  shows "cr_type r' = cr_type r" "cr_name r' = cr_name r" "cr_attributes r' = cr_attributes r"
  using assms by (simp_all add: declared_def subtree_eq)

lemma resolve_list_keeps:
  "resolve_list reg rs = Inr rs' \<Longrightarrow> list_all2 (\<lambda>r r'. declared r' = declared r) rs rs'"
  by (induction rs arbitrary: rs') (auto simp: resolveResource_def resolve_keeps(1) split: sum.splits)

lemma resolved_tree_everywhere:
  assumes "resolved_tree reg Map.empty bk r" "n \<in> set (subtree r)"
  shows "cr_type n \<noteq> [] \<and> cr_backend n = bk \<and> (\<forall>k. map_of (cr_resolved n) k \<noteq> Some []) \<and>
    (\<forall>w \<in> set (cr_with n). \<exists>own. own_attrs w reg = Inr own \<and>
       map_of (cr_resolved w) = overridden (map_of (cr_resolved n)) (map_of own))"
proof -
  from resolved_tree_subtree [OF assms] obtain inh where n: "resolved_tree reg inh bk n" by blast
  note self = resolved_tree_self [OF n]
  have "\<exists>own. own_attrs w reg = Inr own \<and> map_of (cr_resolved w) = overridden (map_of (cr_resolved n)) (map_of own)"
    if "w \<in> set (cr_with n)" for w
    using self that resolved_tree_self [of reg "map_of (cr_resolved n)" bk w] by blast
  moreover have "\<forall>k. map_of (cr_resolved n) k \<noteq> Some []"
    using resolved_tree_values [OF assms(1) _ assms(2)] by simp
  ultimately show ?thesis using self by blast
qed

text \<open>
  C21: a loaded configuration has, in their order, the resources that were declared, with what
  they were declared to be at every depth. The attributes of a top-level resource are its own: its
  inline ones over those of the set it refers to. Every resource has a type and no empty attribute
  value; a child has every attribute of its parent unless it sets that key itself. At every depth
  the backend is the one of the top-level device: its name, when it has one.
\<close>
theorem loaded_config_inherits:
  assumes "LoadResourcesConfig um input = Inr c"
  shows "\<exists>c0. um input = Inr c0 \<and> rc_attributes c = rc_attributes c0 \<and>
    list_all2 (\<lambda>r0 r. declared r = declared r0 \<and>
      (\<exists>own. own_attrs r0 (rc_attributes c) = Inr own \<and> map_of (cr_resolved r) = overridden Map.empty (map_of own)) \<and>
      (\<forall>n \<in> set (subtree r). cr_type n \<noteq> [] \<and>
         cr_backend n = (if cr_name r0 \<noteq> [] then cr_name r0 else cr_backend r0) \<and>
         (\<forall>k. map_of (cr_resolved n) k \<noteq> Some []) \<and>
         (\<forall>w \<in> set (cr_with n). \<exists>own. own_attrs w (rc_attributes c) = Inr own \<and>
            map_of (cr_resolved w) = overridden (map_of (cr_resolved n)) (map_of own))))
      (rc_resources c0) (rc_resources c)"
proof -
  from assms obtain c0 rs where c0: "um input = Inr c0"
    and rs: "resolve_list (rc_attributes c0) (rc_resources c0) = Inr rs"
    and c: "c = c0\<lparr>rc_resources := rs\<rparr>"
    by (auto simp: LoadResourcesConfig_def split: sum.splits if_splits)
  let ?reg = "rc_attributes c0"
  have both: "list_all2 (\<lambda>r0 r. declared r = declared r0 \<and>
      resolved_tree ?reg Map.empty (if cr_name r0 \<noteq> [] then cr_name r0 else cr_backend r0) r) (rc_resources c0) rs"
    using resolve_list_keeps [OF rs] resolve_list_trees [OF rs]
    by (simp add: list_all2_conv_all_nth backend_of_def)
  have "\<exists>own. own_attrs r0 ?reg = Inr own \<and> map_of (cr_resolved r) = overridden Map.empty (map_of own)"
    if "declared r = declared r0" "resolved_tree ?reg Map.empty bk r" for r0 r bk
    using resolved_tree_self [OF that(2)] own_attrs_cong [of r r0 ?reg] declared_top [OF that(1)] by auto
  with resolved_tree_everywhere [where reg = ?reg] show ?thesis
    unfolding c using c0 by (intro exI [of _ c0]) (simp, rule list_all2_mono [OF both], blast)
qed

definition sample_config :: resources_config where
  "sample_config =
     \<lparr>rc_resources =
        [CResource ''qdevice'' ''rigetti'' 0 [] \<lparr>as_ref = ''east'', as_inline = []\<rparr>
          [CResource ''qpu'' [] 1 [] \<lparr>as_ref = [], as_inline = [(''qubits'', ''80'')]\<rparr> [] [] []] [] []],
      rc_attributes = [(''east'', [(''region'', ''us-east-1'')])]\<rparr>"

definition sample_loaded :: resources_config where
  "sample_loaded =
     \<lparr>rc_resources =
        [CResource ''qdevice'' ''rigetti'' 0 ''cluster'' \<lparr>as_ref = ''east'', as_inline = []\<rparr>
          [CResource ''qpu'' [] 1 [] \<lparr>as_ref = [], as_inline = [(''qubits'', ''80'')]\<rparr> []
             [(''region'', ''us-east-1''), (''qubits'', ''80'')] ''rigetti'']
          [(''region'', ''us-east-1'')] ''rigetti''],
      rc_attributes = [(''east'', [(''region'', ''us-east-1'')])]\<rparr>"

lemma sample_loads: "LoadResourcesConfig (\<lambda>_. Inr sample_config) ''x'' = Inr sample_loaded"
  by code_simp

lemma list_all2_hd: "list_all2 P xs ys \<Longrightarrow> xs \<noteq> [] \<Longrightarrow> P (hd xs) (hd ys)"
  by (cases xs; cases ys) simp_all

theorem loaded_config_inherits_witness:
  "\<exists>r w. rc_resources sample_loaded = [r] \<and> cr_with r = [w] \<and> declared r = declared (hd (rc_resources sample_config)) \<and>
     cr_backend r = ''rigetti'' \<and> cr_backend w = ''rigetti'' \<and>
     map_of (cr_resolved r) ''region'' = Some ''us-east-1'' \<and> map_of (cr_resolved w) ''region'' = Some ''us-east-1'' \<and>
     map_of (cr_resolved w) ''qubits'' = Some ''80''"
proof -
  let ?d = "hd (rc_resources sample_config)" let ?r = "hd (rc_resources sample_loaded)" let ?w = "hd (cr_with ?r)"
  have rs: "rc_resources sample_config = [?d]" "rc_resources sample_loaded = [?r]" "cr_with ?r = [?w]"
    and n: "?r \<in> set (subtree ?r)" "?w \<in> set (subtree ?r)" "cr_name ?d = ''rigetti''"
    by (simp_all add: sample_config_def sample_loaded_def)
  have attrs: "own_attrs ?d (rc_attributes sample_loaded) = Inr [(''region'', ''us-east-1'')]"
    "own_attrs ?w (rc_attributes sample_loaded) = Inr [(''qubits'', ''80'')]"
    by code_simp+
  obtain c0 where c0: "Inr sample_config = (Inr c0 :: string + resources_config)"
    and all: "list_all2 (\<lambda>r0 r. declared r = declared r0 \<and>
      (\<exists>own. own_attrs r0 (rc_attributes sample_loaded) = Inr own \<and> map_of (cr_resolved r) = overridden Map.empty (map_of own)) \<and>
      (\<forall>n \<in> set (subtree r). cr_type n \<noteq> [] \<and>
         cr_backend n = (if cr_name r0 \<noteq> [] then cr_name r0 else cr_backend r0) \<and>
         (\<forall>k. map_of (cr_resolved n) k \<noteq> Some []) \<and>
         (\<forall>w \<in> set (cr_with n). \<exists>own. own_attrs w (rc_attributes sample_loaded) = Inr own \<and>
            map_of (cr_resolved w) = overridden (map_of (cr_resolved n)) (map_of own))))
      (rc_resources c0) (rc_resources sample_loaded)"
    using loaded_config_inherits [OF sample_loads] by blast
  have "rc_resources sample_config \<noteq> []" by (simp add: sample_config_def)
  with list_all2_hd [OF all] c0 have top: "declared ?r = declared ?d"
    "\<exists>own. own_attrs ?d (rc_attributes sample_loaded) = Inr own \<and> map_of (cr_resolved ?r) = overridden Map.empty (map_of own)"
    and every: "\<forall>n \<in> set (subtree ?r). cr_backend n = (if cr_name ?d \<noteq> [] then cr_name ?d else cr_backend ?d) \<and>
      (\<forall>w \<in> set (cr_with n). \<exists>own. own_attrs w (rc_attributes sample_loaded) = Inr own \<and>
         map_of (cr_resolved w) = overridden (map_of (cr_resolved n)) (map_of own))"
    by blast+
  from top(2) have r: "map_of (cr_resolved ?r) = overridden Map.empty (map_of [(''region'', ''us-east-1'')])"
    unfolding attrs(1) by simp
  have "?w \<in> set (cr_with ?r)" by (simp add: sample_loaded_def)
  with bspec [OF every n(1)] have w: "map_of (cr_resolved ?w) = overridden (map_of (cr_resolved ?r)) (map_of [(''qubits'', ''80'')])"
    using attrs(2) by auto
  have "cr_backend ?r = ''rigetti''" "cr_backend ?w = ''rigetti''"
    using bspec [OF every n(1)] bspec [OF every n(2)] n(3) by simp_all
  with rs(2,3) top(1) r w show ?thesis by (intro exI [of _ ?r] exI [of _ ?w]) (simp add: overridden_def)
qed

section \<open>Classes and properties of a virtual vertex\<close>

lemma set_add_type [simp]: "set (add_type ts t) = insert t (set ts)"
  by (auto simp: add_type_def)

lemma distinct_add_type: "distinct ts \<Longrightarrow> distinct (add_type ts t)"
  by (auto simp: add_type_def)

lemma set_walk_types:
  "set (walk_types ts r) = set ts \<union> cr_type ` set (subtree r)"
  "set (walk_types_list ts rs) = set ts \<union> cr_type ` set (forest rs)"
  by (induction ts r and ts rs rule: walk_types_walk_types_list.induct) (auto simp: forest_def)

lemma distinct_walk_types:
  "distinct ts \<Longrightarrow> distinct (walk_types ts r)"
  "distinct ts \<Longrightarrow> distinct (walk_types_list ts rs)"
  by (induction ts r and ts rs rule: walk_types_walk_types_list.induct) (auto simp: distinct_add_type)

lemma keys_foldl_gput:
  "fst ` set (foldl (\<lambda>m x. gput m (f x) []) m xs) = f ` set xs \<union> fst ` set m"
  by (induction xs arbitrary: m) (auto simp del: image_insert)

lemma virtualProperties_keys:
  "fst ` set (virtualProperties r) =
     insert VirtualPropertyTrue
      ((\<lambda>t. ComposeProperty ClassProperty t) ` cr_type ` set (subtree r) \<union>
       (\<lambda>(k, v). ComposeProperty (FluxionResourcePrefix @ k) v) ` set (cr_resolved r) \<union>
       (if cr_backend r = [] then {}
        else {ComposeProperty (FluxionResourcePrefix @ ''backend'') (cr_backend r)}))"
proof -
  have true: "ComposeProperty VirtualProperty ''true'' = VirtualPropertyTrue"
    by (simp add: ComposeProperty_def VirtualProperty_def VirtualPropertyTrue_def)
  have fold: "(\<lambda>m (k, v). gput m (ComposeProperty (FluxionResourcePrefix @ k) v) ([] :: string))
      = (\<lambda>m kv. gput m ((\<lambda>(k, v). ComposeProperty (FluxionResourcePrefix @ k) v) kv) [])"
    by (auto simp: fun_eq_iff)
  show ?thesis
    by (auto simp: virtualProperties_def Let_def fold keys_foldl_gput set_walk_types
        subtreeClasses_def true simp del: image_insert)
qed

text \<open>The property keys a vertex is matched on.\<close>

definition property_keys :: "(string, string) gomap \<Rightarrow> string list" where
  "property_keys m = map fst m"

lemma set_property_keys: "set (property_keys m) = fst ` set m"
  by (simp add: property_keys_def)

lemma prefix_not_class [simp]:
  "FluxionResourcePrefix @ x \<noteq> ''class='' @ y" "FluxionResourcePrefix @ x \<noteq> ''class''"
  "VirtualPropertyTrue \<noteq> ''class='' @ y" "VirtualPropertyTrue \<noteq> FluxionResourcePrefix @ x"
  by (simp_all add: FluxionResourcePrefix_def VirtualPropertyTrue_def)

lemma class_key_iff:
  assumes "t \<noteq> []"
  shows "ComposeClassProperty t \<in> fst ` set (virtualProperties r) \<longleftrightarrow> t \<in> cr_type ` set (subtree r)"
proof -
  have cls: "ComposeClassProperty t = ComposeProperty ClassProperty u \<longleftrightarrow> t = u" for u
    using assms
    by (auto simp: ComposeClassProperty_def ClassPropertyPrefix_def ComposeProperty_def ClassProperty_def)
  have other: "ComposeClassProperty t \<noteq> ComposeProperty (FluxionResourcePrefix @ k) v" for k v
    by (auto simp: ComposeClassProperty_def ClassPropertyPrefix_def ComposeProperty_def
        FluxionResourcePrefix_def)
  have "ComposeClassProperty t \<noteq> VirtualPropertyTrue"
    by (simp add: ComposeClassProperty_def ClassPropertyPrefix_def VirtualPropertyTrue_def)
  with cls other show ?thesis
    by (auto simp: virtualProperties_keys image_iff)
qed

text \<open>
  A device jobspec without extra requirements is satisfied by a virtual vertex exactly
  when some resource in the vertex's subtree has the requested type. So no vertex on the way
  down to a resource of that type is pruned, and every subtree without one is.
\<close>
lemma class_constraint_reaches:
  assumes "t \<noteq> []"
  shows "holds h (property_keys (virtualProperties r)) (jobspec_constraint (deviceJobspec g t n []))
    \<longleftrightarrow> (\<exists>d \<in> set (subtree r). cr_type d = t)"
proof -
  have "VirtualPropertyTrue \<in> fst ` set (virtualProperties r)"
    by (simp add: virtualProperties_keys)
  moreover have "holds h (property_keys (virtualProperties r)) (jobspec_constraint (deviceJobspec g t n []))
      \<longleftrightarrow> set ([VirtualPropertyTrue, ComposeClassProperty t] @ []) \<subseteq> fst ` set (virtualProperties r)
        \<and> h \<notin> set []"
    unfolding set_property_keys [symmetric]
    by (rule holds_systemAttributes) (simp add: deviceJobspec_def)
  ultimately show ?thesis
    using class_key_iff [OF assms, of r] by (auto simp: image_iff)
qed

lemma class_constraint_reaches_example:
  "holds ''h'' (property_keys (virtualProperties (hd (rc_resources sample_loaded))))
     (jobspec_constraint (deviceJobspec ''g'' ''qpu'' 1 []))"
  using class_constraint_reaches [of "''qpu''" "''h''" "hd (rc_resources sample_loaded)" "''g''" 1]
  by (simp add: sample_loaded_def)

text \<open>
  An attribute that a nested resource sets itself does not reach it: the requirement
  holds at the nested vertex but not at its parent, so the matcher, which evaluates the
  constraint at every node vertex it descends through, prunes the parent. (The source's
  comment on attribute inheritance says every node on the path has the attribute.)
\<close>
lemma own_attribute_prunes_parent:
  "\<exists>p w. p \<in> set (rc_resources sample_loaded) \<and> w \<in> set (cr_with p) \<and>
     (let spec = deviceJobspec ''g'' ''qpu'' 1 [ComposeAttributeProperty ''qubits'' ''80''] in
        holds [] (property_keys (virtualProperties w)) (jobspec_constraint spec) \<and>
        \<not> holds [] (property_keys (virtualProperties p)) (jobspec_constraint spec))"
proof -
  let ?p = "hd (rc_resources sample_loaded)"
  let ?w = "hd (cr_with ?p)"
  let ?c = "jobspec_constraint (deviceJobspec ''g'' ''qpu'' 1 [ComposeAttributeProperty ''qubits'' ''80''])"
  have "holds [] (property_keys (virtualProperties ?w)) ?c" by code_simp
  moreover have "\<not> holds [] (property_keys (virtualProperties ?p)) ?c" by code_simp
  moreover have "?p \<in> set (rc_resources sample_loaded)" "?w \<in> set (cr_with ?p)"
    by (simp_all add: sample_loaded_def)
  ultimately show ?thesis unfolding Let_def by blast
qed

section \<open>Attributes are read back\<close>

definition decompose_prop :: "string \<times> string \<Rightarrow> string \<times> string" where
  "decompose_prop pv = decomposeProperty (trim_prefix (fst pv) FluxionResourcePrefix)"

definition fluxion_props :: "(string, string) gomap \<Rightarrow> (string, string) gomap" where
  "fluxion_props props = filter (\<lambda>pv. has_prefix (fst pv) FluxionResourcePrefix) props"

lemma foldl_attr_step:
  "foldl attr_step m props = gcopy m (map decompose_prop (fluxion_props props))"
  by (induction props arbitrary: m)
    (auto simp: attr_step_def fluxion_props_def decompose_prop_def gcopy_def split: prod.splits)

lemma gomap_ok_backendAttributes: "gomap_ok (backendAttributes props)"
proof -
  have "gomap_ok (foldl attr_step m props)" if "gomap_ok m" for m
    using that by (induction props arbitrary: m) (auto simp: attr_step_def split: prod.split)
  then show ?thesis by (simp add: backendAttributes_def)
qed

lemma backendAttributes_map:
  assumes "gomap_ok (map decompose_prop (fluxion_props props))"
  shows "map_of (backendAttributes props) k = Some v \<longleftrightarrow>
    (k, v) \<in> decompose_prop ` set (fluxion_props props)"
proof -
  have "map_of (backendAttributes props) k = map_of (map decompose_prop (fluxion_props props)) k"
    using assms by (simp add: backendAttributes_def foldl_attr_step map_of_gcopy_empty)
  then show ?thesis
    using assms by (simp add: gomap_ok_def map_of_eq_Some_iff)
qed

text \<open>Attributes that survive the encoding: no equals sign in a key, no empty value.\<close>

definition attrs_encodable :: "(string, string) gomap \<Rightarrow> bool" where
  "attrs_encodable m \<longleftrightarrow> gomap_ok m \<and> list_all (\<lambda>(k, v). CHR ''='' \<notin> set k \<and> v \<noteq> []) m"

definition surfaced :: "cresource \<Rightarrow> string \<Rightarrow> string option" where
  "surfaced r =
     (if cr_backend r = [] then map_of (cr_resolved r)
      else (map_of (cr_resolved r))(''backend'' \<mapsto> cr_backend r))"

lemma gomap_ok_foldl_gput: "gomap_ok m \<Longrightarrow> gomap_ok (foldl (\<lambda>m x. gput m (f x) v) m xs)"
  by (induction xs arbitrary: m) auto

lemma gomap_ok_virtualProperties: "gomap_ok (virtualProperties r)"
proof -
  have fold: "(\<lambda>m (k, v). gput m (ComposeProperty (FluxionResourcePrefix @ k) v) ([] :: string))
      = (\<lambda>m kv. gput m ((\<lambda>(k, v). ComposeProperty (FluxionResourcePrefix @ k) v) kv) [])"
    by (auto simp: fun_eq_iff)
  show ?thesis
    by (simp add: virtualProperties_def Let_def fold gomap_ok_foldl_gput)
qed

lemma decompose_composed:
  "CHR ''='' \<notin> set k \<Longrightarrow>
   decompose_prop (ComposeProperty (FluxionResourcePrefix @ k) v, x) = (k, v)"
  by (auto simp: decompose_prop_def ComposeProperty_def decomposeProperty_pair decomposeProperty_bare)

lemma has_prefix_iff: "has_prefix s p \<longleftrightarrow> (\<exists>r. s = p @ r)"
  by (auto elim: has_prefixE)

lemma fluxion_keys:
  "fst ` set (fluxion_props (virtualProperties r)) =
     (\<lambda>(k, v). ComposeProperty (FluxionResourcePrefix @ k) v) `
       (set (cr_resolved r) \<union> (if cr_backend r = [] then {} else {(''backend'', cr_backend r)}))"
proof -
  have pre: "has_prefix (ComposeProperty (FluxionResourcePrefix @ k) v) FluxionResourcePrefix" for k v
    by (auto simp: ComposeProperty_def has_prefix_iff)
  have cls: "\<not> has_prefix (ComposeProperty ClassProperty t) FluxionResourcePrefix" for t
    by (auto simp: has_prefix_iff ComposeProperty_def ClassProperty_def FluxionResourcePrefix_def)
  have vir: "\<not> has_prefix VirtualPropertyTrue FluxionResourcePrefix"
    by (simp add: has_prefix_def VirtualPropertyTrue_def FluxionResourcePrefix_def)
  have "fst ` set (fluxion_props (virtualProperties r)) =
      {p \<in> fst ` set (virtualProperties r). has_prefix p FluxionResourcePrefix}"
    by (auto simp: fluxion_props_def)
  also have "\<dots> = (\<lambda>(k, v). ComposeProperty (FluxionResourcePrefix @ k) v) `
       (set (cr_resolved r) \<union> (if cr_backend r = [] then {} else {(''backend'', cr_backend r)}))"
    unfolding virtualProperties_keys using pre cls vir by auto
  finally show ?thesis .
qed

text \<open>In whatever order the properties are iterated.\<close>

lemma backendAttributes_any_order:
  assumes enc: "attrs_encodable (cr_resolved r)" and free: "map_of (cr_resolved r) ''backend'' = None"
    and props: "gomap_ok props" "set props = set (virtualProperties r)"
  shows "map_of (backendAttributes props) = surfaced r"
proof -
  let ?S = "set (cr_resolved r) \<union> (if cr_backend r = [] then {} else {(''backend'', cr_backend r)})"
  let ?P = "fluxion_props props"
  have keys: "fst ` set ?P = (\<lambda>(k, v). ComposeProperty (FluxionResourcePrefix @ k) v) ` ?S"
    using props(2) by (simp add: fluxion_keys [symmetric] fluxion_props_def)
  have nodup: "distinct (map fst ?P)"
    using props(1) by (simp add: fluxion_props_def flip: gomap_ok_def)
  have clean: "CHR ''='' \<notin> set k" if "(k, v) \<in> ?S" for k v
    using that enc by (auto simp: attrs_encodable_def list_all_iff split: if_splits)
  have image: "decompose_prop ` set ?P = ?S"
  proof -
    have "decompose_prop ` set ?P = (\<lambda>p. decompose_prop (p, [])) ` fst ` set ?P"
      by (simp add: image_image decompose_prop_def)
    also have "\<dots> = (\<lambda>kv. kv) ` ?S"
      unfolding keys image_image
    proof (rule image_cong)
      fix kv assume kv: "kv \<in> ?S"
      obtain k v where eq: "kv = (k, v)" by force
      then show "decompose_prop (case kv of (k, v) \<Rightarrow> ComposeProperty (FluxionResourcePrefix @ k) v, []) = kv"
        using clean [of k v] kv by (simp add: decompose_composed)
    qed simp
    finally show ?thesis by simp
  qed
  have single: "v = v'" if "(k, v) \<in> ?S" "(k, v') \<in> ?S" for k v v'
    using that enc free
    by (auto simp: attrs_encodable_def gomap_ok_def map_of_eq_None_iff dest: eq_key_imp_eq_value
        split: if_splits intro: rev_image_eqI)
  have key: "fst x = ComposeProperty (FluxionResourcePrefix @ fst (decompose_prop x)) (snd (decompose_prop x))"
    if "x \<in> set ?P" for x
  proof -
    from that have "fst x \<in> fst ` set ?P" by simp
    then obtain k v where kv: "(k, v) \<in> ?S" "fst x = ComposeProperty (FluxionResourcePrefix @ k) v"
      unfolding keys by auto
    have "decompose_prop x = decompose_prop (fst x, [])" by (simp add: decompose_prop_def)
    with kv clean show ?thesis by (simp add: decompose_composed)
  qed
  have inj: "inj_on (fst \<circ> decompose_prop) (set ?P)"
  proof (rule inj_onI)
    fix x y assume xy: "x \<in> set ?P" "y \<in> set ?P" "(fst \<circ> decompose_prop) x = (fst \<circ> decompose_prop) y"
    have "decompose_prop x \<in> ?S" "decompose_prop y \<in> ?S" using image xy(1,2) by auto
    with xy(3) single have "decompose_prop x = decompose_prop y"
      by (metis comp_apply prod.collapse)
    then have "fst x = fst y" using key [OF xy(1)] key [OF xy(2)] by simp
    then show "x = y" using nodup xy(1,2) by (metis distinct_map inj_onD)
  qed
  have ok: "gomap_ok (map decompose_prop ?P)"
    using nodup inj by (simp add: gomap_ok_def distinct_map)
  show ?thesis
  proof
    fix k
    have "map_of (backendAttributes props) k = Some v \<longleftrightarrow> surfaced r k = Some v" for v
      unfolding backendAttributes_map [OF ok] image
      using enc free
      by (auto simp: surfaced_def attrs_encodable_def gomap_ok_def map_of_eq_Some_iff
          map_of_eq_None_iff split: if_splits intro: rev_image_eqI)
    then show "map_of (backendAttributes props) k = surfaced r k"
      by (metis not_None_eq)
  qed
qed

lemma backendAttributes_surfaced:
  assumes "attrs_encodable (cr_resolved r)" and "map_of (cr_resolved r) ''backend'' = None"
  shows "map_of (backendAttributes (virtualProperties r)) = surfaced r"
  using assms gomap_ok_virtualProperties by (rule backendAttributes_any_order) simp

text \<open>
  The attributes a pod reads back from the vertex it matched are exactly the resource's
  resolved attributes, plus the key \<open>backend\<close> with the device identity when the resource
  belongs to a named device: composing properties and decomposing them is a round trip. (The
  identity is meant as a match-only property; it does come back as an attribute.)
\<close>
lemma backendAttributes_roundtrip:
  assumes "attrs_encodable (cr_resolved r)" and "map_of (cr_resolved r) ''backend'' = None"
  shows "map_of (backendAttributes (virtualProperties r)) = surfaced r"
  using assms by (rule backendAttributes_surfaced)

lemma backendAttributes_roundtrip_example:
  "map_of (backendAttributes (virtualProperties (hd (rc_resources sample_loaded)))) =
     [''region'' \<mapsto> ''us-east-1'', ''backend'' \<mapsto> ''rigetti'']"
proof -
  let ?r = "hd (rc_resources sample_loaded)"
  have "attrs_encodable (cr_resolved ?r)" "map_of (cr_resolved ?r) ''backend'' = None"
    by (simp_all add: sample_loaded_def attrs_encodable_def gomap_ok_def)
  from backendAttributes_roundtrip [OF this] show ?thesis
    by (simp add: surfaced_def sample_loaded_def)
qed

end
