(* ===== verification/Cluster_Graph.thy ===== *)
theory Cluster_Graph
  imports Cluster_Config
begin

text \<open>
  The graph \<open>BuildGraph\<close> makes: it is a tree, its vertices are exactly the expected ones
  with contiguous ranks, its memory is never over-promised, and compute and device jobspecs
  select disjoint parts of it.
\<close>

section \<open>What each step adds\<close>

text \<open>The options of each call site, read field by field.\<close>

lemma no_options_simps [simp]:
  "o_size no_options = 0" "o_rank no_options = None" "o_node_props no_options = []"
  by (simp_all add: no_options_def)

lemma resource_options_simps [simp]:
  "o_size (resource_options r k) = (if cr_count r = 0 then 1 else cr_count r)"
  "o_rank (resource_options r k) = Some k"
  "o_node_props (resource_options r k) = virtualProperties r"
  by (simp_all add: resource_options_def)

definition false_marker :: "(string, string) gomap" where
  "false_marker = [(VirtualPropertyFalse, [])]"

lemma node_options_simps [simp]:
  "o_size (node_options n k) = 0"
  "o_rank (node_options n k) = Some k"
  "o_node_props (node_options n k) = false_marker"
  by (simp_all add: node_options_def false_marker_def ComposeProperty_def VirtualProperty_def
      VirtualPropertyFalse_def)

text \<open>What matching looks at in a vertex: type, size, rank and RFC 31 properties.\<close>

definition shape :: "vertex \<Rightarrow> string \<times> int \<times> int \<times> (string, string) gomap" where
  "shape v = (v_typ v, v_size v, v_rank v, v_node_props v)"

definition resource_shape :: "int \<Rightarrow> cresource \<Rightarrow> string \<times> int \<times> int \<times> (string, string) gomap" where
  "resource_shape r res =
     (''node'', if cr_count res = 0 then 1 else cr_count res, r, virtualProperties res)"

fun resource_shapes ::
    "int \<Rightarrow> cresource list \<Rightarrow> (string \<times> int \<times> int \<times> (string, string) gomap) list" where
  "resource_shapes r [] = []"
| "resource_shapes r (x # xs) = resource_shape r x # resource_shapes (r + 1) xs"

lemma resource_shapes_append:
  "resource_shapes r (xs @ ys) = resource_shapes r xs @ resource_shapes (r + int (length xs)) ys"
  by (induction xs arbitrary: r) (simp_all add: ac_simps)

text \<open>A builder step: the tree is kept and the given shapes are appended.\<close>

definition builder_grows ::
    "builder \<Rightarrow> builder \<Rightarrow> (string \<times> int \<times> int \<times> (string, string) gomap) list \<Rightarrow> bool" where
  "builder_grows b b' ss \<longleftrightarrow> tree_ok b' \<and> set (b_vertices b) \<subseteq> set (b_vertices b') \<and>
     map shape (b_vertices b') = map shape (b_vertices b) @ ss"

lemma builder_grows_refl: "tree_ok b \<Longrightarrow> builder_grows b b []"
  by (simp add: builder_grows_def)

lemma builder_grows_trans: "builder_grows b b' ss \<Longrightarrow> builder_grows b' b'' ss' \<Longrightarrow> builder_grows b b'' (ss @ ss')"
  by (auto simp: builder_grows_def)

lemma builder_grows_child:
  assumes "tree_ok b" "parent \<in> set (b_vertices b)"
  shows "builder_grows b (fst (AddChild b parent typ basename opts))
    [(typ, if o_size opts = 0 then 1 else o_size opts,
      case o_rank opts of None \<Rightarrow> -1 | Some r \<Rightarrow> r, o_node_props opts)]"
  using assms by (auto simp: builder_grows_def tree_ok_child shape_def)

lemma addResource_grows:
  "tree_ok b \<Longrightarrow> parent \<in> set (b_vertices b) \<Longrightarrow>
     builder_grows b (fst (addResource b parent r rank)) (resource_shapes rank (subtree r)) \<and>
     snd (addResource b parent r rank) = rank + int (length (subtree r))"
  "tree_ok b \<Longrightarrow> v \<in> set (b_vertices b) \<Longrightarrow>
     builder_grows b (fst (addChildren b v rs rank)) (resource_shapes rank (forest rs)) \<and>
     snd (addChildren b v rs rank) = rank + int (length (forest rs))"
proof (induction b parent r rank and b v rs rank rule: addResource_addChildren.induct)
  case (1 b parent ty nm cnt par attrs ws res bk rank)
  let ?r = "CResource ty nm cnt par attrs ws res bk"
  let ?opts = "resource_options ?r rank"
  let ?v = "new_vertex b (Some parent) ''node'' ty ?opts"
  let ?b = "fst (AddChild b parent ''node'' ty ?opts)"
  have add: "AddChild b parent ''node'' ty ?opts = (?b, ?v)"
    by (metis AddChild_vertices(2) prod.collapse)
  have first: "builder_grows b ?b [resource_shape rank ?r]"
    using builder_grows_child [OF "1.prems", of "''node''" ty ?opts]
    by (cases "cnt = 0") (simp_all add: resource_shape_def)
  then have "tree_ok ?b" and "?v \<in> set (b_vertices ?b)"
    by (simp_all add: builder_grows_def)
  from "1.IH" [OF add [symmetric] this]
  have "builder_grows ?b (fst (addChildren ?b ?v ws (rank + 1))) (resource_shapes (rank + 1) (forest ws))"
    and "snd (addChildren ?b ?v ws (rank + 1)) = rank + 1 + int (length (forest ws))"
    by auto
  moreover have "addResource b parent ?r rank = addChildren ?b ?v ws (rank + 1)"
    unfolding addResource.simps split_beta AddChild_vertices(2) by (rule refl)
  ultimately show ?case
    using builder_grows_trans [OF first] by (simp only: subtree_eq) simp
next
  case (2 b v rank)
  then show ?case by (simp add: builder_grows_refl)
next
  case (3 b v r rs rank)
  let ?b = "fst (addResource b v r rank)"
  let ?rank = "snd (addResource b v r rank)"
  have first: "builder_grows b ?b (resource_shapes rank (subtree r))"
    and rank: "?rank = rank + int (length (subtree r))"
    using "3.IH"(1) [OF "3.prems"] by auto
  then have "tree_ok ?b" "v \<in> set (b_vertices ?b)"
    using "3.prems"(2) by (auto simp: builder_grows_def)
  from "3.IH"(2) [OF prod.collapse this] builder_grows_trans [OF first]
  show ?case
    by (auto simp: split_beta rank resource_shapes_append)
qed

lemma add_copies_grows:
  "tree_ok b \<Longrightarrow> parent \<in> set (b_vertices b) \<Longrightarrow> o_rank opts = None \<Longrightarrow> o_node_props opts = [] \<Longrightarrow>
   builder_grows b (add_copies k b parent typ opts)
     (replicate k (typ, if o_size opts = 0 then 1 else o_size opts, -1, []))"
proof (induction k arbitrary: b)
  case 0
  then show ?case by (simp add: builder_grows_refl)
next
  case (Suc k)
  let ?b = "fst (AddChild b parent typ typ opts)"
  have first: "builder_grows b ?b [(typ, if o_size opts = 0 then 1 else o_size opts, -1, [])]"
    using builder_grows_child [OF Suc.prems(1,2), of "typ" "typ" opts] Suc.prems(3,4) by simp
  then have "builder_grows ?b (add_copies k ?b parent typ opts)
      (replicate k (typ, if o_size opts = 0 then 1 else o_size opts, -1, []))"
    using Suc.prems(2-4) by (intro Suc.IH) (auto simp: builder_grows_def)
  from builder_grows_trans [OF first this] show ?case by simp
qed

section \<open>Physical nodes\<close>

text \<open>One vertex per core and GPU, one memory chunk per core when the chunk is positive.\<close>

definition node_shapes ::
    "string \<Rightarrow> int \<Rightarrow> node \<Rightarrow> (string \<times> int \<times> int \<times> (string, string) gomap) list" where
  "node_shapes gpuName r n =
     (let cores = node_count n ''cpu''; chunk = memoryChunkMiB n cores in
        [(''node'', 1, r, false_marker)]
        @ replicate (nat cores) (''core'', 1, -1, [])
        @ (if chunk > 0 then replicate (nat cores) (''memory'', chunk, -1, []) else [])
        @ replicate (nat (node_count n gpuName)) (''gpu'', 1, -1, []))"

fun nodes_shapes ::
    "string \<Rightarrow> int \<Rightarrow> node list \<Rightarrow> (string \<times> int \<times> int \<times> (string, string) gomap) list" where
  "nodes_shapes gpuName r [] = []"
| "nodes_shapes gpuName r (n # ns) = node_shapes gpuName r n @ nodes_shapes gpuName (r + 1) ns"

definition included :: "graph_options \<Rightarrow> node list \<Rightarrow> node list" where
  "included opts nodes = filter (\<lambda>n. \<not> skip_node opts n) nodes"

definition parents_ok :: "builder \<Rightarrow> (string, vertex) gomap \<Rightarrow> bool" where
  "parents_ok b parents \<longleftrightarrow> snd ` set parents \<subseteq> set (b_vertices b)"

lemma parents_ok_lookup: "parents_ok b parents \<Longrightarrow> map_of parents p = Some v \<Longrightarrow> v \<in> set (b_vertices b)"
  by (force simp: parents_ok_def dest: map_of_SomeD)

lemma snd_gput_subset: "snd ` set (gput m k v) \<subseteq> insert v (snd ` set m)"
  unfolding gput_def by (induction m) auto

lemma parents_ok_gput:
  "parents_ok b parents \<Longrightarrow> set (b_vertices b) \<subseteq> set (b_vertices b') \<Longrightarrow> v \<in> set (b_vertices b') \<Longrightarrow>
   parents_ok b' (gput parents k v)"
  using snd_gput_subset [of parents k v] unfolding parents_ok_def by blast

lemma builder_grows_subset: "builder_grows b b' ss \<Longrightarrow> set (b_vertices b) \<subseteq> set (b_vertices b')"
  by (simp add: builder_grows_def)

lemma add_node_grows:
  assumes tree: "tree_ok b" and root: "root \<in> set (b_vertices b)" and ps: "parents_ok b parents"
  shows "\<exists>b' parents'. add_node gpuName root n (b, rank, parents) = (b', rank + 1, parents') \<and>
    builder_grows b b' (node_shapes gpuName rank n) \<and> parents_ok b' parents' \<and>
    dom (map_of parents') = insert (n_name n) (dom (map_of parents))"
proof -
  let ?cores = "node_count n ''cpu''"
  let ?chunk = "memoryChunkMiB n ?cores"
  let ?v = "new_vertex b (Some root) ''node'' ''node'' (node_options n rank)"
  let ?b1 = "fst (AddChild b root ''node'' ''node'' (node_options n rank))"
  let ?b2 = "add_copies (nat ?cores) ?b1 ?v ''core'' no_options"
  let ?mem = "no_options\<lparr>o_size := ?chunk, o_unit := ''MiB''\<rparr>"
  let ?b3 = "if ?chunk > 0 then add_copies (nat ?cores) ?b2 ?v ''memory'' ?mem else ?b2"
  let ?b4 = "add_copies (nat (node_count n gpuName)) ?b3 ?v ''gpu'' no_options"
  let ?parents = "gput parents (n_name n) ?v"
  have e1: "builder_grows b ?b1 [(''node'', 1, rank, false_marker)]"
    using builder_grows_child [OF tree root, of "''node''" "''node''" "node_options n rank"]
    by simp
  then have t1: "tree_ok ?b1" "?v \<in> set (b_vertices ?b1)" by (simp_all add: builder_grows_def)
  have e2: "builder_grows ?b1 ?b2 (replicate (nat ?cores) (''core'', 1, -1, []))"
    using add_copies_grows [OF t1, of no_options] by simp
  then have t2: "tree_ok ?b2" "?v \<in> set (b_vertices ?b2)" using t1 by (auto simp: builder_grows_def)
  have e3: "builder_grows ?b2 ?b3
      (if ?chunk > 0 then replicate (nat ?cores) (''memory'', ?chunk, -1, []) else [])"
  proof (cases "?chunk > 0")
    case True
    with add_copies_grows [OF t2, of ?mem "nat ?cores" "''memory''"] show ?thesis by simp
  next
    case False
    with builder_grows_refl [OF t2(1)] show ?thesis by simp
  qed
  then have t3: "tree_ok ?b3" "?v \<in> set (b_vertices ?b3)" using t2 by (auto simp: builder_grows_def)
  have e4: "builder_grows ?b3 ?b4 (replicate (nat (node_count n gpuName)) (''gpu'', 1, -1, []))"
    using add_copies_grows [OF t3, of no_options] by simp
  from builder_grows_trans [OF builder_grows_trans [OF builder_grows_trans [OF e1 e2] e3] e4]
  have all: "builder_grows b ?b4 (node_shapes gpuName rank n)"
    by (simp add: node_shapes_def Let_def)
  have "?v \<in> set (b_vertices ?b4)" using e4 t3 by (auto simp: builder_grows_def)
  then have "parents_ok ?b4 ?parents"
    by (rule parents_ok_gput [OF ps builder_grows_subset [OF all]])
  moreover have "add_node gpuName root n (b, rank, parents) = (?b4, rank + 1, ?parents)"
    unfolding add_node_def Let_def split_beta fst_conv snd_conv AddChild_vertices(2) by (rule refl)
  moreover have "dom (map_of ?parents) = insert (n_name n) (dom (map_of parents))" by simp
  ultimately show ?thesis using all by blast
qed

lemma add_nodes_grows:
  assumes "tree_ok b" "root \<in> set (b_vertices b)" "parents_ok b parents"
  shows "\<exists>b' parents'. add_nodes opts gpuName root nodes (b, rank, parents)
      = (b', rank + int (length (included opts nodes)), parents') \<and>
    builder_grows b b' (nodes_shapes gpuName rank (included opts nodes)) \<and> parents_ok b' parents' \<and>
    dom (map_of parents') = n_name ` set (included opts nodes) \<union> dom (map_of parents)"
  using assms
proof (induction nodes arbitrary: b rank parents)
  case Nil
  then show ?case by (simp add: included_def builder_grows_refl)
next
  case (Cons n ns)
  show ?case
  proof (cases "skip_node opts n")
    case True
    with Cons.IH [OF Cons.prems] show ?thesis by (simp add: included_def)
  next
    case False
    obtain b1 parents1
      where one: "add_node gpuName root n (b, rank, parents) = (b1, rank + 1, parents1)"
        "builder_grows b b1 (node_shapes gpuName rank n)" "parents_ok b1 parents1"
        "dom (map_of parents1) = insert (n_name n) (dom (map_of parents))"
      using add_node_grows [OF Cons.prems, of gpuName n rank] by (elim exE conjE) (rule that)
    then have "tree_ok b1" "root \<in> set (b_vertices b1)"
      using Cons.prems(2) by (auto simp: builder_grows_def)
    note step = Cons.IH [OF this one(3), of "rank + 1"]
    obtain b2 parents2
      where rest: "add_nodes opts gpuName root ns (b1, rank + 1, parents1)
          = (b2, rank + 1 + int (length (included opts ns)), parents2)"
        "builder_grows b1 b2 (nodes_shapes gpuName (rank + 1) (included opts ns))" "parents_ok b2 parents2"
        "dom (map_of parents2) = n_name ` set (included opts ns) \<union> dom (map_of parents1)"
      using step by (elim exE conjE) (rule that)
    have inc: "included opts (n # ns) = n # included opts ns"
      using False by (simp add: included_def)
    have "add_nodes opts gpuName root (n # ns) (b, rank, parents)
        = (b2, rank + int (length (included opts (n # ns))), parents2)"
      using False rest(1) by (simp add: one(1) inc)
    moreover have "builder_grows b b2 (nodes_shapes gpuName rank (included opts (n # ns)))"
      using builder_grows_trans [OF one(2) rest(2)] by (simp add: inc)
    moreover have "dom (map_of parents2)
        = n_name ` set (included opts (n # ns)) \<union> dom (map_of parents)"
      using rest(4) one(4) by (simp add: inc)
    ultimately show ?thesis using rest(3) by blast
  qed
qed

section \<open>The whole graph\<close>

text \<open>The vertex a top-level virtual resource is hung under.\<close>

definition parent_name :: "graph_options \<Rightarrow> cresource \<Rightarrow> string" where
  "parent_name opts res = (if cr_parent res = [] then cluster_name opts else cr_parent res)"

lemma appendResources_grows:
  assumes "tree_ok b" "parents_ok b parents"
  shows "case appendResources b parents (cluster_name opts) rs rank of
      Inl e \<Rightarrow> \<exists>r \<in> set rs. parent_name opts r \<notin> dom (map_of parents) \<and>
        e = UnknownParent (cr_type r) (parent_name opts r)
    | Inr (b', rank') \<Rightarrow> (parent_name opts ` set rs \<subseteq> dom (map_of parents)) \<and>
        builder_grows b b' (resource_shapes rank (forest rs)) \<and> rank' = rank + int (length (forest rs))"
  using assms
proof (induction rs arbitrary: b rank)
  case Nil
  then show ?case by (simp add: builder_grows_refl)
next
  case (Cons r rs)
  have step: "appendResources b parents (cluster_name opts) (r # rs) rank =
      (case map_of parents (parent_name opts r) of
         None \<Rightarrow> Inl (UnknownParent (cr_type r) (parent_name opts r))
       | Some parent \<Rightarrow> appendResources (fst (addResource b parent r rank)) parents
           (cluster_name opts) rs (snd (addResource b parent r rank)))"
    by (simp add: parent_name_def Let_def split_beta split: option.split)
  show ?case
  proof (cases "map_of parents (parent_name opts r)")
    case None
    then show ?thesis by (auto simp: step simp del: appendResources.simps)
  next
    case (Some parent)
    let ?b = "fst (addResource b parent r rank)"
    have "parent \<in> set (b_vertices b)" using Cons.prems(2) Some by (rule parents_ok_lookup)
    with Cons.prems(1) have first: "builder_grows b ?b (resource_shapes rank (subtree r))"
      and rank: "snd (addResource b parent r rank) = rank + int (length (subtree r))"
      using addResource_grows(1) by auto
    have "parents_ok ?b parents"
      using Cons.prems(2) builder_grows_subset [OF first] unfolding parents_ok_def by blast
    moreover have "tree_ok ?b" using first by (simp add: builder_grows_def)
    ultimately show ?thesis
      using Cons.IH [of ?b "rank + int (length (subtree r))"] builder_grows_trans [OF first] Some
      by (auto simp: step rank resource_shapes_append simp del: appendResources.simps
          split: sum.splits)
  qed
qed

definition root_shape :: "string \<times> int \<times> int \<times> (string, string) gomap" where
  "root_shape = (''cluster'', 1, -1, [])"

definition graph_shapes ::
    "node list \<Rightarrow> graph_options \<Rightarrow> (string \<times> int \<times> int \<times> (string, string) gomap) list" where
  "graph_shapes nodes opts =
     (let ns = included opts nodes in
        root_shape # nodes_shapes (gpu_name opts) 0 ns
        @ resource_shapes (int (length ns)) (forest (go_resources opts)))"

definition known_parents :: "node list \<Rightarrow> graph_options \<Rightarrow> string set" where
  "known_parents nodes opts = insert (cluster_name opts) (n_name ` set (included opts nodes))"

lemma build_builder_cases:
  "case build_builder nodes opts of
      Inl e \<Rightarrow> \<exists>r \<in> set (go_resources opts). parent_name opts r \<notin> known_parents nodes opts \<and>
        e = UnknownParent (cr_type r) (parent_name opts r)
    | Inr (b, ranks) \<Rightarrow> parent_name opts ` set (go_resources opts) \<subseteq> known_parents nodes opts \<and>
        tree_ok b \<and> map shape (b_vertices b) = graph_shapes nodes opts \<and>
        ranks = int (length (included opts nodes) + length (forest (go_resources opts)))"
proof -
  let ?opts = "no_options\<lparr>o_name := cluster_name opts\<rparr>"
  let ?b = "fst (AddRoot NewBuilder ''cluster'' ''cluster'' ?opts)"
  let ?root = "snd (AddRoot NewBuilder ''cluster'' ''cluster'' ?opts)"
  have shape0: "map shape (b_vertices ?b) = [root_shape]"
    by (simp add: NewBuilder_def shape_def root_shape_def)
  have root: "?root \<in> set (b_vertices ?b)" by simp
  then have ps: "parents_ok ?b [(cluster_name opts, ?root)]"
    unfolding parents_ok_def by simp
  obtain b1 parents1 where nodes: "add_nodes opts (gpu_name opts) ?root nodes
        (?b, 0, [(cluster_name opts, ?root)]) = (b1, 0 + int (length (included opts nodes)), parents1)"
      "builder_grows ?b b1 (nodes_shapes (gpu_name opts) 0 (included opts nodes))" "parents_ok b1 parents1"
      "dom (map_of parents1) = n_name ` set (included opts nodes) \<union> dom (map_of [(cluster_name opts, ?root)])"
    using add_nodes_grows [OF tree_ok_root root ps, of opts "gpu_name opts" nodes 0]
    by (elim exE conjE) (rule that)
  have parents: "dom (map_of parents1) = known_parents nodes opts"
    unfolding nodes(4) known_parents_def by auto
  have build: "build_builder nodes opts = appendResources b1 parents1 (cluster_name opts)
      (go_resources opts) (int (length (included opts nodes)))"
    unfolding build_builder_def split_beta using nodes(1) by simp
  have "tree_ok b1" using nodes(2) by (simp add: builder_grows_def)
  from appendResources_grows [OF this nodes(3), where opts = opts and
      rs = "go_resources opts" and rank = "int (length (included opts nodes))"]
  show ?thesis
    unfolding build parents using nodes(2) shape0
    by (auto simp: builder_grows_def graph_shapes_def Let_def split: sum.splits)
qed

section \<open>What the graph guarantees\<close>

text \<open>
  C14: a graph is built exactly when the parent of every top-level virtual resource is the
  cluster root or an included node, and it then has one vertex for the root, the node, its
  cores, memory chunks and GPUs for every included node, and one per virtual resource of the
  configuration in pre-order; nodes and virtual resources have the ranks 0, 1, 2, ... in that
  order and every other vertex the rank -1. Otherwise the error names an unknown parent.
\<close>
theorem build_graph_vertices:
  "(is_err (build_builder nodes opts) \<longleftrightarrow>
      \<not> parent_name opts ` set (go_resources opts) \<subseteq> known_parents nodes opts) \<and>
   (case build_builder nodes opts of
      Inl e \<Rightarrow> \<exists>r \<in> set (go_resources opts). parent_name opts r \<notin> known_parents nodes opts \<and>
        e = UnknownParent (cr_type r) (parent_name opts r)
    | Inr (b, ranks) \<Rightarrow> map shape (b_vertices b) = graph_shapes nodes opts \<and>
        ranks = int (length (included opts nodes) + length (forest (go_resources opts))))"
  using build_builder_cases [of opts nodes]
  by (auto simp: is_err_def split: sum.splits)

text \<open>
  C33: a built graph is a tree: exactly the vertices after the root are the target of exactly
  one edge, each edge goes from an earlier vertex to a later one whose containment path is the
  source's path extended by the target's name, no two vertices share an id, and every path
  starts at the root's.
\<close>
theorem build_graph_tree:
  "case build_builder nodes opts of
     Inl _ \<Rightarrow> True
   | Inr (b, _) \<Rightarrow>
       {j. \<exists>!i. is_edge b i j} = {1..<length (b_vertices b)} \<and>
       {(i, j). is_edge b i j} \<subseteq> {(i, j). i < j \<and>
          v_path (b_vertices b ! j) = v_path (b_vertices b ! i) @ ''/'' @ v_name (b_vertices b ! j)} \<and>
       distinct (map v_key (b_vertices b)) \<and>
       list_all (\<lambda>v. has_prefix (v_path v) (v_path (b_vertices b ! 0))) (b_vertices b)"
proof (cases "build_builder nodes opts")
  case (Inr br)
  then obtain b ranks where b: "build_builder nodes opts = Inr (b, ranks)" by (cases br) simp
  with build_builder_cases [of opts nodes] have tree: "tree_ok b" by simp
  then have ok: "builder_ok b" by (simp add: tree_ok_def)
  have "{j. \<exists>!i. is_edge b i j} = {1..<length (b_vertices b)}"
  proof (intro set_eqI iffI; simp only: mem_Collect_eq atLeastLessThan_iff)
    fix j assume "\<exists>!i. is_edge b i j"
    then obtain i where "is_edge b i j" by (elim ex1E)
    from edge_earlier [OF ok this] show "1 \<le> j \<and> j < length (b_vertices b)" by linarith
  next
    fix j assume "1 \<le> j \<and> j < length (b_vertices b)"
    then show "\<exists>!i. is_edge b i j" by (intro tree_parent [OF tree]) linarith+
  qed
  then show ?thesis
    using tree_path [OF tree] edge_earlier [OF ok] keys_distinct [OF ok]
    by (auto simp: b list_all_length)
qed simp

text \<open>The ranks of the vertices a jobspec's constraint selects.\<close>

definition selected_ranks :: "jobspec \<Rightarrow> builder \<Rightarrow> int list" where
  "selected_ranks spec b =
     map v_rank (filter (\<lambda>v. holds [] (property_keys (v_node_props v)) (jobspec_constraint spec))
       (b_vertices b))"

definition shape_ranks ::
    "string list \<Rightarrow> (string \<times> int \<times> int \<times> (string, string) gomap) list \<Rightarrow> int list" where
  "shape_ranks props ss =
     map (\<lambda>(_, _, r, _). r) (filter (\<lambda>(_, _, _, p). set props \<subseteq> fst ` set p) ss)"

lemma shape_ranks_append [simp]:
  "shape_ranks props (xs @ ys) = shape_ranks props xs @ shape_ranks props ys"
  "shape_ranks props [] = []"
  "shape_ranks props ((ty, sz, r, p) # xs) =
     (if set props \<subseteq> fst ` set p then r # shape_ranks props xs else shape_ranks props xs)"
  by (simp_all add: shape_ranks_def)

lemma selected_shape_ranks:
  assumes "js_attributes spec = systemAttributes props []"
  shows "selected_ranks spec b = shape_ranks props (map shape (b_vertices b))"
  using holds_systemAttributes [OF assms]
  by (simp add: selected_ranks_def shape_ranks_def filter_map comp_def shape_def set_property_keys)

lemma shape_ranks_replicate: "props \<noteq> [] \<Longrightarrow> shape_ranks props (replicate k (ty, sz, r, [])) = []"
  by (induction k) simp_all

lemma shape_ranks_nodes:
  "props \<noteq> [] \<Longrightarrow> shape_ranks props (nodes_shapes gpuName r ns) =
     (if set props \<subseteq> {VirtualPropertyFalse} then map (\<lambda>i. r + int i) [0..<length ns] else [])"
proof (induction ns arbitrary: r)
  case (Cons n ns)
  have "map (\<lambda>i. r + int i) [0..<length (n # ns)] = r # map (\<lambda>i. (r + 1) + int i) [0..<length ns]"
    by (simp del: upt_Suc add: upt_conv_Cons map_Suc_upt [symmetric] ac_simps)
  with Cons show ?case
    by (simp add: node_shapes_def Let_def shape_ranks_replicate false_marker_def del: upt_Suc)
qed simp

lemma shape_ranks_resources:
  "shape_ranks props (resource_shapes (int r) rs) =
     map (int \<circ> fst) (filter (\<lambda>(_, x). set props \<subseteq> fst ` set (virtualProperties x)) (enumerate r rs))"
proof (induction rs arbitrary: r)
  case (Cons x rs)
  have "resource_shapes (int r) (x # rs) = resource_shape (int r) x # resource_shapes (int (Suc r)) rs"
    by (simp add: ac_simps)
  then show ?case
    by (simp add: Cons.IH [of "Suc r"] resource_shape_def
        del: resource_shapes.simps of_nat_Suc)
qed simp

lemma false_not_virtual: "VirtualPropertyFalse \<notin> fst ` set (virtualProperties r)"
  by (auto simp: virtualProperties_keys VirtualPropertyFalse_def VirtualPropertyTrue_def
      ComposeProperty_def ClassProperty_def FluxionResourcePrefix_def split: if_splits)

text \<open>
  C17: in a built graph the compute jobspec of a gang without exclusions selects exactly the
  vertices of the included nodes, and the device jobspec of a type exactly the virtual
  resources that have a resource of that type in their subtree: compute and devices are
  matched on disjoint parts of the graph and no other vertex is ever selected.
\<close>
theorem jobspecs_partition_graph:
  assumes "build_builder nodes opts = Inr (b, ranks)" and "t \<noteq> []"
  shows "selected_ranks (computeJobspec g n compute []) b = map int [0..<length (included opts nodes)] \<and>
    selected_ranks (deviceJobspec g t k []) b =
      map (int \<circ> fst) (filter (\<lambda>(_, r). \<exists>d \<in> set (subtree r). cr_type d = t)
        (enumerate (length (included opts nodes)) (forest (go_resources opts))))"
proof -
  have shapes: "map shape (b_vertices b) = graph_shapes nodes opts"
    using build_builder_cases [of opts nodes] assms(1) by simp
  have compute: "selected_ranks (computeJobspec g n compute []) b
      = shape_ranks [VirtualPropertyFalse] (graph_shapes nodes opts)"
    unfolding shapes [symmetric] by (rule selected_shape_ranks) (simp add: computeJobspec_def)
  have device: "selected_ranks (deviceJobspec g t k []) b
      = shape_ranks [VirtualPropertyTrue, ComposeClassProperty t] (graph_shapes nodes opts)"
    unfolding shapes [symmetric] by (rule selected_shape_ranks) (simp add: deviceJobspec_def)
  have no_virtual: "(set [VirtualPropertyFalse] \<subseteq> fst ` set (virtualProperties r)) = False" for r
    using false_not_virtual by simp
  have true: "VirtualPropertyTrue \<in> fst ` set (virtualProperties r)" for r
    by (simp add: virtualProperties_keys)
  have device_iff: "set [VirtualPropertyTrue, ComposeClassProperty t] \<subseteq> fst ` set (virtualProperties r)
      \<longleftrightarrow> (\<exists>d \<in> set (subtree r). cr_type d = t)" for r
    using true class_key_iff [OF assms(2), of r] by auto
  have "VirtualPropertyTrue \<noteq> VirtualPropertyFalse"
    by (simp add: VirtualPropertyTrue_def VirtualPropertyFalse_def)
  then show ?thesis
    unfolding compute device graph_shapes_def Let_def root_shape_def shape_ranks_append
      shape_ranks_resources no_virtual device_iff
    by (simp add: shape_ranks_nodes)
qed

definition sample_node :: node where
  "sample_node = blank_node\<lparr>n_name := ''w1'',
     n_allocatable := [(''cpu'', units 2), (''memory'', units 4194304)]\<rparr>"

definition sample_options :: graph_options where
  "sample_options = \<lparr>go_cluster = [], go_gpu = [], go_resources = rc_resources sample_loaded,
     go_unschedulable = False\<rparr>"

definition sample_graph :: builder where
  "sample_graph = (case build_builder [sample_node] sample_options of Inr (b, _) \<Rightarrow> b | _ \<Rightarrow> NewBuilder)"

lemma sample_builds: "build_builder [sample_node] sample_options = Inr (sample_graph, 3)"
  by code_simp

theorem jobspecs_partition_graph_witness:
  "selected_ranks (computeJobspec ''g'' 1 [] []) sample_graph = [0] \<and>
   selected_ranks (deviceJobspec ''g'' ''qpu'' 1 []) sample_graph = [1, 2]"
proof -
  have "map int [0..<length (included sample_options [sample_node])] = [0]" by code_simp
  moreover have "map (int \<circ> fst) (filter (\<lambda>(_, r). \<exists>d \<in> set (subtree r). cr_type d = ''qpu'')
      (enumerate (length (included sample_options [sample_node])) (forest (go_resources sample_options))))
      = [1, 2]" by code_simp
  ultimately show ?thesis
    using jobspecs_partition_graph [OF sample_builds, of "''qpu''" "''g''" 1 "[]" 1] by simp
qed

section \<open>Capacity\<close>

definition typed :: "string \<Rightarrow> (string \<times> int \<times> int \<times> (string, string) gomap) list \<Rightarrow> int list" where
  "typed ty ss = map (\<lambda>(_, sz, _, _). sz) (filter (\<lambda>(t, _, _, _). t = ty) ss)"

lemma typed_simps [simp]:
  "typed ty [] = []"
  "typed ty (xs @ ys) = typed ty xs @ typed ty ys"
  "typed ty ((t, sz, r, p) # xs) = (if t = ty then sz # typed ty xs else typed ty xs)"
  by (simp_all add: typed_def)

lemma typed_replicate [simp]:
  "typed ty (replicate k (t, sz, r, p)) = (if t = ty then replicate k sz else [])"
  by (cases "t = ty"; induction k) simp_all

lemma typed_resources: "ty \<noteq> ''node'' \<Longrightarrow> typed ty (resource_shapes r rs) = []"
  by (induction r rs rule: resource_shapes.induct) (simp_all add: resource_shape_def)

text \<open>What a node reports of memory: the allocatable quantity, or else the capacity.\<close>

definition memory_bytes :: "node \<Rightarrow> int" where
  "memory_bytes n = node_count n ''memory''"

lemma sum_list_replicate_int: "sum_list (replicate k (x :: int)) = int k * x"
  by (induction k) (simp_all add: distrib_right)

lemma go_div_le:
  assumes "0 < go_div a b" "0 < b"
  shows "0 \<le> a" "go_div a b * b \<le> a"
proof -
  have "0 \<le> a"
    using assms pos_imp_zdiv_nonneg_iff [of b "- a"]
    by (auto simp: go_div_def abs_if sgn_if mult_less_0_iff split: if_splits)
  then have "go_div a b = a div b" using assms(2) by (simp add: go_div_nonneg)
  with assms(2) show "go_div a b * b \<le> a"
    using pos_mod_sign [of b a] by (simp add: minus_mod_eq_div_mult [symmetric])
  show "0 \<le> a" by fact
qed

lemma memory_chunk_bound:
  assumes "0 < memoryChunkMiB n cores"
  shows "int (nat cores) * memoryChunkMiB n cores * 1048576 \<le> memory_bytes n"
proof -
  define mib where "mib = go_div (memory_bytes n) 1048576"
  have pos: "0 < cores" and chunk: "memoryChunkMiB n cores = go_div mib cores"
    using assms
    by (auto simp: memoryChunkMiB_def mib_def memory_bytes_def node_count_def
        split: if_splits option.splits)
  have cores: "go_div mib cores * cores \<le> mib" and "0 \<le> mib"
    using go_div_le [of mib cores] assms pos by (simp_all add: chunk)
  have "mib * 1048576 \<le> memory_bytes n"
  proof (cases "0 < mib")
    case True
    then show ?thesis using go_div_le(2) [of "memory_bytes n" 1048576] by (simp add: mib_def)
  next
    case False
    with \<open>0 \<le> mib\<close> cores assms pos chunk mult_pos_pos [of "go_div mib cores" cores] show ?thesis
      by (simp add: go_div_def)
  qed
  moreover have "int (nat cores) * memoryChunkMiB n cores * 1048576 = go_div mib cores * cores * 1048576"
    using pos by (simp add: chunk)
  ultimately show ?thesis using cores by linarith
qed

definition total :: "(node \<Rightarrow> int) \<Rightarrow> node list \<Rightarrow> int" where
  "total f ns = sum_list (map (\<lambda>n. max 0 (f n)) ns)"

lemma typed_nodes_memory:
  "sum_list (typed ''memory'' (nodes_shapes gpuName r ns)) * 1048576 \<le> total memory_bytes ns"
proof (induction ns arbitrary: r)
  case (Cons n ns)
  have "sum_list (typed ''memory'' (node_shapes gpuName r n)) * 1048576 \<le> max 0 (memory_bytes n)"
    using memory_chunk_bound [of n "node_count n ''cpu''"]
    by (auto simp: node_shapes_def Let_def sum_list_replicate_int)
  with Cons.IH [of "r + 1"] show ?case by (simp add: total_def distrib_right)
qed (simp add: total_def)

lemma typed_nodes_cores:
  "int (length (typed ''core'' (nodes_shapes gpuName r ns))) = total (\<lambda>n. node_count n ''cpu'') ns"
  by (induction ns arbitrary: r) (simp_all add: total_def node_shapes_def Let_def)

lemma typed_nodes_gpus:
  "int (length (typed ''gpu'' (nodes_shapes gpuName r ns))) = total (\<lambda>n. node_count n gpuName) ns"
  by (induction ns arbitrary: r) (simp_all add: total_def node_shapes_def Let_def)

definition vertex_sizes :: "string \<Rightarrow> builder \<Rightarrow> int list" where
  "vertex_sizes ty b = map v_size (filter (\<lambda>v. v_typ v = ty) (b_vertices b))"

lemma vertex_sizes_typed: "vertex_sizes ty b = typed ty (map shape (b_vertices b))"
  by (simp add: vertex_sizes_def typed_def filter_map comp_def shape_def)

text \<open>
  C38: a built graph has exactly one core vertex per CPU and one GPU vertex per GPU the
  included nodes report, and the memory of all its memory vertices never exceeds what those
  nodes report: rounding to whole MiB per core only rounds down.
\<close>
theorem build_graph_capacity:
  assumes "build_builder nodes opts = Inr (b, ranks)"
  shows "int (length (vertex_sizes ''core'' b)) = total (\<lambda>n. node_count n ''cpu'') (included opts nodes) \<and>
    int (length (vertex_sizes ''gpu'' b)) = total (\<lambda>n. node_count n (gpu_name opts)) (included opts nodes) \<and>
    sum_list (vertex_sizes ''memory'' b) * 1048576 \<le> total memory_bytes (included opts nodes)"
proof -
  have shapes: "map shape (b_vertices b) = graph_shapes nodes opts"
    using build_builder_cases [of opts nodes] assms by simp
  show ?thesis
    unfolding vertex_sizes_typed shapes
    by (simp add: graph_shapes_def Let_def root_shape_def typed_resources typed_nodes_memory
        typed_nodes_cores typed_nodes_gpus)
qed

theorem build_graph_capacity_witness:
  "length (vertex_sizes ''core'' sample_graph) = 2 \<and>
   sum_list (vertex_sizes ''memory'' sample_graph) * 1048576 \<le> 4194304"
proof -
  have "total (\<lambda>n. node_count n ''cpu'') (included sample_options [sample_node]) = 2"
    and "total memory_bytes (included sample_options [sample_node]) = 4194304" by code_simp+
  with build_graph_capacity [OF sample_builds] show ?thesis by simp
qed

section \<open>Advertised names\<close>

lemma set_foldl_add_type: "set (foldl add_type ks xs) = set ks \<union> set xs"
  by (induction xs arbitrary: ks) auto

lemma distinct_foldl_add_type: "distinct ks \<Longrightarrow> distinct (foldl add_type ks xs)"
  by (induction xs arbitrary: ks) (auto simp: distinct_add_type)

lemma set_walk_keys:
  "set (walk_keys keys rs) = set keys \<union> (\<Union>r \<in> set (forest rs). fst ` set (cr_resolved r))"
  by (induction keys rs rule: walk_keys.induct) (auto simp: set_foldl_add_type subtree_eq)

lemma distinct_walk_keys: "distinct keys \<Longrightarrow> distinct (walk_keys keys rs)"
  by (induction keys rs rule: walk_keys.induct) (simp_all add: distinct_foldl_add_type)

lemma sort_distinct_set: "distinct xs \<Longrightarrow> sort xs = sorted_list_of_set (set xs)"
  by (simp add: sorted_list_of_set_sort_remdups distinct_remdups_id)

text \<open>
  The extended resources and attribute keys advertised for a configuration are exactly
  the types and the resolved attribute keys that occur anywhere in its trees, each once, in
  increasing order.
\<close>
lemma advertised_names:
  "FluxionResourceNames rs =
     sorted_list_of_set ((\<lambda>r. FluxionResourcePrefix @ cr_type r) ` set (forest rs)) \<and>
   AttributeKeys rs =
     sorted_list_of_set (\<Union>r \<in> set (forest rs). fst ` set (cr_resolved r))"
proof -
  have "distinct (map (\<lambda>t. FluxionResourcePrefix @ t) (walk_types_list [] rs))"
    using distinct_walk_types(2) [of "[]" rs] by (simp add: distinct_map inj_on_def)
  moreover have "set (walk_types_list [] rs) = cr_type ` set (forest rs)"
    using set_walk_types(2) [of "[]" rs] by simp
  ultimately show ?thesis
    by (simp add: FluxionResourceNames_def AttributeKeys_def sort_distinct_set set_walk_keys
        distinct_walk_keys image_image)
qed

text \<open>
  A cluster name other than the default breaks every configured resource without an
  explicit parent: loading has already filled the parent in with the default name, so the
  fall-back to the cluster name in the graph is never reached and the graph is refused.
\<close>
lemma cluster_name_breaks_default_parent:
  "build_builder nodes \<lparr>go_cluster = ''prod'', go_gpu = [], go_resources = rc_resources sample_loaded,
     go_unschedulable = False\<rparr> = Inl (UnknownParent ''qdevice'' ''cluster'')
   \<longleftrightarrow> ''cluster'' \<notin> n_name ` set (filter (\<lambda>n. \<not> n_unschedulable n \<and> \<not> isControlPlane n) nodes)"
proof -
  let ?opts = "\<lparr>go_cluster = ''prod'', go_gpu = [], go_resources = rc_resources sample_loaded,
     go_unschedulable = False\<rparr> :: graph_options"
  have included: "included ?opts nodes = filter (\<lambda>n. \<not> n_unschedulable n \<and> \<not> isControlPlane n) nodes"
    by (simp add: included_def skip_node_def)
  have known: "parent_name ?opts r \<in> known_parents nodes ?opts \<longleftrightarrow>
      ''cluster'' \<in> n_name ` set (included ?opts nodes)" if "r \<in> set (go_resources ?opts)" for r
    using that by (auto simp: parent_name_def known_parents_def cluster_name_def sample_loaded_def)
  have shape_r: "cr_type r = ''qdevice'' \<and> parent_name ?opts r = ''cluster''" if "r \<in> set (go_resources ?opts)" for r
    using that by (auto simp: parent_name_def sample_loaded_def)
  have "go_resources ?opts \<noteq> []" by (simp add: sample_loaded_def)
  then obtain r where r: "r \<in> set (go_resources ?opts)" by (meson list.set_sel(1))
  show ?thesis
    unfolding included [symmetric]
    using build_builder_cases [of ?opts nodes] known shape_r r
    by (cases "build_builder nodes ?opts") auto
qed

end
