(* ===== verification/Scheduler_Match.thy ===== *)
theory Scheduler_Match
  imports Scheduler Cluster_Graph
begin

text \<open>
  Matching a group is all-or-nothing, the jobid annotation is read back as it was written,
  and the extension points keep what the scheduler framework expects of them; what is known of a
  freshly constructed plugin.
\<close>

section \<open>Rollback\<close>

context matcher
begin

lemma cancel_issued [simp]: "issued (fst (do_cancel m j)) = issued m"
  using cancel_ok cancel_failed by (cases "do_cancel m j"; cases "snd (do_cancel m j)") auto

lemma cancel_subset: "held (fst (do_cancel m j)) \<subseteq> held m"
  using cancel_ok [of m j] cancel_failed [of m j]
  by (cases "do_cancel m j"; cases "snd (do_cancel m j)") auto

lemma cancel_keeps: "held m - {j} \<subseteq> held (fst (do_cancel m j))"
  using cancel_ok [of m j] cancel_failed [of m j]
  by (cases "do_cancel m j"; cases "snd (do_cancel m j)") auto

lemma cancels_issued [simp]: "issued (cancelJobids do_cancel m js) = issued m"
  by (induction js arbitrary: m) auto

lemma cancels_subset: "held (cancelJobids do_cancel m js) \<subseteq> held m"
  by (induction js arbitrary: m) (auto dest: subsetD [OF cancel_subset] subset_trans)

lemma cancels_keep: "held m - set js \<subseteq> held (cancelJobids do_cancel m js)"
proof (induction js arbitrary: m)
  case (Cons j js)
  have "held m - set (j # js) \<subseteq> held (fst (do_cancel m j)) - set js"
    using cancel_keeps [of m j] by auto
  also have "\<dots> \<subseteq> held (cancelJobids do_cancel m (j # js))"
    using Cons.IH [of "fst (do_cancel m j)"] by simp
  finally show ?case .
qed simp

text \<open>What the loop of \<open>matchGroup\<close> has when it is left.\<close>

definition grown :: "'m \<Rightarrow> 'm \<Rightarrow> uint64 list \<Rightarrow> bool" where
  "grown m m' ids \<longleftrightarrow> distinct ids \<and> set ids \<inter> (issued m \<union> held m) = {} \<and>
     held m' = held m \<union> set ids \<and> issued m' = issued m \<union> set ids"

definition rolled_back :: "'m \<Rightarrow> 'm \<Rightarrow> bool" where
  "rolled_back m m' \<longleftrightarrow> held m \<subseteq> held m' \<and> issued m \<subseteq> issued m' \<and>
     held m' \<subseteq> held m \<union> (issued m' - issued m)"

lemma rolled_back_refl: "rolled_back m m"
  by (simp add: rolled_back_def)

lemma grown_step:
  "grown m m' ids \<Longrightarrow> do_match m' spec = (m'', Inr r) \<Longrightarrow> grown m m'' (ids @ [mr_number r])"
  using match_ok [of m' spec m'' r] by (auto simp: grown_def)

lemma grown_failed: "grown m m' ids \<Longrightarrow> do_match m' spec = (m'', Inl e) \<Longrightarrow> grown m m'' ids"
  using match_failed [of m' spec m'' e] by (auto simp: grown_def)

lemma grown_rolled_back: "grown m m' ids \<Longrightarrow> rolled_back m (cancelJobids do_cancel m' ids)"
  using cancels_keep [of m' ids] cancels_subset [of m' ids]
  by (auto simp: grown_def rolled_back_def)

lemma match_specs_held:
  assumes "grown m0 m ids"
  shows "case match_specs do_match do_cancel um m pl ids specs of
      (m', Inl st) \<Rightarrow> rolled_back m0 m' \<and> fst st \<noteq> Success
    | (m', Inr (pl', ids')) \<Rightarrow> grown m0 m' ids' \<and> length ids' = length ids + length specs"
  using assms
proof (induction specs arbitrary: m pl ids)
  case Nil
  then show ?case by simp
next
  case (Cons js specs)
  obtain spec where spec: "JSON js = Inr spec" by (simp add: JSON_def)
  obtain m' res where m: "do_match m spec = (m', res)" by fastforce
  show ?case
  proof (cases res)
    case (Inl e)
    then show ?thesis
      using grown_failed [OF Cons.prems] m grown_rolled_back by (simp add: spec)
  next
    case (Inr req)
    then have grown: "grown m0 m' (ids @ [mr_number req])"
      using grown_step [OF Cons.prems] m by simp
    show ?thesis
    proof (cases "PlacementFromAllocation um (mr_allocation req)")
      case (Inl e)
      then show ?thesis
        using grown_rolled_back [OF grown] m Inr by (simp add: spec AsStatus_def \<open>res = _\<close>)
    next
      case place: (Inr place)
      show ?thesis
        using Cons.IH [OF grown, of "merge_placement pl place"] m
        by (auto simp: spec place \<open>res = Inr req\<close> split: prod.splits sum.splits)
    qed
  qed
qed

lemma matchGroup_held:
  "case matchGroup do_match do_cancel um m specs of
      (m', Inl st) \<Rightarrow> rolled_back m m' \<and> fst st \<noteq> Success
    | (m', Inr (pl, ids)) \<Rightarrow> grown m m' ids \<and> length ids = length specs \<and> ids \<noteq> []"
proof -
  have "grown m m []" by (simp add: grown_def)
  from match_specs_held [OF this, where um = um and pl = empty_placement and specs = specs] show ?thesis
    using grown_rolled_back [of m] rolled_back_refl [of m]
    by (cases specs) (auto simp: matchGroup_def empty_placement_def split: prod.splits sum.splits)
qed

end

text \<open>With a cancel that does not fail, rolling back is exact.\<close>

context reliable_matcher
begin

lemma cancel_exact: "held (fst (do_cancel m j)) = held m - {j}"
  using cancel_ok [of m j "fst (do_cancel m j)"] cancel_total [of m j]
  by (metis prod.collapse)

lemma cancels_exact: "held (cancelJobids do_cancel m js) = held m - set js"
  by (induction js arbitrary: m) (auto simp: cancel_exact)

lemma grown_exact: "grown m m' ids \<Longrightarrow> held (cancelJobids do_cancel m' ids) = held m"
  by (auto simp: grown_def cancels_exact)

lemma match_specs_exact:
  "grown m0 m ids \<Longrightarrow> match_specs do_match do_cancel um m pl ids specs = (m', Inl st) \<Longrightarrow>
   held m' = held m0"
proof (induction specs arbitrary: m pl ids)
  case (Cons js specs)
  obtain spec where spec: "JSON js = Inr spec" by (simp add: JSON_def)
  obtain m1 res where m1: "do_match m spec = (m1, res)" by fastforce
  show ?case
  proof (cases res)
    case (Inl e)
    then have "grown m0 m1 ids" using grown_failed [OF Cons.prems(1)] m1 by simp
    then show ?thesis using Cons.prems(2) m1 Inl grown_exact by (auto simp: spec)
  next
    case (Inr req)
    then have "grown m0 m1 (ids @ [mr_number req])" using grown_step [OF Cons.prems(1)] m1 by simp
    then show ?thesis
      using Cons.prems(2) m1 Inr grown_exact Cons.IH by (auto simp: spec split: sum.splits)
  qed
qed simp

lemma matchGroup_exact:
  assumes "matchGroup do_match do_cancel um m specs = (m', Inl st)"
  shows "held m' = held m"
proof -
  have start: "grown m m []" by (simp add: grown_def)
  show ?thesis
    using assms match_specs_held [OF start, where um = um and pl = empty_placement and specs = specs]
      match_specs_exact [OF start, where um = um and pl = empty_placement and specs = specs]
    by (auto simp: matchGroup_def dest: grown_exact split: prod.splits sum.splits if_splits)
qed

lemma all_or_nothing:
  "case matchGroup do_match do_cancel um m specs of
      (m', Inl st) \<Rightarrow> held m' = held m \<and> fst st \<noteq> Success
    | (m', Inr (pl, ids)) \<Rightarrow> distinct ids \<and> length ids = length specs \<and> ids \<noteq> [] \<and>
        set ids \<inter> (issued m \<union> held m) = {} \<and> held m' = held m \<union> set ids"
  using matchGroup_held [where um = um and m = m and specs = specs]
    matchGroup_exact [where um = um and m = m and specs = specs]
  by (auto simp: grown_def split: prod.splits sum.splits)

end

text \<open>
  C2: matching a group is all-or-nothing. Over any matcher whose cancel does not fail, a
  failed group leaves exactly the allocations that were held before, and a matched group adds
  exactly one fresh allocation per jobspec, whose jobids are distinct and never used before.
\<close>
theorem matchGroup_all_or_nothing:
  assumes "reliable_matcher do_match do_cancel held issued"
  shows "case matchGroup do_match do_cancel um m specs of
      (m', Inl st) \<Rightarrow> held m' = held m \<and> fst st \<noteq> Success
    | (m', Inr (pl, ids)) \<Rightarrow> distinct ids \<and> length ids = length specs \<and> ids \<noteq> [] \<and>
        set ids \<inter> (issued m \<union> held m) = {} \<and> held m' = held m \<union> set ids"
  by (rule reliable_matcher.all_or_nothing [OF assms])

text \<open>A matcher over the scripted client, and the allocation texts its script returns.\<close>

definition sample_matcher :: "(string + string) list \<Rightarrow> script_client fluxion_graph" where
  "sample_matcher script = \<lparr>fg_cli = \<lparr>sc_next = 7, sc_held = [3], sc_script = script\<rparr>, fg_format = ''jgf''\<rparr>"

definition sample_unmarshal :: "string \<Rightarrow> string + allocation" where
  "sample_unmarshal s =
     (if s = ''compute'' then Inr \<lparr>al_graph = [\<lparr>vt_type = ''node'', vt_name = ''w1'', vt_props = []\<rparr>],
        al_scheduling = []\<rparr>
      else if s = ''device'' then Inr \<lparr>al_graph = [\<lparr>vt_type = ''node'', vt_name = ''rigetti'',
        vt_props = [(VirtualPropertyTrue, [])]\<rparr>], al_scheduling = []\<rparr>
      else Inl ''unexpected end of JSON input'')"

definition sample_specs :: "jobspec list" where
  "sample_specs = [computeJobspec ''g'' 1 [] [], deviceJobspec ''g'' ''qpu'' 1 []]"

theorem matchGroup_all_or_nothing_witness:
  "set (sc_held (fg_cli (fst (matchGroup (MatchAllocateSpec sc_match) (Cancel sc_cancel) sample_unmarshal
      (sample_matcher [Inr ''compute'', Inl ''busy'']) sample_specs)))) = {3}"
proof -
  have "is_err (snd (matchGroup (MatchAllocateSpec sc_match) (Cancel sc_cancel) sample_unmarshal
      (sample_matcher [Inr ''compute'', Inl ''busy'']) sample_specs))"
    by (simp add: matchGroup_def sample_specs_def JSON_def MatchAllocateSpec_def sc_match_def
        sample_matcher_def sample_unmarshal_def PlacementFromAllocation_def NodesFromAllocation_def
        vertices_of_def)
  then show ?thesis
    using matchGroup_all_or_nothing [OF scripted.fluxion.reliable_matcher_axioms,
        where um = sample_unmarshal and m = "sample_matcher [Inr ''compute'', Inl ''busy'']"
          and specs = sample_specs]
    by (auto simp: sample_matcher_def split: prod.splits sum.splits)
qed

section \<open>The combined placement\<close>

text \<open>
  A specification of \<open>matchGroup\<close> without the interleaved rollback: the replies of the
  matcher to all the jobspecs, and what a list of replies amounts to.
\<close>

fun replies ::
    "('m \<Rightarrow> string \<Rightarrow> 'm \<times> (string + match_request)) \<Rightarrow> 'm \<Rightarrow> jobspec list
     \<Rightarrow> (string + match_request) list" where
  "replies do_match m [] = []"
| "replies do_match m (js # specs) =
     (case do_match m (json_indent (jobspec_json js)) of
        (m', r) \<Rightarrow> r # replies do_match m' specs)"

definition verdict ::
    "(string \<Rightarrow> string + allocation) \<Rightarrow> string + match_request \<Rightarrow> status + placement \<times> uint64" where
  "verdict um r =
     (case r of
        Inl e \<Rightarrow> Inl (Unschedulable, ''fluxion match failed: '' @ e)
      | Inr req \<Rightarrow>
          (case PlacementFromAllocation um (mr_allocation req) of
             Inl e \<Rightarrow> Inl (Error, e)
           | Inr place \<Rightarrow> Inr (place, mr_number req)))"

fun first_error :: "('e + 'a) list \<Rightarrow> 'e option" where
  "first_error [] = None"
| "first_error (Inl e # rs) = Some e"
| "first_error (Inr x # rs) = first_error rs"

definition results :: "('e + 'a) list \<Rightarrow> 'a list" where
  "results rs = map projr rs"

lemma results_simps [simp]: "results [] = []" "results (Inr x # rs) = x # results rs"
  by (simp_all add: results_def)

text \<open>All nodes in order; backend and attributes of the last placement that names a backend.\<close>

definition combine :: "placement list \<Rightarrow> placement" where
  "combine ps =
     (let named = filter (\<lambda>p. pl_backend p \<noteq> []) ps in
        \<lparr>pl_nodes = concat (map pl_nodes ps),
         pl_backend = (if named = [] then [] else pl_backend (last named)),
         pl_attrs = (if named = [] then [] else pl_attrs (last named))\<rparr>)"

definition judge :: "(status + placement \<times> uint64) list \<Rightarrow> status + placement \<times> uint64 list" where
  "judge vs =
     (case first_error vs of
        Some st \<Rightarrow> Inl st
      | None \<Rightarrow>
          let place = combine (map fst (results vs)) in
          if pl_nodes place = [] \<and> pl_backend place = []
          then Inl (Unschedulable, ''fluxion returned no allocation'')
          else Inr (place, map snd (results vs)))"

lemma foldl_merge_placement:
  "foldl merge_placement p ps =
     (let named = filter (\<lambda>q. pl_backend q \<noteq> []) ps in
        \<lparr>pl_nodes = pl_nodes p @ concat (map pl_nodes ps),
         pl_backend = (if named = [] then pl_backend p else pl_backend (last named)),
         pl_attrs = (if named = [] then pl_attrs p else pl_attrs (last named))\<rparr>)"
  by (induction ps arbitrary: p) (auto simp: merge_placement_def Let_def)

lemma merge_combine: "foldl merge_placement empty_placement ps = combine ps"
  by (simp add: foldl_merge_placement combine_def empty_placement_def Let_def cong: if_cong)

lemma match_specs_verdicts:
  "snd (match_specs do_match do_cancel um m pl ids specs) =
     (let vs = map (verdict um) (replies do_match m specs) in
      case first_error vs of
        Some st \<Rightarrow> Inl st
      | None \<Rightarrow> Inr (foldl merge_placement pl (map fst (results vs)), ids @ map snd (results vs)))"
proof (induction specs arbitrary: m pl ids)
  case Nil
  then show ?case by simp
next
  case (Cons js specs)
  obtain m' r where r: "do_match m (json_indent (jobspec_json js)) = (m', r)" by fastforce
  show ?case
  proof (cases r)
    case (Inl e)
    then show ?thesis using r by (simp add: JSON_def verdict_def)
  next
    case (Inr req)
    show ?thesis
    proof (cases "PlacementFromAllocation um (mr_allocation req)")
      case Inl': (Inl e)
      then show ?thesis using r Inr by (simp add: JSON_def verdict_def AsStatus_def)
    next
      case place: (Inr place)
      then have "verdict um r = Inr (place, mr_number req)" by (simp add: verdict_def Inr)
      with place r Inr Cons.IH show ?thesis
        by (simp add: JSON_def Let_def cong: option.case_cong)
    qed
  qed
qed

text \<open>
  C16: the outcome of matching a group is the verdict on its jobspecs, submitted as JSON in
  order: the first failed match makes the group unschedulable, the first unreadable
  allocation is an error, matches without any node or backend are unschedulable, and
  otherwise the placement has the nodes of all matches in order, the last backend named with
  its attributes, and one jobid per match.
\<close>
theorem matchGroup_verdict:
  "snd (matchGroup do_match do_cancel um m specs) = judge (map (verdict um) (replies do_match m specs))"
  using match_specs_verdicts [of do_match do_cancel um m empty_placement "[]" specs]
  by (auto simp: matchGroup_def judge_def merge_combine Let_def split: prod.split sum.split option.split)

section \<open>Jobid annotations\<close>

lemma no_space_digits: "set (show_nat n) \<inter> \<Union> (set ` set white_space) = {}"
  using show_nat_digits [of n] white_space_bytes by (fastforce simp: is_digit_def)

lemma parse_parts_show: "parse_parts (map (\<lambda>j. show_nat (unat j)) ids) = Some ids"
  by (induction ids) (simp_all add: trim_space_id [OF no_space_digits] Let_def)

lemma parse_formatJobIDs:
  "parse_jobid_text (formatJobIDs ids) = (if ids = [] then None else Some ids)"
proof (cases "ids = []")
  case True
  then show ?thesis by (simp add: formatJobIDs_def parse_jobid_text_def)
next
  case False
  let ?parts = "map (\<lambda>j. show_nat (unat j)) ids"
  have "CHR '','' \<notin> set (show_nat n)" for n
    by (rule show_nat_no_char) (simp add: is_digit_def)
  then have split: "split_on (CHR '','') (formatJobIDs ids) = ?parts"
    unfolding formatJobIDs_def using False by (intro split_on_join) auto
  have "formatJobIDs ids \<noteq> []"
  proof
    assume "formatJobIDs ids = []"
    with split have "[[]] = ?parts" by simp
    then show False by (cases ids) (auto dest: sym)
  qed
  then show ?thesis
    using False by (simp add: parse_jobid_text_def split parse_parts_show)
qed

text \<open>
  The jobids written to an owner's annotation in PreBind are read back exactly when the
  allocation is freed, whatever other annotations the owner carries; no jobids read back as
  no record.
\<close>
lemma jobid_annotation_roundtrip:
  "parseJobIDs (gput ann JobIDAnnotation (formatJobIDs ids)) = (if ids = [] then None else Some ids)"
  by (simp add: parseJobIDs_def parse_formatJobIDs)

section \<open>Extension points\<close>

lemma match_specs_status:
  "match_specs do_match do_cancel um m pl ids specs = (m', Inl st) \<Longrightarrow> fst st \<noteq> Success"
  by (induction do_match do_cancel um m pl ids specs rule: match_specs.induct)
    (auto simp: AsStatus_def split: sum.splits prod.splits)

lemma matchGroup_status: "matchGroup do_match do_cancel um m specs = (m', Inl st) \<Longrightarrow> fst st \<noteq> Success"
  using match_specs_status
  by (fastforce simp: matchGroup_def split: sum.splits prod.splits if_splits)

text \<open>The four ways \<open>PreFilter\<close> ends.\<close>

lemma PreFilter_cases:
  obtains (cached) "fl_placement f (groupKey p) \<noteq> None"
      "PreFilter do_match do_cancel um w f p = (f, NewStatus Success)"
  | (failed) e where "fl_placement f (groupKey p) = None"
      "PreFilter do_match do_cancel um w f p = (f, AsStatus e)"
  | (unmatched) specs m st where "fl_placement f (groupKey p) = None"
      "matchGroup do_match do_cancel um (fl_matcher f) specs = (m, Inl st)"
      "PreFilter do_match do_cancel um w f p = (f\<lparr>fl_matcher := m\<rparr>, st)"
  | (matched) specs m place ids where "fl_placement f (groupKey p) = None"
      "matchGroup do_match do_cancel um (fl_matcher f) specs = (m, Inr (place, ids))"
      "PreFilter do_match do_cancel um w f p =
         (f\<lparr>fl_matcher := m, fl_placement := (fl_placement f)(groupKey p \<mapsto>
            \<lparr>ga_place = place, ga_jobids = ids\<rparr>)\<rparr>, NewStatus Success)"
proof (cases "fl_placement f (groupKey p)")
  case (Some a)
  then show ?thesis by (intro cached) (simp_all add: PreFilter_def)
next
  case None
  show ?thesis
  proof (cases "groupPods w p")
    case (Inl e)
    with None show ?thesis by (intro failed [of e]) (simp_all add: PreFilter_def)
  next
    case (Inr pods)
    let ?specs = "JobspecsForGroup (groupKey p) pods (fl_known f) (sort (excluded_nodes f (groupKey p)))"
    show ?thesis
    proof (cases ?specs)
      case (Inl e)
      with None Inr show ?thesis
        by (intro failed [of "jobspec_error_text e"]) (simp_all add: PreFilter_def)
    next
      case specs: (Inr specs)
      obtain m r where m: "matchGroup do_match do_cancel um (fl_matcher f) specs = (m, r)" by fastforce
      show ?thesis
      proof (cases r)
        case (Inl st)
        with None Inr specs m show ?thesis
          by (intro unmatched [of specs m st]) (simp_all add: PreFilter_def \<open>groupPods w p = Inr pods\<close>)
      next
        case matched': (Inr pr)
        obtain place ids where "pr = (place, ids)" by fastforce
        with None Inr specs m matched' show ?thesis
          by (intro matched [of specs m place ids])
            (simp_all add: PreFilter_def \<open>groupPods w p = Inr pods\<close>)
      qed
    qed
  qed
qed

text \<open>
  C28: PreFilter succeeds exactly when the pod's group ends up with an allocation; it never
  changes the allocation of another group or an existing one, nor any exclusion; a group
  that already has one is not matched again; and Filter then admits exactly the nodes of the
  allocation, or every node when the allocation has none.
\<close>
theorem PreFilter_then_Filter:
  "case PreFilter do_match do_cancel um w f p of (f', st) \<Rightarrow>
     (fst st = Success \<longleftrightarrow> fl_placement f' (groupKey p) \<noteq> None) \<and>
     fl_placement f' |` (- {groupKey p}) = fl_placement f |` (- {groupKey p}) \<and>
     fl_placement f \<subseteq>\<^sub>m fl_placement f' \<and>
     fl_excluded f' = fl_excluded f \<and>
     (fl_placement f (groupKey p) = None \<or> f' = f) \<and>
     (fst (Filter f' p n) = Success \<longleftrightarrow>
        cached_nodes f' (groupKey p) = [] \<or> n_name n \<in> set (cached_nodes f' (groupKey p)))"
proof -
  have "fst (Filter f' p n) = Success \<longleftrightarrow>
      cached_nodes f' (groupKey p) = [] \<or> n_name n \<in> set (cached_nodes f' (groupKey p))" for f' :: "'a fluence"
    by (simp add: Filter_def NewStatus_def Let_def)
  moreover have "case PreFilter do_match do_cancel um w f p of (f', st) \<Rightarrow>
     (fst st = Success \<longleftrightarrow> fl_placement f' (groupKey p) \<noteq> None) \<and>
     fl_placement f' |` (- {groupKey p}) = fl_placement f |` (- {groupKey p}) \<and>
     fl_placement f \<subseteq>\<^sub>m fl_placement f' \<and> fl_excluded f' = fl_excluded f \<and>
     (fl_placement f (groupKey p) = None \<or> f' = f)"
    by (cases rule: PreFilter_cases [of f p do_match do_cancel um w])
      (auto simp: NewStatus_def AsStatus_def restrict_map_def map_le_def fun_eq_iff
        dest: matchGroup_status)
  ultimately show ?thesis by auto
qed

lemma set_excluded_fold:
  "set (foldl (\<lambda>ex n. if P n then List.insert n ex else ex) ex ns) = set ex \<union> {n \<in> set ns. P n}"
  by (induction ns arbitrary: ex) auto

lemma distinct_excluded_fold:
  "distinct ex \<Longrightarrow> distinct (foldl (\<lambda>ex n. if P n then List.insert n ex else ex) ex ns)"
  by (induction ns arbitrary: ex) auto

text \<open>
  PostFilter abandons the group's allocation and cancels its jobids, adds to the group's
  exclusions exactly the nodes of the allocation whose status is unschedulable and
  unresolvable (a node that is busy, has no status, or all nodes when there is no status
  reader, are not excluded), and touches no other group. Without an allocation it does
  nothing. The pod is never scheduled by it.
\<close>
lemma PostFilter_excludes:
  "case PostFilter do_cancel f p statuses of (f', st) \<Rightarrow>
     fst st = Unschedulable \<and>
     (case fl_placement f (groupKey p) of
        None \<Rightarrow> f' = f
      | Some a \<Rightarrow>
          fl_placement f' = (fl_placement f)(groupKey p := None) \<and>
          fl_matcher f' = cancelJobids do_cancel (fl_matcher f) (ga_jobids a) \<and>
          fl_known f' = fl_known f \<and>
          set (excluded_nodes f' (groupKey p)) = set (excluded_nodes f (groupKey p)) \<union>
            {n \<in> set (pl_nodes (ga_place a)). node_code statuses n = UnschedulableAndUnresolvable} \<and>
          fl_excluded f' |` (- {groupKey p}) = fl_excluded f |` (- {groupKey p}))"
  by (auto simp: PostFilter_def NewStatus_def Let_def excluded_nodes_def set_excluded_fold restrict_map_def
      fun_eq_iff split: option.splits)

definition user_scout_api :: api where
  "user_scout_api =
     \<lparr>api_pods = (\<lambda>ns. Inr
        [blank_pod\<lparr>p_name := ''a'', p_namespace := ''ns'', p_phase := ''Succeeded'',
           p_group := Some \<lparr>sg_name = Some ''g''\<rparr>\<rparr>,
         blank_pod\<lparr>p_name := ''b'', p_namespace := ''ns'', p_phase := ''Running'',
           p_group := Some \<lparr>sg_name = Some ''g-scout''\<rparr>\<rparr>]),
      api_groups = Inl ''not listed'',
      api_group = (\<lambda>ns g. Inr \<lparr>pg_name = g, pg_namespace = ns, pg_labels = [],
        pg_annotations = (if g = ''g'' then [(CreatedByAnnotation, CreatedByValue)] else []),
        pg_min_count = 1, pg_created = 0\<rparr>),
      api_write = (\<lambda>_. None)\<rparr>"

text \<open>
  The clean-up of a scout group is not covered by the safety rules: when a gang
  completes, the PodGroup named after it with the scout suffix is deleted even when a user
  created it and one of its pods is running, although reconciling that PodGroup itself would
  leave it alone.
\<close>
lemma scout_group_deleted_unchecked:
  "DeleteGroup ''ns'' ''g-scout'' \<in> set (reconcileGroup user_scout_api 1000 ''ns'' ''g'') \<and>
   reconcileGroup user_scout_api 1000 ''ns'' ''g-scout'' = []"
  by code_simp

section \<open>Construction\<close>

text \<open>
  The plugin starts with no allocation and no exclusion, over the matcher made from the
  graph of exactly the schedulable nodes and the configured resources, and knows exactly the
  device types that occur in the configuration; without a configuration it knows none.
\<close>
lemma New_starts:
  "case New unmarshal read_file stage init getenv (Inr nodes) of
     Inl _ \<Rightarrow> True
   | Inr f \<Rightarrow>
       fl_placement f = Map.empty \<and> fl_excluded f = Map.empty \<and>
       (\<exists>resources known jgf tmp.
          load_resources unmarshal read_file (getenv ''FLUENCE_RESOURCES'') = Inr (resources, known) \<and>
          BuildGraph (schedulableNodes nodes)
            \<lparr>go_cluster = [], go_gpu = [], go_resources = resources, go_unschedulable = False\<rparr> = Inr jgf \<and>
          stage jgf = Inr tmp \<and> fl_matcher f = init tmp (getenv ''FLUENCE_MATCH_POLICY'') \<and>
          fl_known f = Some known \<and> set known = cr_type ` set (forest resources))"
proof -
  have known: "set known = cr_type ` set (forest resources)"
    if "load_resources unmarshal read_file path = Inr (resources, known)" for path resources known
    using that set_walk_types(2) [of "[]" resources]
    by (auto simp: load_resources_def FluxionResourceNames_def image_image
        split: if_splits sum.splits option.splits)
  show ?thesis
    by (auto simp: New_def dest: known split: sum.splits)
qed

definition qpu_pod :: pod where
  "qpu_pod = blank_pod\<lparr>p_name := ''q'', p_namespace := ''ns'',
     p_containers := [blank_container\<lparr>c_requests := [(FluxionResourcePrefix @ ''qpu'', units 1)]\<rparr>]\<rparr>"

text \<open>
  A plugin built without a resources configuration holds an empty set of device types
  that is not nil, so a request for a device no graph models is not refused before the match,
  although the source says that it is a hard error: a device jobspec is submitted.
\<close>
lemma classical_plugin_takes_devices:
  "case New (\<lambda>_. Inl []) (\<lambda>_. Inl []) Inr (\<lambda>tmp policy. policy) (\<lambda>_. []) (Inr []) of
     Inl _ \<Rightarrow> False
   | Inr f \<Rightarrow> (case JobspecsForGroup ''ns/q'' [qpu_pod] (fl_known f) [] of
       Inl _ \<Rightarrow> False
     | Inr specs \<Rightarrow> deviceJobspec ''ns/q'' ''qpu'' 1 [] \<in> set specs)"
proof -
  have "JobspecsForGroup ''ns/q'' [qpu_pod] (Some []) [] =
      Inr [computeJobspec ''ns/q'' 1 [(''core'', 1)] [], deviceJobspec ''ns/q'' ''qpu'' 1 []]"
    by code_simp
  moreover have "\<not> is_err (BuildGraph []
      \<lparr>go_cluster = [], go_gpu = [], go_resources = [], go_unschedulable = False\<rparr>)"
    by (simp add: BuildGraph_def build_builder_def builder_JSON_def split_beta)
  ultimately show ?thesis
    by (auto simp: New_def load_resources_def schedulableNodes_def is_err_def split: sum.splits)
qed

end
