(* ===== verification/Scheduler_System.thy ===== *)
theory Scheduler_System
  imports Scheduler_Match
begin

text \<open>
  The plugin as a state machine: scheduling cycles and informer events in any order, on any
  matcher that keeps the contract. No two groups' memos share an allocation, and each is held
  unless another owner's annotation, from before this process, names the same jobid; tearing a
  group down frees no jobid of another group but such a one, and such a one it does free.
\<close>

section \<open>Steps\<close>

text \<open>
  Besides the plugin's state, the system keeps, for every group key, the values that the jobid
  annotation of an owner with that key has or has had: first those from before the process
  started (an earlier process of the plugin, or anybody else, wrote them), then, as the steps add
  them, the ones PreBind sends, newest first. An informer may hand over a stale object, so the
  object of an event carries any one of them, or none. Nothing is assumed of the values from
  before: the graph is rebuilt when the process starts, so its jobids may be the same again.
\<close>

record 'm system =
  sy_fl :: "'m fluence"
  sy_written :: "string \<Rightarrow> string list"

text \<open>An owner's annotations: a jobid text its key has had, or none.\<close>

definition recorded_annotation :: "'m system \<Rightarrow> string \<Rightarrow> (string, string) gomap \<Rightarrow> bool" where
  "recorded_annotation s k ann \<longleftrightarrow>
     gstr ann JobIDAnnotation \<in> set ([] # sy_written s k)"

fun jobid_texts :: "request \<Rightarrow> string list" where
  "jobid_texts (PatchPod ns n ann) = (case map_of ann JobIDAnnotation of None \<Rightarrow> [] | Some v \<Rightarrow> [v])"
| "jobid_texts (PatchGroup ns n ann) = (case map_of ann JobIDAnnotation of None \<Rightarrow> [] | Some v \<Rightarrow> [v])"
| "jobid_texts (DeleteGroup ns n) = []"

definition record_written :: "'m system \<Rightarrow> request list \<Rightarrow> string \<Rightarrow> 'm system" where
  "record_written s sent k =
     s\<lparr>sy_written := (sy_written s)(k := concat (map jobid_texts sent) @ sy_written s k)\<rparr>"

inductive step ::
    "('m \<Rightarrow> string \<Rightarrow> 'm \<times> (string + match_request)) \<Rightarrow> ('m \<Rightarrow> uint64 \<Rightarrow> 'm \<times> string option)
     \<Rightarrow> (string \<Rightarrow> string + allocation) \<Rightarrow> 'm system \<Rightarrow> 'm system \<Rightarrow> bool"
  for do_match do_cancel um where
  pre_filter: "step do_match do_cancel um s
     (s\<lparr>sy_fl := fst (PreFilter do_match do_cancel um w (sy_fl s) p)\<rparr>)"
| post_filter: "step do_match do_cancel um s
     (s\<lparr>sy_fl := fst (PostFilter do_cancel (sy_fl s) p statuses)\<rparr>)"
| pre_bind: "step do_match do_cancel um s
     (record_written s (fst (PreBind w (sy_fl s) p)) (groupKey p))"
| pod_updated: "recorded_annotation s (p_namespace new @ ''/'' @ p_name new) (pod_annotations new) \<Longrightarrow>
     step do_match do_cancel um s
       (s\<lparr>sy_fl := fst (onPodUpdated do_cancel w now (sy_fl s) old new)\<rparr>)"
| group_deleted: "(\<And>pg. last_known obj = Some pg \<Longrightarrow>
       recorded_annotation s (pg_namespace pg @ ''/'' @ pg_name pg) (pg_annotations pg)) \<Longrightarrow>
     step do_match do_cancel um s (s\<lparr>sy_fl := onPodGroupDeleted do_cancel (sy_fl s) obj\<rparr>)"
| pod_deleted: "(\<And>p. last_known gone = Some p \<Longrightarrow>
       recorded_annotation s (p_namespace p @ ''/'' @ p_name p) (pod_annotations p)) \<Longrightarrow>
     step do_match do_cancel um s
       (s\<lparr>sy_fl := fst (onPodDeleted do_cancel w now (sy_fl s) gone)\<rparr>)"

text \<open>A freshly constructed plugin has no memo; the owners may carry any annotations.\<close>

definition initial :: "'m system \<Rightarrow> bool" where
  "initial s \<longleftrightarrow> fl_placement (sy_fl s) = Map.empty"

inductive reachable ::
    "('m \<Rightarrow> string \<Rightarrow> 'm \<times> (string + match_request)) \<Rightarrow> ('m \<Rightarrow> uint64 \<Rightarrow> 'm \<times> string option)
     \<Rightarrow> (string \<Rightarrow> string + allocation) \<Rightarrow> 'm system \<Rightarrow> 'm system \<Rightarrow> bool"
  for do_match do_cancel um s0 where
  start: "initial s0 \<Longrightarrow> reachable do_match do_cancel um s0 s0"
| step: "reachable do_match do_cancel um s0 s \<Longrightarrow> step do_match do_cancel um s s' \<Longrightarrow>
     reachable do_match do_cancel um s0 s'"

text \<open>The jobids that the annotations of an owner name.\<close>

definition recorded_ids :: "'m system \<Rightarrow> string \<Rightarrow> uint64 list" where
  "recorded_ids s k = concat (map (\<lambda>v. case parse_jobid_text v of None \<Rightarrow> [] | Some ids \<Rightarrow> ids) (sy_written s k))"

section \<open>Invariant\<close>

text \<open>The jobids of a group's memo.\<close>

definition memo_ids :: "'m fluence \<Rightarrow> string \<Rightarrow> uint64 list" where
  "memo_ids f k = (case fl_placement f k of None \<Rightarrow> [] | Some a \<Rightarrow> ga_jobids a)"

text \<open>
  Every jobid handed to a group belongs to that group for good: \<open>owner\<close> is a ghost map from
  jobids to group keys. What the owners' annotations named before the process started is
  \<open>left\<close>, and the one way in which a memo's jobid is freed is that another owner's \<open>left\<close> has it.
\<close>

definition of_others :: "(string \<Rightarrow> uint64 set) \<Rightarrow> string \<Rightarrow> uint64 set" where
  "of_others left k = (\<Union>k' \<in> - {k}. left k')"

lemma of_othersI: "j \<in> left k' \<Longrightarrow> k' \<noteq> k \<Longrightarrow> j \<in> of_others left k"
  by (auto simp: of_others_def)

definition owned ::
    "('m \<Rightarrow> uint64 set) \<Rightarrow> ('m \<Rightarrow> uint64 set) \<Rightarrow> (string \<Rightarrow> uint64 set) \<Rightarrow> (uint64 \<rightharpoonup> string)
     \<Rightarrow> 'm system \<Rightarrow> bool" where
  "owned held issued left owner s \<longleftrightarrow>
     dom owner \<subseteq> issued (fl_matcher (sy_fl s)) \<and>
     (\<forall>k. set (memo_ids (sy_fl s) k) \<subseteq>
         {j. owner j = Some k} \<inter> (held (fl_matcher (sy_fl s)) \<union> of_others left k) \<and>
       distinct (memo_ids (sy_fl s) k)) \<and>
     (\<forall>k v ids. v \<in> set (sy_written s k) \<longrightarrow> parse_jobid_text v = Some ids \<longrightarrow>
       set ids \<subseteq> {j. owner j = Some k} \<union> left k)"

lemma memo_ids_simps [simp]:
  "memo_ids (f\<lparr>fl_matcher := m\<rparr>) k = memo_ids f k"
  "memo_ids (f\<lparr>fl_excluded := ex\<rparr>) k = memo_ids f k"
  "memo_ids (f\<lparr>fl_placement := (fl_placement f)(k' \<mapsto> a)\<rparr>) k =
     (if k = k' then ga_jobids a else memo_ids f k)"
  "memo_ids (f\<lparr>fl_placement := (fl_placement f)(k' := None)\<rparr>) k =
     (if k = k' then [] else memo_ids f k)"
  by (simp_all add: memo_ids_def)

lemma parse_empty [simp]: "parse_jobid_text [] = None"
  by (simp add: parse_jobid_text_def)

lemma owned_written:
  "owned held issued left owner s \<Longrightarrow> v \<in> set (sy_written s k) \<Longrightarrow> parse_jobid_text v = Some ids \<Longrightarrow>
   set ids \<subseteq> {j. owner j = Some k} \<union> left k"
  unfolding owned_def by blast

text \<open>PreBind writes nothing but the memo's jobids, and only for its own group.\<close>

lemma json_jobid_not_backend:
  "map_of (backend_annotations place) JobIDAnnotation = None"
proof -
  have "JobIDAnnotation \<noteq> AttributeAnnotationPrefix @ k" for k
    by (simp add: JobIDAnnotation_def AttributeAnnotationPrefix_def)
  then have fold: "map_of (foldl (\<lambda>ann (k, v). gput ann (AttributeAnnotationPrefix @ k) v) ann kvs) JobIDAnnotation
      = map_of ann JobIDAnnotation" for ann kvs
    by (induction kvs arbitrary: ann) auto
  have "JobIDAnnotation \<noteq> BackendAnnotation"
    by (simp add: JobIDAnnotation_def BackendAnnotation_def)
  then show ?thesis unfolding backend_annotations_def fold by simp
qed

lemma send_subset: "set (fst (send w rs)) \<subseteq> set rs"
  by (induction rs) (auto split: option.splits prod.splits)

lemma PreBind_writes:
  "r \<in> set (fst (PreBind w f p)) \<Longrightarrow>
     r = recordJobIDs p (memo_ids f (groupKey p)) \<or> r \<in> set (stampBackend f p)"
  using send_subset [of w "stampBackend f p"]
  by (fastforce simp: PreBind_def memo_ids_def split: option.splits prod.splits)

lemma written_PreBind:
  assumes "v \<in> set (sy_written (record_written s (fst (PreBind w (sy_fl s) p)) (groupKey p)) k)"
  shows "v \<in> set (sy_written s k) \<or>
    k = groupKey p \<and> v = formatJobIDs (memo_ids (sy_fl s) k)"
  using assms PreBind_writes [of _ w "sy_fl s" p] json_jobid_not_backend
  by (fastforce simp: record_written_def recordJobIDs_def stampBackend_def Let_def
      split: if_splits option.splits request.splits)

context matcher
begin

text \<open>Freeing jobids of one group leaves the other groups' held.\<close>

lemma owned_cancel:
  assumes own: "owned held issued left owner s"
    and ids: "set ids \<subseteq> {j. owner j = Some k} \<union> left k"
    and f': "fl_matcher f' = cancelJobids do_cancel (fl_matcher (sy_fl s)) ids"
      "fl_placement f' = (fl_placement (sy_fl s))(k := None)"
  shows "owned held issued left owner (s\<lparr>sy_fl := f'\<rparr>)"
proof -
  have memo: "memo_ids f' k' = (if k' = k then [] else memo_ids (sy_fl s) k')" for k'
    by (simp add: memo_ids_def f'(2))
  have "set (memo_ids f' k') \<subseteq> {j. owner j = Some k'} \<inter> (held (fl_matcher f') \<union> of_others left k')" for k'
  proof (cases "k' = k")
    case False
    with own have old: "set (memo_ids (sy_fl s) k') \<subseteq>
        {j. owner j = Some k'} \<inter> (held (fl_matcher (sy_fl s)) \<union> of_others left k')"
      by (simp add: owned_def)
    have "{j. owner j = Some k'} \<inter> set ids \<subseteq> of_others left k'" using ids False by (auto intro: of_othersI)
    with old have "set (memo_ids (sy_fl s) k') \<subseteq> (held (fl_matcher (sy_fl s)) - set ids) \<union> of_others left k'" by auto
    also have "\<dots> \<subseteq> held (fl_matcher f') \<union> of_others left k'"
      unfolding f'(1) by (intro Un_mono cancels_keep subset_refl)
    finally show ?thesis using old by (simp add: memo False)
  qed (simp add: memo)
  then show ?thesis using own by (auto simp: owned_def memo f'(1))
qed

lemma owned_cancelGroup:
  assumes own: "owned held issued left owner s" and ann: "recorded_annotation s k ann"
  shows "owned held issued left owner (s\<lparr>sy_fl := cancelGroup do_cancel (sy_fl s) k ann\<rparr>)"
proof -
  have memo: "set (memo_ids (sy_fl s) k) \<subseteq> {j. owner j = Some k}"
    using own by (auto simp: owned_def)
  have parsed: "set ids \<subseteq> {j. owner j = Some k} \<union> left k" if "parseJobIDs ann = Some ids" for ids
    using that ann owned_written [OF own] by (auto simp: parseJobIDs_def recorded_annotation_def)
  show ?thesis
  proof (cases "parseJobIDs ann")
    case (Some ids)
    then show ?thesis
      by (intro owned_cancel [OF own parsed [OF Some]]) (simp_all add: cancelGroup_def)
  next
    case None
    show ?thesis
    proof (cases "fl_placement (sy_fl s) k")
      case None': None
      then show ?thesis using None own by (simp add: cancelGroup_def)
    next
      case (Some a)
      then have "set (ga_jobids a) \<subseteq> {j. owner j = Some k} \<union> left k" using memo by (auto simp: memo_ids_def)
      then show ?thesis
        using None Some by (intro owned_cancel [OF own]) (simp_all add: cancelGroup_def)
    qed
  qed
qed

lemma owned_PostFilter:
  assumes own: "owned held issued left owner s"
  shows "owned held issued left owner (s\<lparr>sy_fl := fst (PostFilter do_cancel (sy_fl s) p statuses)\<rparr>)"
proof (cases "fl_placement (sy_fl s) (groupKey p)")
  case None
  then show ?thesis using own by (simp add: PostFilter_def Let_def)
next
  case (Some a)
  have "set (memo_ids (sy_fl s) (groupKey p)) \<subseteq> {j. owner j = Some (groupKey p)}"
    using own by (auto simp: owned_def)
  then have "set (ga_jobids a) \<subseteq> {j. owner j = Some (groupKey p)} \<union> left (groupKey p)"
    using Some by (auto simp: memo_ids_def)
  then show ?thesis
    using Some by (intro owned_cancel [OF own]) (simp_all add: PostFilter_def Let_def)
qed

text \<open>A new allocation belongs to the group it is made for.\<close>

lemma owned_matched:
  assumes own: "owned held issued left owner s" and grown: "grown (fl_matcher (sy_fl s)) m ids"
    and none: "fl_placement (sy_fl s) k = None"
    and f': "fl_matcher f' = m"
      "fl_placement f' = (fl_placement (sy_fl s))(k \<mapsto> \<lparr>ga_place = place, ga_jobids = ids\<rparr>)"
  shows "owned held issued left (\<lambda>j. if j \<in> set ids then Some k else owner j) (s\<lparr>sy_fl := f'\<rparr>)"
proof -
  have memo: "memo_ids f' k' = (if k' = k then ids else memo_ids (sy_fl s) k')" for k'
    by (simp add: memo_ids_def f'(2))
  have fresh: "owner j = None" if "j \<in> set ids" for j
    using that own grown by (auto simp: owned_def grown_def)
  have old: "{j. owner j = Some k'} \<subseteq> {j. (if j \<in> set ids then Some k else owner j) = Some k'}" for k'
    using fresh by fastforce
  let ?owner = "\<lambda>j. if j \<in> set ids then Some k else owner j"
  have "set ids' \<subseteq> {j. ?owner j = Some k'} \<union> left k'"
    if "v \<in> set (sy_written s k')" "parse_jobid_text v = Some ids'" for k' v ids'
    using owned_written [OF own that] old [of k'] by blast
  moreover have "set (memo_ids f' k') \<subseteq> {j. ?owner j = Some k'} \<inter> (held m \<union> of_others left k') \<and>
      distinct (memo_ids f' k')" for k'
  proof -
    have "set (memo_ids (sy_fl s) k') \<subseteq> {j. owner j = Some k'} \<inter> (held (fl_matcher (sy_fl s)) \<union> of_others left k')"
      "distinct (memo_ids (sy_fl s) k')" using own by (simp_all add: owned_def)
    with old [of k'] grown show ?thesis by (cases "k' = k") (auto simp: memo grown_def simp del: if_split_asm)
  qed
  moreover have "dom ?owner \<subseteq> issued m"
    using own grown by (auto simp: owned_def grown_def split: if_splits)
  ultimately show ?thesis unfolding owned_def by (simp add: f'(1))
qed

lemma owned_same_memo:
  assumes "owned held issued left owner s" "fl_placement f' = fl_placement (sy_fl s)"
    "held (fl_matcher (sy_fl s)) \<subseteq> held (fl_matcher f')"
    "issued (fl_matcher (sy_fl s)) \<subseteq> issued (fl_matcher f')"
  shows "owned held issued left owner (s\<lparr>sy_fl := f'\<rparr>)"
proof -
  have "memo_ids f' k = memo_ids (sy_fl s) k" for k by (simp add: memo_ids_def assms(2))
  then show ?thesis using assms(1,3,4) unfolding owned_def by (simp add: subset_iff) blast
qed

lemma owned_PreFilter:
  assumes own: "owned held issued left owner s"
  shows "\<exists>owner'. owned held issued left owner'
    (s\<lparr>sy_fl := fst (PreFilter do_match do_cancel um w (sy_fl s) p)\<rparr>)"
proof (cases rule: PreFilter_cases [of "sy_fl s" p do_match do_cancel um w])
  case cached
  then show ?thesis using own by auto
next
  case (failed e)
  then show ?thesis using own by auto
next
  case (unmatched specs m st)
  then have "rolled_back (fl_matcher (sy_fl s)) m"
    using matchGroup_held [where um = um and m = "fl_matcher (sy_fl s)" and specs = specs] by simp
  then have "owned held issued left owner (s\<lparr>sy_fl := (sy_fl s)\<lparr>fl_matcher := m\<rparr>\<rparr>)"
    using own by (intro owned_same_memo) (auto simp: rolled_back_def)
  then show ?thesis using unmatched(3) by auto
next
  case (matched specs m place ids)
  then have "grown (fl_matcher (sy_fl s)) m ids"
    using matchGroup_held [where um = um and m = "fl_matcher (sy_fl s)" and specs = specs] by simp
  then have "owned held issued left (\<lambda>j. if j \<in> set ids then Some (groupKey p) else owner j)
      (s\<lparr>sy_fl := fst (PreFilter do_match do_cancel um w (sy_fl s) p)\<rparr>)"
    by (rule owned_matched [OF own _ matched(1)]) (simp_all add: matched(3))
  then show ?thesis by blast
qed

lemma owned_PreBind:
  assumes own: "owned held issued left owner s"
  shows "owned held issued left owner (record_written s (fst (PreBind w (sy_fl s) p)) (groupKey p))"
proof -
  have fl: "sy_fl (record_written s (fst (PreBind w (sy_fl s) p)) (groupKey p)) = sy_fl s"
    by (simp add: record_written_def)
  have "set ids \<subseteq> {j. owner j = Some k} \<union> left k"
    if v: "v \<in> set (sy_written (record_written s (fst (PreBind w (sy_fl s) p)) (groupKey p)) k)"
      and ids: "parse_jobid_text v = Some ids" for k v ids
    using written_PreBind [OF v]
  proof
    assume "v \<in> set (sy_written s k)"
    then show ?thesis using owned_written [OF own _ ids] by auto
  next
    assume "k = groupKey p \<and> v = formatJobIDs (memo_ids (sy_fl s) k)"
    then have "ids = memo_ids (sy_fl s) k" using ids by (auto simp: parse_formatJobIDs split: if_splits)
    then show ?thesis using own by (auto simp: owned_def)
  qed
  then show ?thesis using own unfolding owned_def fl by blast
qed

lemma owned_step:
  assumes "step do_match do_cancel um s s'" "owned held issued left owner s"
  shows "\<exists>owner'. owned held issued left owner' s'"
  using assms
proof cases
  case pre_filter
  then show ?thesis using owned_PreFilter [OF assms(2)] by simp
next
  case post_filter
  then show ?thesis using owned_PostFilter [OF assms(2)] by auto
next
  case pre_bind
  then show ?thesis using owned_PreBind [OF assms(2)] by auto
next
  case (pod_updated new w now old)
  then show ?thesis
    using owned_cancelGroup [OF assms(2) pod_updated(2)] assms(2)
    by (auto simp: onPodUpdated_def)
next
  case (group_deleted obj)
  then show ?thesis
    using owned_cancelGroup [OF assms(2)] assms(2)
    by (cases obj) (auto simp: onPodGroupDeleted_def)
next
  case (pod_deleted gone w now)
  then show ?thesis
    using owned_cancelGroup [OF assms(2)] assms(2)
    by (cases gone) (auto simp: onPodDeleted_def)
qed

lemma reachable_owned:
  "reachable do_match do_cancel um s0 s \<Longrightarrow> \<exists>owner. owned held issued (\<lambda>k. set (recorded_ids s0 k)) owner s"
proof (induction rule: reachable.induct)
  case start
  then have "owned held issued (\<lambda>k. set (recorded_ids s0 k)) Map.empty s0"
    by (auto simp: owned_def initial_def memo_ids_def recorded_ids_def split: option.splits
        intro!: bexI)
  then show ?case by blast
next
  case (step s s')
  then show ?case using owned_step by blast
qed

lemma reachable_safe:
  assumes "reachable do_match do_cancel um s0 s"
  shows "set (memo_ids (sy_fl s) k) \<subseteq>
      held (fl_matcher (sy_fl s)) \<union> of_others (\<lambda>k'. set (recorded_ids s0 k')) k"
    and "distinct (memo_ids (sy_fl s) k)"
    and "k \<noteq> k' \<Longrightarrow> set (memo_ids (sy_fl s) k) \<inter> set (memo_ids (sy_fl s) k') = {}"
proof -
  obtain owner where own: "owned held issued (\<lambda>k. set (recorded_ids s0 k)) owner s"
    using reachable_owned [OF assms] by blast
  then show "set (memo_ids (sy_fl s) k) \<subseteq>
      held (fl_matcher (sy_fl s)) \<union> of_others (\<lambda>k'. set (recorded_ids s0 k')) k"
    and "distinct (memo_ids (sy_fl s) k)"
    by (simp_all add: owned_def)
  have "owner j = Some k" if "j \<in> set (memo_ids (sy_fl s) k)" for j k
    using own that by (auto simp: owned_def)
  then show "set (memo_ids (sy_fl s) k) \<inter> set (memo_ids (sy_fl s) k') = {}" if "k \<noteq> k'"
    using that by (metis disjoint_iff option.inject)
qed

end

section \<open>Properties\<close>

text \<open>
  C3: whatever the order of scheduling cycles and informer events, however stale the objects the
  informers deliver, and whatever jobids the owners' annotations name from before the process
  started, no jobid is twice in the memos and no two groups share one. Each jobid of a memo is
  one that Fluxion still holds, unless the annotation of another owner named that same jobid
  before the process started. It holds over every matcher that keeps its contract, even when
  cancels fail.
\<close>
theorem scheduler_memo_safe:
  assumes "matcher do_match do_cancel held issued"
    and "reachable do_match do_cancel um s0 s"
  shows "set (memo_ids (sy_fl s) k) \<subseteq>
      held (fl_matcher (sy_fl s)) \<union> of_others (\<lambda>k'. set (recorded_ids s0 k')) k \<and>
    distinct (memo_ids (sy_fl s) k) \<and>
    (k = k' \<or> set (memo_ids (sy_fl s) k) \<inter> set (memo_ids (sy_fl s) k') = {})"
  using matcher.reachable_safe [OF assms] by blast

text \<open>A gang of one pod over the scripted matcher.\<close>

definition gang_pod :: pod where
  "gang_pod = blank_pod\<lparr>p_name := ''p'', p_namespace := ''ns'',
     p_group := Some \<lparr>sg_name = Some ''g''\<rparr>\<rparr>"

definition gang_api :: api where
  "gang_api = \<lparr>api_pods = (\<lambda>_. Inr [gang_pod]), api_groups = Inr [], api_group = (\<lambda>_ _. Inl ''gone''),
     api_write = (\<lambda>_. None)\<rparr>"

definition gang_start :: "(string + string) list \<Rightarrow> script_client fluxion_graph fluence" where
  "gang_start script = \<lparr>fl_matcher = sample_matcher script, fl_known = None,
     fl_placement = Map.empty, fl_excluded = Map.empty\<rparr>"

definition gang_prefilter :: "script_client fluxion_graph fluence \<Rightarrow> script_client fluxion_graph fluence" where
  "gang_prefilter f = fst (PreFilter (MatchAllocateSpec sc_match) (Cancel sc_cancel) sample_unmarshal
     gang_api f gang_pod)"

definition gang_group :: "string \<Rightarrow> pod_group" where
  "gang_group jobids = \<lparr>pg_name = ''g'', pg_namespace = ''ns'', pg_labels = [],
     pg_annotations = [(JobIDAnnotation, jobids)], pg_min_count = 1, pg_created = 0\<rparr>"

definition gang_held :: "script_client fluxion_graph fluence \<Rightarrow> uint64 list" where
  "gang_held f = sc_held (fg_cli (fl_matcher f))"

lemma gang_specs:
  "JobspecsForGroup ''ns/g'' [gang_pod] None [] = Inr [computeJobspec ''ns/g'' 1 [(''core'', 1)] []]"
  by code_simp

lemma gang_key [simp]: "groupKey gang_pod = ''ns/g''" "groupPods gang_api gang_pod = Inr [gang_pod]"
  by (simp_all add: groupKey_def groupPods_def gang_api_def gang_pod_def blank_pod_def PodGroupName_def)

lemma gang_matched:
  assumes "fl_placement f ''ns/g'' = None" "excluded_nodes f ''ns/g'' = []" "fl_known f = None"
    and "fg_cli (fl_matcher f) = \<lparr>sc_next = n, sc_held = js, sc_script = Inr ''compute'' # rest\<rparr>"
    and "0 \<le> n" "n < 2 ^ 63" "word_of_int n \<notin> set js"
  shows "gang_prefilter f = f\<lparr>fl_matcher := (fl_matcher f)\<lparr>fg_cli :=
        \<lparr>sc_next = n + 1, sc_held = word_of_int n # js, sc_script = rest\<rparr>\<rparr>,
      fl_placement := (fl_placement f)(''ns/g'' \<mapsto>
        \<lparr>ga_place = \<lparr>pl_nodes = [''w1''], pl_backend = [], pl_attrs = []\<rparr>,
         ga_jobids = [word_of_int n]\<rparr>)\<rparr>"
  using assms
  by (simp add: gang_prefilter_def PreFilter_def Let_def gang_specs matchGroup_def JSON_def
      MatchAllocateSpec_def sc_match_def sample_unmarshal_def PlacementFromAllocation_def
      NodesFromAllocation_def vertices_of_def placement_step_def HasProperty_def
      empty_placement_def merge_placement_def)

lemma gang_first:
  "gang_prefilter (gang_start (Inr ''compute'' # rest)) =
     (gang_start rest)\<lparr>fl_matcher := (sample_matcher rest)\<lparr>fg_cli :=
        \<lparr>sc_next = 8, sc_held = [7, 3], sc_script = rest\<rparr>\<rparr>,
      fl_placement := [''ns/g'' \<mapsto>
        \<lparr>ga_place = \<lparr>pl_nodes = [''w1''], pl_backend = [], pl_attrs = []\<rparr>, ga_jobids = [7]\<rparr>]\<rparr>"
  by (subst gang_matched [where n = 7 and js = "[3]"])
    (simp_all add: gang_start_def sample_matcher_def excluded_nodes_def)

text \<open>A process that starts while an owner still carries the jobid 5 of the one before.\<close>

definition gang_begin :: "(string + string) list \<Rightarrow> script_client fluxion_graph system" where
  "gang_begin script = \<lparr>sy_fl = gang_start script, sy_written = (\<lambda>_. [])(''ns/old'' := [''5''])\<rparr>"

definition gang_system :: "script_client fluxion_graph system" where
  "gang_system = (gang_begin [Inr ''compute''])\<lparr>sy_fl := gang_prefilter (gang_start [Inr ''compute''])\<rparr>"

lemma gang_recorded:
  "recorded_ids (gang_begin script) k = (if k = ''ns/old'' then [5] else [])"
proof -
  have "formatJobIDs [5] = ''5''" by code_simp
  then have "parse_jobid_text ''5'' = Some [5]" using parse_formatJobIDs [of "[5]"] by simp
  then show ?thesis by (simp add: recorded_ids_def gang_begin_def)
qed

lemma gang_reachable_from:
  assumes "sy_fl s0 = gang_start script"
  shows "reachable (MatchAllocateSpec sc_match) (Cancel sc_cancel) sample_unmarshal s0
    (s0\<lparr>sy_fl := gang_prefilter (gang_start script)\<rparr>)"
proof -
  have "step (MatchAllocateSpec sc_match) (Cancel sc_cancel) sample_unmarshal s0
      (s0\<lparr>sy_fl := gang_prefilter (sy_fl s0)\<rparr>)"
    unfolding gang_prefilter_def by (rule pre_filter)
  moreover have "initial s0" by (simp add: initial_def assms gang_start_def)
  ultimately show ?thesis unfolding assms by (intro reachable.step [OF reachable.start])
qed

lemma gang_reachable:
  "reachable (MatchAllocateSpec sc_match) (Cancel sc_cancel) sample_unmarshal (gang_begin [Inr ''compute'']) gang_system"
  unfolding gang_system_def by (rule gang_reachable_from) (simp add: gang_begin_def)

lemma gang_system_simps:
  "memo_ids (sy_fl gang_system) ''ns/g'' = [7]" "gang_held (sy_fl gang_system) = [7, 3]"
  by (simp_all add: gang_system_def gang_first memo_ids_def gang_held_def)

lemma gang_of_others:
  "7 \<notin> of_others (\<lambda>k. set (recorded_ids (gang_begin script) k)) ''ns/g''"
  by (simp add: of_others_def gang_recorded)

theorem scheduler_memo_safe_witness:
  "7 \<in> set (gang_held (sy_fl gang_system)) \<and> memo_ids (sy_fl gang_system) ''ns/g'' = [7] \<and>
   recorded_ids (gang_begin [Inr ''compute'']) ''ns/old'' = [5]"
proof -
  have "7 \<in> set (gang_held (sy_fl gang_system)) \<union>
      of_others (\<lambda>k. set (recorded_ids (gang_begin [Inr ''compute'']) k)) ''ns/g''"
    using scheduler_memo_safe [OF scripted.fluxion.matcher_axioms gang_reachable, of "''ns/g''"]
    by (simp add: gang_system_simps gang_held_def)
  then show ?thesis using gang_of_others by (simp add: gang_system_simps gang_recorded)
qed

text \<open>
  Tearing a group down, with any jobid annotation its owner has had or none, leaves the memo of
  every other group as it is, and held what was held of it but for the jobids that the owner's
  annotations named before the process started.
\<close>
lemma teardown_isolated:
  assumes "matcher do_match do_cancel held issued"
    and "reachable do_match do_cancel um s0 s"
    and "recorded_annotation s k ann" and "k' \<noteq> k"
  shows "memo_ids (cancelGroup do_cancel (sy_fl s) k ann) k' = memo_ids (sy_fl s) k' \<and>
    set (memo_ids (sy_fl s) k') \<subseteq> held (fl_matcher (cancelGroup do_cancel (sy_fl s) k ann)) \<union>
      of_others (\<lambda>k. set (recorded_ids s0 k)) k'"
proof -
  have memo: "memo_ids (cancelGroup do_cancel (sy_fl s) k ann) k' = memo_ids (sy_fl s) k'"
    using assms(4) by (simp add: cancelGroup_def memo_ids_def split: option.split)
  obtain owner where "owned held issued (\<lambda>k. set (recorded_ids s0 k)) owner s"
    using matcher.reachable_owned [OF assms(1,2)] by blast
  from matcher.owned_cancelGroup [OF assms(1) this assms(3)]
  have "set (memo_ids (cancelGroup do_cancel (sy_fl s) k ann) k') \<subseteq>
      held (fl_matcher (cancelGroup do_cancel (sy_fl s) k ann)) \<union> of_others (\<lambda>k. set (recorded_ids s0 k)) k'"
    by (simp add: owned_def)
  with memo show ?thesis by simp
qed

section \<open>After a restart\<close>

text \<open>What an owner's annotation has been stays on record.\<close>

lemma step_written: "step do_match do_cancel um s s' \<Longrightarrow> set (sy_written s k) \<subseteq> set (sy_written s' k)"
  by (erule step.cases) (auto simp: record_written_def)

lemma reachable_written:
  "reachable do_match do_cancel um s0 s \<Longrightarrow> set (sy_written s0 k) \<subseteq> set (sy_written s k)"
  by (induction rule: reachable.induct) (auto dest: step_written)

lemma memo_extensions:
  assumes "fl_placement f' (groupKey p) = fl_placement f (groupKey p)" "fl_placement f (groupKey p) \<noteq> None"
  shows "PreFilter do_match do_cancel um w f' p = (f', NewStatus Success)"
    "Filter f' p n = Filter f p n" "PreBind w f' p = PreBind w f p"
proof -
  have "stampBackend f' p = stampBackend f p" using assms(1) by (simp add: stampBackend_def)
  then show "PreBind w f' p = PreBind w f p" unfolding PreBind_def assms(1) by (simp only:)
qed (use assms in \<open>simp_all add: PreFilter_def Filter_def cached_nodes_def\<close>)

text \<open>
  C19: an annotation that outlives its process can free another group's allocation. When an
  owner still carries a jobid recorded before the process started, and the rebuilt matcher has
  given the same jobid to another group, then the deletion of that owner is a step that frees it.
  The other group's memo goes on naming the freed jobid, so its pods are filtered and bound as if
  they still held the resources.
\<close>
theorem restart_frees_new_allocation:
  assumes "reliable_matcher do_match do_cancel held issued"
    and "reachable do_match do_cancel um s0 s"
    and "gstr (pg_annotations pg) JobIDAnnotation \<in> set (sy_written s0 (pg_namespace pg @ ''/'' @ pg_name pg))"
    and "parseJobIDs (pg_annotations pg) = Some ids" and "j \<in> set ids"
    and "j \<in> set (memo_ids (sy_fl s) (groupKey p))"
    and "groupKey p \<noteq> pg_namespace pg @ ''/'' @ pg_name pg"
  shows "let f = sy_fl s; f' = onPodGroupDeleted do_cancel f (Deleted pg)
    in step do_match do_cancel um s (s\<lparr>sy_fl := f'\<rparr>) \<and> j \<notin> held (fl_matcher f') \<and>
       j \<in> set (memo_ids f' (groupKey p)) \<and>
       PreFilter do_match do_cancel um w f' p = (f', NewStatus Success) \<and>
       Filter f' p n = Filter f p n \<and> PreBind w f' p = PreBind w f p"
proof -
  let ?f' = "onPodGroupDeleted do_cancel (sy_fl s) (Deleted pg)"
  have "recorded_annotation s (pg_namespace pg @ ''/'' @ pg_name pg) (pg_annotations pg)"
    using reachable_written [OF assms(2)] assms(3) by (auto simp: recorded_annotation_def)
  then have step: "step do_match do_cancel um s (s\<lparr>sy_fl := ?f'\<rparr>)" by (intro group_deleted) simp
  have f': "?f' = cancelGroup do_cancel (sy_fl s) (pg_namespace pg @ ''/'' @ pg_name pg) (pg_annotations pg)"
    by (simp add: onPodGroupDeleted_def)
  have same: "fl_placement ?f' (groupKey p) = fl_placement (sy_fl s) (groupKey p)"
    using assms(7) by (simp add: f' cancelGroup_def assms(4))
  have "fl_placement (sy_fl s) (groupKey p) \<noteq> None" 
    using assms(6) by (cases "fl_placement (sy_fl s) (groupKey p)") (simp_all add: memo_ids_def)
  note kept = memo_extensions [OF same this]
  have "j \<notin> held (fl_matcher ?f')"
    using reliable_matcher.cancels_exact [OF assms(1)] assms(5) by (simp add: f' cancelGroup_def assms(4))
  moreover have "j \<in> set (memo_ids ?f' (groupKey p))" using assms(6) same by (simp add: memo_ids_def)
  ultimately show ?thesis using step kept by (simp add: Let_def)
qed

text \<open>The gang gets jobid 7, which the PodGroup \<open>ns/old\<close> still carries from the last process.\<close>

definition restarted :: "script_client fluxion_graph system" where
  "restarted = \<lparr>sy_fl = gang_start [Inr ''compute''], sy_written = (\<lambda>_. [])(''ns/old'' := [''7''])\<rparr>"

definition old_group :: pod_group where
  "old_group = \<lparr>pg_name = ''old'', pg_namespace = ''ns'', pg_labels = [],
     pg_annotations = [(JobIDAnnotation, ''7'')], pg_min_count = 1, pg_created = 0\<rparr>"

theorem restart_frees_new_allocation_witness:
  "let f = gang_prefilter (sy_fl restarted); f' = onPodGroupDeleted (Cancel sc_cancel) f (Deleted old_group)
   in 7 \<in> set (gang_held f) \<and> 7 \<notin> set (gang_held f') \<and> memo_ids f' ''ns/g'' = [7]"
proof -
  let ?f = "gang_prefilter (gang_start [Inr ''compute''])"
  let ?s = "restarted\<lparr>sy_fl := ?f\<rparr>"
  have reach: "reachable (MatchAllocateSpec sc_match) (Cancel sc_cancel) sample_unmarshal restarted ?s"
    by (rule gang_reachable_from) (simp add: restarted_def)
  have "formatJobIDs [7] = ''7''" by code_simp
  then have "parse_jobid_text ''7'' = Some [7]" using parse_formatJobIDs [of "[7]"] by simp
  then have parse: "parseJobIDs (pg_annotations old_group) = Some [7]"
    by (simp add: parseJobIDs_def gstr_def old_group_def)
  have memo: "memo_ids ?f ''ns/g'' = [7]" "gang_held ?f = [7, 3]"
    by (simp_all add: gang_first memo_ids_def gang_held_def)
  have "let f = sy_fl ?s; f' = onPodGroupDeleted (Cancel sc_cancel) f (Deleted old_group)
    in 7 \<notin> set (sc_held (fg_cli (fl_matcher f'))) \<and> 7 \<in> set (memo_ids f' (groupKey gang_pod))"
    using restart_frees_new_allocation [OF scripted.fluxion.reliable_matcher_axioms reach, of old_group "[7]" 7 gang_pod]
      parse memo by (auto simp: Let_def old_group_def restarted_def gstr_def)
  moreover have "memo_ids (onPodGroupDeleted (Cancel sc_cancel) ?f (Deleted old_group)) ''ns/g'' = [7]"
    using memo parse by (simp add: onPodGroupDeleted_def cancelGroup_def memo_ids_def old_group_def)
  ultimately show ?thesis using memo by (simp add: Let_def gang_held_def restarted_def)
qed

section \<open>Leaks\<close>

text \<open>
  A jobid that is held, but that no memo and no annotation names, stays so: cancels are only asked
  for what a memo or an annotation names, or for what a match that fails has just been given.
\<close>

definition orphan :: "('m \<Rightarrow> uint64 set) \<Rightarrow> 'm system \<Rightarrow> uint64 \<Rightarrow> bool" where
  "orphan held s j \<longleftrightarrow> j \<in> held (fl_matcher (sy_fl s)) \<and>
     (\<forall>k. j \<notin> set (memo_ids (sy_fl s) k) \<and> j \<notin> set (recorded_ids s k))"

lemma recorded_ids_iff:
  "j \<in> set (recorded_ids s k) \<longleftrightarrow>
     (\<exists>v ids. v \<in> set (sy_written s k) \<and> parse_jobid_text v = Some ids \<and> j \<in> set ids)"
  by (force simp: recorded_ids_def split: option.splits)

lemma recorded_idsD:
  assumes "recorded_annotation s k ann" "parseJobIDs ann = Some ids"
  shows "set ids \<subseteq> set (recorded_ids s k)"
proof
  fix j
  assume "j \<in> set ids"
  moreover have "gstr ann JobIDAnnotation \<in> set (sy_written s k)"
    "parse_jobid_text (gstr ann JobIDAnnotation) = Some ids"
    using assms by (auto simp: recorded_annotation_def parseJobIDs_def)
  ultimately show "j \<in> set (recorded_ids s k)" unfolding recorded_ids_iff by blast
qed

lemma recorded_ids_fl [simp]: "recorded_ids (s\<lparr>sy_fl := f\<rparr>) k = recorded_ids s k"
  by (simp add: recorded_ids_def)

lemma recorded_PreBind:
  "set (recorded_ids (record_written s (fst (PreBind w (sy_fl s) p)) (groupKey p)) k) \<subseteq>
     set (recorded_ids s k) \<union> set (memo_ids (sy_fl s) k)"
proof
  fix j
  assume "j \<in> set (recorded_ids (record_written s (fst (PreBind w (sy_fl s) p)) (groupKey p)) k)"
  then obtain v ids where v: "v \<in> set (sy_written (record_written s (fst (PreBind w (sy_fl s) p)) (groupKey p)) k)"
    and ids: "parse_jobid_text v = Some ids" "j \<in> set ids"
    unfolding recorded_ids_iff by blast
  from written_PreBind [OF v] ids show "j \<in> set (recorded_ids s k) \<union> set (memo_ids (sy_fl s) k)"
    by (auto simp: recorded_ids_iff parse_formatJobIDs split: if_splits)
qed

context matcher
begin

lemma orphan_cancel:
  assumes "orphan held s j" "j \<notin> set ids"
    and "fl_matcher f' = cancelJobids do_cancel (fl_matcher (sy_fl s)) ids"
    and "fl_placement f' = (fl_placement (sy_fl s))(k := None)"
  shows "orphan held (s\<lparr>sy_fl := f'\<rparr>) j"
proof -
  have "memo_ids f' k' = (if k' = k then [] else memo_ids (sy_fl s) k')" for k'
    by (simp add: memo_ids_def assms(4))
  moreover have "j \<in> held (fl_matcher f')"
    using cancels_keep [of "fl_matcher (sy_fl s)" ids] assms(1,2) by (auto simp: assms(3) orphan_def)
  ultimately show ?thesis using assms(1) by (simp add: orphan_def)
qed

lemma orphan_memo: "orphan held s j \<Longrightarrow> fl_placement (sy_fl s) k = Some a \<Longrightarrow> j \<notin> set (ga_jobids a)"
  by (auto simp: orphan_def memo_ids_def dest: spec [of _ k])

lemma orphan_cancelGroup:
  assumes orphan: "orphan held s j" and ann: "recorded_annotation s k ann"
  shows "orphan held (s\<lparr>sy_fl := cancelGroup do_cancel (sy_fl s) k ann\<rparr>) j"
proof (cases "parseJobIDs ann")
  case (Some ids)
  then have "j \<notin> set ids" using recorded_idsD [OF ann] orphan by (auto simp: orphan_def)
  with orphan show ?thesis using Some by (elim orphan_cancel) (simp_all add: cancelGroup_def)
next
  case none: None
  show ?thesis
  proof (cases "fl_placement (sy_fl s) k")
    case (Some a)
    with orphan_memo [OF orphan] have "j \<notin> set (ga_jobids a)" by blast
    with orphan show ?thesis using none Some by (elim orphan_cancel) (simp_all add: cancelGroup_def)
  qed (use none orphan in \<open>simp add: cancelGroup_def\<close>)
qed

lemma orphan_PostFilter:
  assumes orphan: "orphan held s j"
  shows "orphan held (s\<lparr>sy_fl := fst (PostFilter do_cancel (sy_fl s) p statuses)\<rparr>) j"
proof (cases "fl_placement (sy_fl s) (groupKey p)")
  case (Some a)
  with orphan_memo [OF orphan] have "j \<notin> set (ga_jobids a)" by blast
  with orphan show ?thesis using Some by (elim orphan_cancel) (simp_all add: PostFilter_def Let_def)
qed (use orphan in \<open>simp add: PostFilter_def Let_def\<close>)

lemma orphan_PreFilter:
  assumes orphan: "orphan held s j"
  shows "orphan held (s\<lparr>sy_fl := fst (PreFilter do_match do_cancel um w (sy_fl s) p)\<rparr>) j"
proof (cases rule: PreFilter_cases [of "sy_fl s" p do_match do_cancel um w])
  case (unmatched specs m st)
  then have "rolled_back (fl_matcher (sy_fl s)) m"
    using matchGroup_held [where um = um and m = "fl_matcher (sy_fl s)" and specs = specs] by simp
  with orphan unmatched show ?thesis by (auto simp: orphan_def rolled_back_def)
next
  case (matched specs m place ids)
  then have "grown (fl_matcher (sy_fl s)) m ids"
    using matchGroup_held [where um = um and m = "fl_matcher (sy_fl s)" and specs = specs] by simp
  then have "held (fl_matcher (sy_fl s)) \<subseteq> held m" "j \<notin> set ids" using orphan by (auto simp: grown_def orphan_def)
  moreover have "memo_ids (fst (PreFilter do_match do_cancel um w (sy_fl s) p)) k =
      (if k = groupKey p then ids else memo_ids (sy_fl s) k)" for k
    by (simp add: matched(3) memo_ids_def)
  ultimately show ?thesis using orphan matched(3) by (auto simp: orphan_def)
qed (use orphan in simp_all)

lemma orphan_step:
  assumes "step do_match do_cancel um s s'" "orphan held s j"
  shows "orphan held s' j"
  using assms
proof cases
  case (pre_bind w p)
  have "sy_fl (record_written s (fst (PreBind w (sy_fl s) p)) (groupKey p)) = sy_fl s"
    by (simp add: record_written_def)
  with pre_bind assms(2) recorded_PreBind [of s w p] show ?thesis by (auto simp: orphan_def)
next
  case (pod_updated new w now old)
  with orphan_cancelGroup [OF assms(2) pod_updated(2)] assms(2) show ?thesis
    by (auto simp: onPodUpdated_def)
next
  case (group_deleted obj)
  with orphan_cancelGroup [OF assms(2)] assms(2) show ?thesis
    by (cases obj) (auto simp: onPodGroupDeleted_def)
next
  case (pod_deleted gone w now)
  with orphan_cancelGroup [OF assms(2)] assms(2) show ?thesis
    by (cases gone) (auto simp: onPodDeleted_def)
qed (use orphan_PreFilter orphan_PostFilter assms(2) in auto)

lemma orphan_forever:
  "(step do_match do_cancel um)\<^sup>*\<^sup>* s s' \<Longrightarrow> orphan held s j \<Longrightarrow> orphan held s' j"
  by (induction rule: rtranclp_induct) (auto intro: orphan_step)

text \<open>The jobids of a new match are fresh: in no other memo, and recorded by nobody since the start.\<close>

lemma matched_fresh:
  assumes own: "owned held issued left owner s"
    and free: "fl_placement (sy_fl s) (groupKey p) = None"
    and f': "f' = fst (PreFilter do_match do_cancel um w (sy_fl s) p)"
    and j: "j \<in> set (memo_ids f' (groupKey p))"
  shows "j \<in> held (fl_matcher f')" "owner j = None"
    "k \<noteq> groupKey p \<Longrightarrow> j \<notin> set (memo_ids f' k)"
proof -
  have "j \<in> held (fl_matcher f') \<and> owner j = None \<and> (k \<noteq> groupKey p \<longrightarrow> j \<notin> set (memo_ids f' k))"
  proof (cases rule: PreFilter_cases [of "sy_fl s" p do_match do_cancel um w])
    case (matched specs m place ids)
    then have "grown (fl_matcher (sy_fl s)) m ids"
      using matchGroup_held [where um = um and m = "fl_matcher (sy_fl s)" and specs = specs] by simp
    moreover from matched f' have "f' = (sy_fl s)\<lparr>fl_matcher := m, fl_placement :=
        (fl_placement (sy_fl s))(groupKey p \<mapsto> \<lparr>ga_place = place, ga_jobids = ids\<rparr>)\<rparr>" by simp
    ultimately have "j \<in> held (fl_matcher f')" "j \<notin> issued (fl_matcher (sy_fl s))"
      "k \<noteq> groupKey p \<Longrightarrow> memo_ids f' k = memo_ids (sy_fl s) k"
      using j by (auto simp: grown_def memo_ids_def)
    moreover from this(2) own have none: "owner j = None" by (auto simp: owned_def)
    moreover have "set (memo_ids (sy_fl s) k) \<subseteq> {j. owner j = Some k}" using own by (auto simp: owned_def)
    ultimately show ?thesis by auto
  qed (use free j f' in \<open>auto simp: memo_ids_def\<close>)
  then show "j \<in> held (fl_matcher f')" "owner j = None" "k \<noteq> groupKey p \<Longrightarrow> j \<notin> set (memo_ids f' k)"
    by blast+
qed

end

section \<open>Teardowns\<close>

lemma teardown_exact:
  assumes "reliable_matcher do_match do_cancel held issued"
    and "gstr ann JobIDAnnotation \<in> {[], formatJobIDs (memo_ids f k)}"
  shows "held (fl_matcher (cancelGroup do_cancel f k ann)) = held (fl_matcher f) - set (memo_ids f k) \<and>
    fl_placement (cancelGroup do_cancel f k ann) = (fl_placement f)(k := None) \<and>
    held (fl_matcher (cancelGroup do_cancel (cancelGroup do_cancel f k ann) k ann)) =
      held (fl_matcher (cancelGroup do_cancel f k ann))"
proof -
  note exact = reliable_matcher.cancels_exact [OF assms(1)]
  have "parseJobIDs ann = None \<or> parseJobIDs ann = Some (memo_ids f k)"
    using assms(2) by (auto simp: parseJobIDs_def parse_formatJobIDs split: if_splits)
  then show ?thesis
    by (elim disjE) (auto simp: cancelGroup_def exact memo_ids_def fun_eq_iff split: option.splits)
qed

text \<open>
  C18: tearing a group down frees exactly the allocations of its memo and drops the memo,
  when the owner's jobid annotation is up to date or was never written, over a matcher whose
  cancel does not fail. Doing it again changes nothing more.
\<close>
theorem teardown_frees_exactly:
  assumes "reliable_matcher do_match do_cancel held issued"
    and "gstr ann JobIDAnnotation \<in> {[], formatJobIDs (memo_ids f k)}"
  shows "held (fl_matcher (cancelGroup do_cancel f k ann)) = held (fl_matcher f) - set (memo_ids f k) \<and>
    fl_placement (cancelGroup do_cancel f k ann) = (fl_placement f)(k := None) \<and>
    held (fl_matcher (cancelGroup do_cancel (cancelGroup do_cancel f k ann) k ann)) =
      held (fl_matcher (cancelGroup do_cancel f k ann))"
  using assms by (rule teardown_exact)

theorem teardown_frees_exactly_witness:
  "set (gang_held (cancelGroup (Cancel sc_cancel) (gang_prefilter (gang_start [Inr ''compute'']))
      ''ns/g'' [(JobIDAnnotation, ''7'')])) = {3}"
proof -
  let ?f = "gang_prefilter (gang_start [Inr ''compute''])"
  have "formatJobIDs [7] = ''7''" by code_simp
  then have "gstr [(JobIDAnnotation, ''7'')] JobIDAnnotation \<in> {[], formatJobIDs (memo_ids ?f ''ns/g'')}"
    by (simp add: gang_first memo_ids_def gstr_def)
  from teardown_frees_exactly [OF scripted.fluxion.reliable_matcher_axioms this]
  show ?thesis by (simp add: gang_held_def gang_first memo_ids_def)
qed

text \<open>A gang that is matched, abandoned by PostFilter and matched again.\<close>

definition gang_abandoned :: "script_client fluxion_graph fluence" where
  "gang_abandoned = fst (PostFilter (Cancel sc_cancel)
     (gang_prefilter (gang_start [Inr ''compute'', Inr ''compute''])) gang_pod None)"

lemma gang_abandoned_is:
  "fl_placement gang_abandoned = Map.empty" "excluded_nodes gang_abandoned ''ns/g'' = []"
  "fl_known gang_abandoned = None"
  "fg_cli (fl_matcher gang_abandoned) = \<lparr>sc_next = 8, sc_held = [3], sc_script = [Inr ''compute'']\<rparr>"
  unfolding gang_abandoned_def gang_first
  by (simp_all add: PostFilter_def Let_def node_code_def excluded_nodes_def gang_start_def Cancel_def sc_cancel_def)

lemma gang_retry:
  "gang_prefilter gang_abandoned = gang_abandoned\<lparr>fl_matcher := (fl_matcher gang_abandoned)\<lparr>fg_cli :=
      \<lparr>sc_next = 9, sc_held = [8, 3], sc_script = []\<rparr>\<rparr>,
    fl_placement := [''ns/g'' \<mapsto>
      \<lparr>ga_place = \<lparr>pl_nodes = [''w1''], pl_backend = [], pl_attrs = []\<rparr>, ga_jobids = [8]\<rparr>]\<rparr>"
  by (subst gang_matched [where n = 8 and js = "[3]"]) (simp_all add: gang_abandoned_is)

text \<open>
  An annotation that is out of date leaks. A gang is matched and PreBind records its
  jobid; another of its pods fails and PostFilter abandons the allocation; the gang is matched
  again, and its PodGroup is deleted before PreBind runs again. The teardown then cancels the
  recorded jobid, which is long free, and forgets the new one, which stays held forever.
\<close>
lemma stale_annotation_leaks:
  "let f1 = gang_prefilter (gang_start [Inr ''compute'', Inr ''compute'']);
       recorded = formatJobIDs (memo_ids f1 ''ns/g'');
       f2 = fst (PostFilter (Cancel sc_cancel) f1 gang_pod None);
       f3 = gang_prefilter f2;
       f4 = onPodGroupDeleted (Cancel sc_cancel) f3 (Deleted (gang_group recorded))
   in recorded = ''7'' \<and> memo_ids f3 ''ns/g'' = [8] \<and>
      fl_placement f4 = Map.empty \<and> gang_held f4 = [8, 3]"
proof -
  let ?f1 = "gang_prefilter (gang_start [Inr ''compute'', Inr ''compute''])"
  have recorded: "formatJobIDs (memo_ids ?f1 ''ns/g'') = ''7''"
  proof -
    have "formatJobIDs [7] = ''7''" by code_simp
    then show ?thesis by (simp add: gang_first memo_ids_def)
  qed
  have "parse_jobid_text ''7'' = Some [7]"
    using parse_formatJobIDs [of "[7]"] recorded by (simp add: gang_first memo_ids_def)
  then have "parseJobIDs (pg_annotations (gang_group ''7'')) = Some [7]"
    by (simp add: gang_group_def parseJobIDs_def gstr_def)
  then show ?thesis
    unfolding Let_def recorded gang_abandoned_def [symmetric] gang_retry
    by (simp add: onPodGroupDeleted_def cancelGroup_def memo_ids_def gang_held_def Cancel_def
        sc_cancel_def gang_group_def)
qed

text \<open>
  Exclusions can outlive their group. When PostFilter has excluded a node and dropped the
  memo, and the PodGroup is deleted before it was ever bound, the teardown finds neither
  annotation nor memo and returns early: a later group of that name starts with the old
  exclusion, although the source says that it starts clean.
\<close>
lemma exclusions_outlive_group:
  "let f1 = gang_prefilter (gang_start [Inr ''compute'']);
       f2 = fst (PostFilter (Cancel sc_cancel) f1 gang_pod
              (Some (\<lambda>_. Some UnschedulableAndUnresolvable)));
       f3 = onPodGroupDeleted (Cancel sc_cancel) f2 (Deleted (gang_group []))
   in excluded_nodes f3 ''ns/g'' = [''w1'']"
proof -
  let ?f1 = "gang_prefilter (gang_start [Inr ''compute''])"
  let ?f2 = "fst (PostFilter (Cancel sc_cancel) ?f1 gang_pod (Some (\<lambda>_. Some UnschedulableAndUnresolvable)))"
  have "fl_placement ?f2 = Map.empty" "excluded_nodes ?f2 ''ns/g'' = [''w1'']"
    unfolding gang_first by (simp_all add: PostFilter_def Let_def node_code_def excluded_nodes_def gang_start_def)
  moreover have "parseJobIDs (pg_annotations (gang_group [])) = None"
    by (simp add: gang_group_def parseJobIDs_def gstr_def)
  ultimately show ?thesis
    by (simp add: Let_def onPodGroupDeleted_def cancelGroup_def del: fst_conv)
qed

text \<open>
  A pod that belongs to no group and has the name of a gang in its namespace shares the
  gang's key. It is never matched, and deleting it frees the allocation of the gang, whose
  pods may be running.
\<close>
lemma lone_pod_frees_gang:
  "let f = gang_prefilter (gang_start [Inr ''compute'']);
       lone = blank_pod\<lparr>p_name := ''g'', p_namespace := ''ns''\<rparr>
   in groupKey lone = groupKey gang_pod \<and>
      gang_held f = [7, 3] \<and>
      gang_held (fst (onPodDeleted (Cancel sc_cancel) gang_api 0 f (Deleted lone))) = [3]"
proof -
  have "parseJobIDs (pod_annotations (blank_pod\<lparr>p_name := ''g'', p_namespace := ''ns''\<rparr>)) = None"
    by (simp add: parseJobIDs_def pod_annotations_def blank_pod_def)
  moreover have "PodGroupName (blank_pod\<lparr>p_name := ''g'', p_namespace := ''ns''\<rparr>) = []"
    by (simp add: PodGroupName_def blank_pod_def)
  moreover have "groupKey (blank_pod\<lparr>p_name := ''g'', p_namespace := ''ns''\<rparr>) = ''ns/g''"
    by (simp add: groupKey_def PodGroupName_def blank_pod_def)
  ultimately show ?thesis
    by (simp add: gang_first onPodDeleted_def cancelGroup_def gang_held_def Cancel_def sc_cancel_def)
qed

end
