(* ===== verification/Scheduler_Sweeps.thy ===== *)
theory Scheduler_Sweeps
  imports Scheduler_System
begin

text \<open>
  The sweeps of \<open>runReconcileSweeps\<close> and the handlers registered with the informers: how long a
  PodGroup that nothing keeps alive can stay, what a sweep never deletes, and that the steps of
  \<open>Scheduler_System\<close> are what the informers cause.
\<close>

section \<open>Sweeps\<close>

text \<open>
  A PodGroup the webhook created that the API serves, of which no member is alive; whether members
  are still listed may change.
\<close>

definition idle :: "api \<Rightarrow> pod_group \<Rightarrow> bool" where
  "idle w pg \<longleftrightarrow>
     (case api_groups w of Inl _ \<Rightarrow> False | Inr pgs \<Rightarrow> pg \<in> set pgs) \<and>
     api_group w (pg_namespace pg) (pg_name pg) = Inr pg \<and>
     (case api_pods w (pg_namespace pg) of Inl _ \<Rightarrow> False
      | Inr pods \<Rightarrow> list_all podTerminal (filter (member_of (pg_name pg)) pods)) \<and>
     gstr (pg_annotations pg) CreatedByAnnotation = CreatedByValue \<and> pg_name pg \<noteq> []"

text \<open>When its protection ends: at once for a group that was scheduled, else after the grace.\<close>

definition due :: "int \<Rightarrow> pod_group \<Rightarrow> int" where
  "due since pg =
     (if parseJobIDs (pg_annotations pg) \<noteq> None then since
      else max since (pg_created pg + reconcileGraceForEmpty))"

lemma reconcileGroup_idle:
  assumes "idle w pg" "due since pg \<le> now"
  shows "DeleteGroup (pg_namespace pg) (pg_name pg) \<in> set (reconcileGroup w now (pg_namespace pg) (pg_name pg))"
proof -
  from assms(1) obtain pods where pods: "api_pods w (pg_namespace pg) = Inr pods"
    "list_all podTerminal (filter (member_of (pg_name pg)) pods)"
    by (auto simp: idle_def split: sum.splits)
  with assms(2) have "may_reap now (pg_name pg) pg pods"
    by (auto simp: may_reap_def due_def Let_def split: if_splits)
  with assms(1) pods show ?thesis by (simp add: idle_def reconcileGroup_def Let_def)
qed

lemma reconcileAll_idle:
  assumes "idle w pg" "due since pg \<le> now"
  shows "DeleteGroup (pg_namespace pg) (pg_name pg) \<in> set (reconcileAll w now)"
  using reconcileGroup_idle [OF assms] assms(1)
  by (auto simp: idle_def reconcileAll_def split: sum.splits)

text \<open>Some sweep falls into every window of the length of the interval.\<close>

lemma sweep_in_window:
  assumes "start \<le> t" "t \<le> start + int ticks * reconcileInterval"
  obtains k where "k \<le> ticks" "t \<le> start + int k * reconcileInterval"
    "start + int k * reconcileInterval < t + reconcileInterval"
proof -
  have pos: "0 < reconcileInterval" by (simp add: reconcileInterval_def)
  define q where "q = (t - start + reconcileInterval - 1) div reconcileInterval"
  have rem: "(t - start + reconcileInterval - 1) = q * reconcileInterval
      + (t - start + reconcileInterval - 1) mod reconcileInterval"
    by (simp add: q_def)
  have "0 \<le> q" using assms(1) pos by (simp add: q_def pos_imp_zdiv_nonneg_iff)
  note bound = pos_mod_bound [OF pos, of "t - start + reconcileInterval - 1"]
    pos_mod_sign [OF pos, of "t - start + reconcileInterval - 1"]
  have "q * reconcileInterval < (int ticks + 1) * reconcileInterval"
    using assms(2) rem bound by (simp add: algebra_simps)
  then have "nat q \<le> ticks" using pos by (simp add: mult_less_cancel_right_pos nat_le_iff)
  with that [of "nat q"] \<open>0 \<le> q\<close> rem bound show thesis by (simp add: algebra_simps)
qed

text \<open>
  C11: a leaked allocation is found within a bounded time. A PodGroup the webhook created of which
  no member is alive any more is deleted by a sweep within one interval of the moment its
  protection ends, as long as the plugin runs until then: at once when its jobids are recorded,
  and after the creation grace when it was never scheduled. It does not matter whether its
  finished pods are still listed, and no informer event is needed.
\<close>
theorem idle_group_reaped:
  assumes "start \<le> due since pg" "due since pg \<le> start + int ticks * reconcileInterval"
    and idle: "\<And>t. due since pg \<le> t \<Longrightarrow> t < due since pg + reconcileInterval \<Longrightarrow> idle (view t) pg"
  shows "\<exists>(t, sent) \<in> set (runReconcileSweeps True view start ticks).
    t < due since pg + reconcileInterval \<and> DeleteGroup (pg_namespace pg) (pg_name pg) \<in> set sent"
proof -
  obtain k where k: "k \<le> ticks" "due since pg \<le> start + int k * reconcileInterval"
    "start + int k * reconcileInterval < due since pg + reconcileInterval"
    using sweep_in_window [OF assms(1,2)] .
  let ?t = "start + int k * reconcileInterval"
  have "DeleteGroup (pg_namespace pg) (pg_name pg) \<in> set (reconcileAll (view ?t) ?t)"
    by (rule reconcileAll_idle [OF idle [OF k(2,3)] k(2)])
  moreover have "(?t, reconcileAll (view ?t) ?t) \<in> set (runReconcileSweeps True view start ticks)"
    using k(1) by (auto simp: runReconcileSweeps_def Let_def simp del: upt_Suc)
  ultimately show ?thesis using k(3) by blast
qed

text \<open>A never scheduled group created at time 50, with the plugin running from 0: gone before 230.\<close>

definition stale_group :: pod_group where
  "stale_group = \<lparr>pg_name = ''g'', pg_namespace = ''ns'', pg_labels = [],
     pg_annotations = [(CreatedByAnnotation, CreatedByValue)], pg_min_count = 1, pg_created = 50\<rparr>"

definition stale_api :: api where
  "stale_api = \<lparr>api_pods = (\<lambda>_. Inr []), api_groups = Inr [stale_group],
     api_group = (\<lambda>_ _. Inr stale_group), api_write = (\<lambda>_. None)\<rparr>"

theorem idle_group_reaped_witness:
  "list_ex (\<lambda>(t, sent). t < 230 \<and> DeleteGroup ''ns'' ''g'' \<in> set sent)
     (runReconcileSweeps True (\<lambda>_. stale_api) 0 5)"
proof -
  have due: "due 0 stale_group = 170" by code_simp
  have "idle stale_api stale_group" by code_simp
  moreover have "pg_namespace stale_group = ''ns''" "pg_name stale_group = ''g''"
    by (simp_all add: stale_group_def)
  ultimately show ?thesis
    using idle_group_reaped [of 0 0 stale_group 5 "\<lambda>_. stale_api"]
    by (simp add: due reconcileInterval_def list_ex_iff)
qed

section \<open>What is never deleted\<close>

text \<open>
  What keeps a PodGroup alive: it cannot be read or it is a user's own, the pods cannot be listed,
  one of its members has not finished, or it is young, has no members and was never scheduled.
\<close>

definition spared :: "api \<Rightarrow> int \<Rightarrow> string \<Rightarrow> string \<Rightarrow> bool" where
  "spared w now ns g \<longleftrightarrow>
     (case api_group w ns g of
        Inl _ \<Rightarrow> True
      | Inr pg \<Rightarrow>
          gstr (pg_annotations pg) CreatedByAnnotation \<noteq> CreatedByValue \<or>
          (case api_pods w ns of
             Inl _ \<Rightarrow> True
           | Inr pods \<Rightarrow>
               list_ex (\<lambda>q. member_of g q \<and> \<not> podTerminal q) pods \<or>
               (parseJobIDs (pg_annotations pg) = None \<and> \<not> list_ex (member_of g) pods \<and>
                now - pg_created pg < reconcileGraceForEmpty)))"

lemma spared_group: "spared w now ns g \<Longrightarrow> reconcileGroup w now ns g = []"
  by (auto simp: spared_def reconcileGroup_def may_reap_def Let_def list_all_iff list_ex_iff filter_empty_conv
      split: sum.splits)

lemma reconcileGroup_names:
  "set (reconcileGroup w now ns g) \<subseteq> {DeleteGroup ns g, DeleteGroup ns (g @ scoutGroupSuffix)}"
  by (auto simp: reconcileGroup_def Let_def split: sum.splits)

lemma spared_requests:
  assumes "spared w now ns g" "\<And>h. g = h @ scoutGroupSuffix \<Longrightarrow> spared w now ns h"
  shows "DeleteGroup ns g \<notin> set (reconcileGroup w now ns' h)"
proof
  assume sent: "DeleteGroup ns g \<in> set (reconcileGroup w now ns' h)"
  with reconcileGroup_names [of w now ns' h] have "ns' = ns" "g = h \<or> g = h @ scoutGroupSuffix" by auto
  with assms sent spared_group [of w now ns h] show False by auto
qed

lemma spared_handlers:
  assumes "\<And>ns' h. DeleteGroup ns g \<notin> set (reconcileGroup w now ns' h)"
  shows "DeleteGroup ns g \<notin> set (snd (handle_notice do_cancel w now f n))"
    and "DeleteGroup ns g \<notin> set (reconcileAll w now)"
proof -
  show "DeleteGroup ns g \<notin> set (reconcileAll w now)"
    using assms by (auto simp: reconcileAll_def split: sum.split)
  show "DeleteGroup ns g \<notin> set (snd (handle_notice do_cancel w now f n))"
    using assms by (cases n) (auto simp: onPodUpdated_def onPodDeleted_def split: option.split)
qed

text \<open>
  C29: a gang is never cleaned up under its own pods. As long as a PodGroup is spared (a user made
  it, one of its members has not finished, or it is new and waits for its pods) and, when it bears
  the name of a scout's group, the gang it is named after is spared too, no report of an informer
  and no sweep asks for its deletion, whatever else the cluster holds.
\<close>
theorem live_group_kept:
  assumes "\<And>t. spared (view t) t ns g" "\<And>t h. g = h @ scoutGroupSuffix \<Longrightarrow> spared (view t) t ns h"
  shows "DeleteGroup ns g \<notin> set (snd (handle_notice do_cancel (view now) now f n)) \<and>
    DeleteGroup ns g \<notin> set (concat (map snd (runReconcileSweeps synced view start ticks)))"
proof -
  have "DeleteGroup ns g \<notin> set (reconcileGroup (view t) t ns' h)" for t ns' h
    using spared_requests [OF assms(1,2)] .
  note kept = spared_handlers [OF this]
  then show ?thesis by (auto simp: runReconcileSweeps_def Let_def)
qed

text \<open>Two gangs of which one has finished; the other has one member that has not.\<close>

definition busy_group :: "string \<Rightarrow> pod_group" where
  "busy_group g = \<lparr>pg_name = g, pg_namespace = ''ns'', pg_labels = [],
     pg_annotations = [(CreatedByAnnotation, CreatedByValue), (JobIDAnnotation, ''7'')], pg_min_count = 1, pg_created = 0\<rparr>"

definition busy_pod :: "string \<Rightarrow> string \<Rightarrow> pod" where
  "busy_pod g phase = blank_pod\<lparr>p_name := g, p_namespace := ''ns'', p_phase := phase, p_group := Some \<lparr>sg_name = Some g\<rparr>\<rparr>"

definition busy_api :: api where
  "busy_api = \<lparr>api_pods = (\<lambda>_. Inr [busy_pod ''a'' ''Succeeded'', busy_pod ''b'' ''Succeeded'', busy_pod ''b'' ''Running'']),
     api_groups = Inr [busy_group ''a'', busy_group ''b''], api_group = (\<lambda>_ g. Inr (busy_group g)), api_write = (\<lambda>_. None)\<rparr>"

theorem live_group_kept_witness:
  "DeleteGroup ''ns'' ''a'' \<in> set (reconcileAll busy_api 1000) \<and>
   DeleteGroup ''ns'' ''b'' \<notin> set (concat (map snd (runReconcileSweeps True (\<lambda>_. busy_api) 0 3)))"
proof -
  have "spared busy_api t ''ns'' ''b''" for t
    by (simp add: spared_def busy_api_def busy_pod_def member_of_def PodGroupName_def podTerminal_def)
  moreover have "''b'' \<noteq> h @ scoutGroupSuffix" for h
    by (cases h) (simp_all add: scoutGroupSuffix_def)
  ultimately have "DeleteGroup ''ns'' ''b'' \<notin> set (concat (map snd (runReconcileSweeps True (\<lambda>_. busy_api) 0 3)))"
    using live_group_kept [of "\<lambda>_. busy_api" "''ns''" "''b''"] by blast
  moreover have "formatJobIDs [7] = ''7''" by code_simp
  then have "parse_jobid_text ''7'' = Some [7]" using parse_formatJobIDs [of "[7]"] by simp
  then have "DeleteGroup ''ns'' ''a'' \<in> set (reconcileAll busy_api 1000)"
    by (simp add: reconcileAll_def reconcileGroup_def may_reap_def busy_api_def busy_group_def busy_pod_def
        member_of_def PodGroupName_def podTerminal_def gstr_def CreatedByAnnotation_def JobIDAnnotation_def
        blank_pod_def nstr_def Let_def parseJobIDs_def)
  ultimately show ?thesis by blast
qed

section \<open>Informers\<close>

text \<open>Every report the informers can make is a step of the system, or changes nothing.\<close>

fun written_notice :: "'m system \<Rightarrow> notice \<Rightarrow> bool" where
  "written_notice s (GroupDeleted obj) =
     (case last_known obj of None \<Rightarrow> True
      | Some pg \<Rightarrow> recorded_annotation s (pg_namespace pg @ ''/'' @ pg_name pg) (pg_annotations pg))"
| "written_notice s (PodUpdated old new) =
     recorded_annotation s (p_namespace new @ ''/'' @ p_name new) (pod_annotations new)"
| "written_notice s (PodDeleted obj) =
     (case last_known obj of None \<Rightarrow> True
      | Some p \<Rightarrow> recorded_annotation s (p_namespace p @ ''/'' @ p_name p) (pod_annotations p))"
| "written_notice s _ = True"

lemma notice_step:
  assumes "written_notice s n"
  shows "fst (handle_notice do_cancel w now (sy_fl s) n) = sy_fl s \<or>
    step do_match do_cancel um s (s\<lparr>sy_fl := fst (handle_notice do_cancel w now (sy_fl s) n)\<rparr>)"
proof (cases n)
  case (GroupDeleted obj)
  with assms show ?thesis by (auto intro: step.group_deleted)
next
  case (PodUpdated old new)
  with assms show ?thesis by (auto intro: step.pod_updated)
next
  case (PodDeleted obj)
  with assms show ?thesis by (auto intro: step.pod_deleted)
qed simp_all

section \<open>Sets as maps\<close>

text \<open>The keys of a set do not depend on the order in which the map is iterated.\<close>

lemma keysOf_order:
  assumes "gomap_ok m" "gomap_ok m'" "map_of m = map_of m'"
  shows "keysOf m = keysOf m'"
proof -
  have "set (map fst m) = set (map fst m')"
    using arg_cong [OF assms(3), of dom] by (simp add: dom_map_of_conv_image_fst)
  then show ?thesis
    using assms(1,2) by (simp add: keysOf_def gomap_ok_def sorted_distinct_set_unique)
qed

end
