(* ===== verification/Scheduler_Concurrent.thy ===== *)
theory Scheduler_Concurrent
  imports Scheduler_System
begin

text \<open>
  The plugin between its locks. Scheduling cycles, binding cycles, informer callbacks and sweeps
  run in goroutines of their own, and a function of \<open>fluence.go\<close> holds a mutex only for a part of
  its work, so here each function is a sequence of sections: what it does under a lock, or one
  write to the API, at a time. Run without interruption they are the functions of \<open>Scheduler\<close>;
  between two sections any other goroutine may run. What every interleaving keeps holds with any
  jobid annotations from before the process started; a teardown that overlaps a retry leaks.
\<close>

section \<open>Sections\<close>

datatype ('s, 'a) sections = Finished 'a | Section "'s \<Rightarrow> 's \<times> ('s, 'a) sections"

primrec run_sections :: "('s, 'a) sections \<Rightarrow> 's \<Rightarrow> 's \<times> 'a" where
  "run_sections (Finished x) = (\<lambda>s. (s, x))"
| "run_sections (Section f) = (\<lambda>s. case map_prod id run_sections (f s) of (s', r) \<Rightarrow> r s')"

lemma run_Section [simp]: "run_sections (Section f) s = run_sections (snd (f s)) (fst (f s))"
  by (simp add: split_beta)

declare run_sections.simps(2) [simp del]

fun next_section :: "('s, 'a) sections \<Rightarrow> 's \<Rightarrow> 's \<times> ('s, 'a) sections" where
  "next_section (Finished x) s = (s, Finished x)"
| "next_section (Section f) s = f s"

text \<open>The shared state is that of the system; a handler without a result has None.\<close>

type_synonym 'm task = "('m system, status option) sections"

definition on_fl :: "('m fluence \<Rightarrow> 'm fluence) \<Rightarrow> 'm system \<Rightarrow> 'm system" where
  "on_fl g s = s\<lparr>sy_fl := g (sy_fl s)\<rparr>"

section \<open>The plugin's functions as sections\<close>

text \<open>\<open>cancelJobids\<close>: each cancel takes the matcher's lock.\<close>

primrec cancel_then ::
    "('m \<Rightarrow> uint64 \<Rightarrow> 'm \<times> string option) \<Rightarrow> uint64 list \<Rightarrow> 'm task \<Rightarrow> 'm task" where
  "cancel_then do_cancel [] c = c"
| "cancel_then do_cancel (j # js) c =
     Section (\<lambda>s. (on_fl (\<lambda>f. f\<lparr>fl_matcher := fst (do_cancel (fl_matcher f) j)\<rparr>) s, cancel_then do_cancel js c))"

text \<open>\<open>matchGroup\<close>: each match takes it too; between two, other groups may be matched or freed.\<close>

fun match_then ::
    "('m \<Rightarrow> string \<Rightarrow> 'm \<times> (string + match_request)) \<Rightarrow> ('m \<Rightarrow> uint64 \<Rightarrow> 'm \<times> string option)
     \<Rightarrow> (string \<Rightarrow> string + allocation) \<Rightarrow> (status + placement \<times> uint64 list \<Rightarrow> 'm task)
     \<Rightarrow> placement \<Rightarrow> uint64 list \<Rightarrow> jobspec list \<Rightarrow> 'm task" where
  "match_then do_match do_cancel um c combined jobids [] =
     (if pl_nodes combined = [] \<and> pl_backend combined = []
      then cancel_then do_cancel jobids (c (Inl (Unschedulable, ''fluxion returned no allocation'')))
      else c (Inr (combined, jobids)))"
| "match_then do_match do_cancel um c combined jobids (js # specs) =
     (case JSON js of
        Inl e \<Rightarrow> cancel_then do_cancel jobids (c (Inl (AsStatus e)))
      | Inr spec \<Rightarrow> Section (\<lambda>s.
          case do_match (fl_matcher (sy_fl s)) spec of
            (m, Inl e) \<Rightarrow> (on_fl (\<lambda>f. f\<lparr>fl_matcher := m\<rparr>) s,
              cancel_then do_cancel jobids (c (Inl (Unschedulable, ''fluxion match failed: '' @ e))))
          | (m, Inr req) \<Rightarrow> (on_fl (\<lambda>f. f\<lparr>fl_matcher := m\<rparr>) s,
              case PlacementFromAllocation um (mr_allocation req) of
                Inl e \<Rightarrow> cancel_then do_cancel (jobids @ [mr_number req]) (c (Inl (AsStatus e)))
              | Inr place \<Rightarrow> match_then do_match do_cancel um c (merge_placement combined place)
                  (jobids @ [mr_number req]) specs)))"

definition store_match :: "string \<Rightarrow> status + placement \<times> uint64 list \<Rightarrow> 'm task" where
  "store_match grp r =
     (case r of
        Inl st \<Rightarrow> Finished (Some st)
      | Inr (place, jobids) \<Rightarrow> Section (\<lambda>s.
          (on_fl (\<lambda>f. f\<lparr>fl_placement := (fl_placement f)(grp \<mapsto> \<lparr>ga_place = place, ga_jobids = jobids\<rparr>)\<rparr>) s,
           Finished (Some (NewStatus Success)))))"

definition PreFilter_sections ::
    "('m \<Rightarrow> string \<Rightarrow> 'm \<times> (string + match_request)) \<Rightarrow> ('m \<Rightarrow> uint64 \<Rightarrow> 'm \<times> string option)
     \<Rightarrow> (string \<Rightarrow> string + allocation) \<Rightarrow> api \<Rightarrow> pod \<Rightarrow> 'm task" where
  "PreFilter_sections do_match do_cancel um w p =
     (let grp = groupKey p
      in Section (\<lambda>s. (s,
           if fl_placement (sy_fl s) grp \<noteq> None then Finished (Some (NewStatus Success))
           else case groupPods w p of
                  Inl e \<Rightarrow> Finished (Some (AsStatus e))
                | Inr pods \<Rightarrow> Section (\<lambda>s. (s,
                    case JobspecsForGroup grp pods (fl_known (sy_fl s)) (sort (excluded_nodes (sy_fl s) grp)) of
                      Inl e \<Rightarrow> Finished (Some (AsStatus (jobspec_error_text e)))
                    | Inr specs \<Rightarrow>
                        match_then do_match do_cancel um (store_match grp) empty_placement [] specs)))))"

definition PostFilter_sections ::
    "('m \<Rightarrow> uint64 \<Rightarrow> 'm \<times> string option) \<Rightarrow> pod \<Rightarrow> (string \<Rightarrow> code option) option \<Rightarrow> 'm task" where
  "PostFilter_sections do_cancel p statuses =
     (let grp = groupKey p
      in Section (\<lambda>s.
           case fl_placement (sy_fl s) grp of
             None \<Rightarrow> (s, Finished (Some (NewStatus Unschedulable)))
           | Some alloc \<Rightarrow>
               (on_fl (\<lambda>f. f\<lparr>
                  fl_excluded := (fl_excluded f)(grp \<mapsto>
                    foldl (\<lambda>ex n. if node_code statuses n = UnschedulableAndUnresolvable then List.insert n ex else ex)
                      (excluded_nodes f grp) (pl_nodes (ga_place alloc))),
                  fl_placement := (fl_placement f)(grp := None)\<rparr>) s,
                cancel_then do_cancel (ga_jobids alloc) (Finished (Some (NewStatus Unschedulable))))))"

text \<open>\<open>PreBind\<close> reads the memo, writes the jobids to the owner, and reads the memo again to stamp.\<close>

definition PreBind_sections :: "api \<Rightarrow> pod \<Rightarrow> 'm task" where
  "PreBind_sections w p =
     (let grp = groupKey p
      in Section (\<lambda>s. (s,
           case fl_placement (sy_fl s) grp of
             None \<Rightarrow> Finished (Some (NewStatus Success))
           | Some alloc \<Rightarrow> Section (\<lambda>s.
               let r = recordJobIDs p (ga_jobids alloc)
               in (record_written s [r] grp,
                   case api_write w r of
                     Some e \<Rightarrow> Finished (Some (AsStatus (''record jobids: '' @ e)))
                   | None \<Rightarrow> Section (\<lambda>s. (s, Finished (Some
                       (case send w (stampBackend (sy_fl s) p) of
                          (_, Some e) \<Rightarrow> AsStatus (''stamp backend annotations: '' @ e)
                        | (_, None) \<Rightarrow> NewStatus Success)))))))))"

text \<open>\<open>cancelGroup\<close>: the memo is read, each jobid cancelled and the memo dropped under a lock each.\<close>

definition drop_memo :: "string \<Rightarrow> 'm task" where
  "drop_memo k = Section (\<lambda>s.
     (on_fl (\<lambda>f. f\<lparr>fl_placement := (fl_placement f)(k := None), fl_excluded := (fl_excluded f)(k := None)\<rparr>) s,
      Finished None))"

definition cancelGroup_sections ::
    "('m \<Rightarrow> uint64 \<Rightarrow> 'm \<times> string option) \<Rightarrow> string \<Rightarrow> (string, string) gomap \<Rightarrow> 'm task" where
  "cancelGroup_sections do_cancel k ann =
     (case parseJobIDs ann of
        Some jobids \<Rightarrow> cancel_then do_cancel jobids (drop_memo k)
      | None \<Rightarrow> Section (\<lambda>s. (s,
          case fl_placement (sy_fl s) k of
            None \<Rightarrow> Finished None
          | Some alloc \<Rightarrow> cancel_then do_cancel (ga_jobids alloc) (drop_memo k))))"

section \<open>Without interruption\<close>

lemma on_fl_simps [simp]:
  "sy_fl (on_fl g s) = g (sy_fl s)" "sy_written (on_fl g s) = sy_written s"
  "on_fl g (on_fl h s) = on_fl (g \<circ> h) s"
  by (simp_all add: on_fl_def)

lemma run_cancel_then [simp]:
  "run_sections (cancel_then do_cancel js c) s =
     run_sections c (on_fl (\<lambda>f. f\<lparr>fl_matcher := cancelJobids do_cancel (fl_matcher f) js\<rparr>) s)"
  by (induction js arbitrary: s) (simp_all add: on_fl_def)

lemma run_match_then:
  "run_sections (match_then do_match do_cancel um c pl ids specs) s =
     (case match_specs do_match do_cancel um (fl_matcher (sy_fl s)) pl ids specs of
        (m, Inl st) \<Rightarrow> run_sections (c (Inl st)) (on_fl (\<lambda>f. f\<lparr>fl_matcher := m\<rparr>) s)
      | (m, Inr (pl', ids')) \<Rightarrow>
          if pl_nodes pl' = [] \<and> pl_backend pl' = []
          then run_sections (c (Inl (Unschedulable, ''fluxion returned no allocation'')))
            (on_fl (\<lambda>f. f\<lparr>fl_matcher := cancelJobids do_cancel m ids'\<rparr>) s)
          else run_sections (c (Inr (pl', ids'))) (on_fl (\<lambda>f. f\<lparr>fl_matcher := m\<rparr>) s))"
  by (induction specs arbitrary: pl ids s)
    (auto simp: on_fl_def JSON_def split: prod.splits sum.splits)

lemma run_PreFilter:
  "run_sections (PreFilter_sections do_match do_cancel um w p) s =
     (s\<lparr>sy_fl := fst (PreFilter do_match do_cancel um w (sy_fl s) p)\<rparr>,
      Some (snd (PreFilter do_match do_cancel um w (sy_fl s) p)))"
  by (auto simp: PreFilter_sections_def PreFilter_def Let_def run_match_then store_match_def matchGroup_def on_fl_def
      split: sum.splits prod.splits if_splits)

lemma run_PostFilter:
  "run_sections (PostFilter_sections do_cancel p statuses) s =
     (s\<lparr>sy_fl := fst (PostFilter do_cancel (sy_fl s) p statuses)\<rparr>,
      Some (snd (PostFilter do_cancel (sy_fl s) p statuses)))"
  by (auto simp: PostFilter_sections_def PostFilter_def Let_def on_fl_def split: option.splits)

lemma run_cancelGroup:
  "run_sections (cancelGroup_sections do_cancel k ann) s =
     (s\<lparr>sy_fl := cancelGroup do_cancel (sy_fl s) k ann\<rparr>, None)"
  by (auto simp: cancelGroup_sections_def cancelGroup_def drop_memo_def on_fl_def split: option.splits)

text \<open>Stamping writes no jobids, so only the first write of \<open>PreBind\<close> is recorded.\<close>

lemma record_written_stamp:
  assumes "set rs \<subseteq> set (stampBackend f p)"
  shows "record_written s (r # rs) k = record_written s [r] k"
proof -
  have "jobid_texts r = []" if "r \<in> set rs" for r
    using that assms json_jobid_not_backend by (fastforce simp: stampBackend_def split: option.splits if_splits)
  then have "concat (map jobid_texts (r # rs)) = concat (map jobid_texts [r])" by simp
  then show ?thesis by (simp only: record_written_def)
qed

lemma record_written_nothing: "record_written s [] k = s"
  by (simp add: record_written_def)

lemma run_PreBind:
  "run_sections (PreBind_sections w p) s =
     (record_written s (fst (PreBind w (sy_fl s) p)) (groupKey p), Some (snd (PreBind w (sy_fl s) p)))"
proof (cases "fl_placement (sy_fl s) (groupKey p)")
  case None
  then show ?thesis by (simp add: PreBind_sections_def PreBind_def Let_def record_written_nothing)
next
  case (Some alloc)
  let ?r = "recordJobIDs p (ga_jobids alloc)"
  have fl: "sy_fl (record_written s [?r] (groupKey p)) = sy_fl s" by (simp add: record_written_def)
  show ?thesis
  proof (cases "api_write w ?r")
    case None
    obtain sent e where sent: "send w (stampBackend (sy_fl s) p) = (sent, e)" by fastforce
    then have "record_written s (?r # sent) (groupKey p) = record_written s [?r] (groupKey p)"
      using send_subset [of w "stampBackend (sy_fl s) p"] by (intro record_written_stamp) simp
    with None Some sent fl show ?thesis
      by (cases e) (simp_all add: PreBind_sections_def PreBind_def Let_def)
  qed (use Some in \<open>simp add: PreBind_sections_def PreBind_def Let_def\<close>)
qed

text \<open>
  The functions of the plugin, modelled lock by lock, are the ones modelled as a whole when
  nothing runs between their sections: the same state, the same memo, the same jobids written,
  the same status.
\<close>
lemma sections_compose:
  "run_sections (PreFilter_sections do_match do_cancel um w p) s =
     (s\<lparr>sy_fl := fst (PreFilter do_match do_cancel um w (sy_fl s) p)\<rparr>,
      Some (snd (PreFilter do_match do_cancel um w (sy_fl s) p))) \<and>
   run_sections (PostFilter_sections do_cancel p statuses) s =
     (s\<lparr>sy_fl := fst (PostFilter do_cancel (sy_fl s) p statuses)\<rparr>,
      Some (snd (PostFilter do_cancel (sy_fl s) p statuses))) \<and>
   run_sections (PreBind_sections w p) s =
     (record_written s (fst (PreBind w (sy_fl s) p)) (groupKey p), Some (snd (PreBind w (sy_fl s) p))) \<and>
   run_sections (cancelGroup_sections do_cancel k ann) s =
     (s\<lparr>sy_fl := cancelGroup do_cancel (sy_fl s) k ann\<rparr>, None)"
  by (simp add: run_PreFilter run_PostFilter run_PreBind run_cancelGroup)

section \<open>Interleaving\<close>

text \<open>Goroutines in progress, each with the group key it works for.\<close>

record 'm plugin_run =
  pr_system :: "'m system"
  pr_tasks :: "(string \<times> 'm task) list"

definition begin_task :: "string \<Rightarrow> 'm task \<Rightarrow> 'm plugin_run \<Rightarrow> 'm plugin_run" where
  "begin_task k c r = r\<lparr>pr_tasks := pr_tasks r @ [(k, c)]\<rparr>"

definition run_task :: "nat \<Rightarrow> 'm plugin_run \<Rightarrow> 'm plugin_run" where
  "run_task i r =
     (case pr_tasks r ! i of (k, c) \<Rightarrow>
        r\<lparr>pr_system := fst (next_section c (pr_system r)),
          pr_tasks := (pr_tasks r)[i := (k, snd (next_section c (pr_system r)))]\<rparr>)"

text \<open>
  A scheduling or binding cycle begins, an owner is torn down with an annotation it has had by
  then, from this process or from before, or a goroutine runs its next section.
\<close>

inductive run_step ::
    "('m \<Rightarrow> string \<Rightarrow> 'm \<times> (string + match_request)) \<Rightarrow> ('m \<Rightarrow> uint64 \<Rightarrow> 'm \<times> string option)
     \<Rightarrow> (string \<Rightarrow> string + allocation) \<Rightarrow> 'm plugin_run \<Rightarrow> 'm plugin_run \<Rightarrow> bool"
  for do_match do_cancel um where
  filters: "run_step do_match do_cancel um r
     (begin_task (groupKey p) (PreFilter_sections do_match do_cancel um w p) r)"
| fails: "run_step do_match do_cancel um r
     (begin_task (groupKey p) (PostFilter_sections do_cancel p statuses) r)"
| binds: "run_step do_match do_cancel um r (begin_task (groupKey p) (PreBind_sections w p) r)"
| ends: "recorded_annotation (pr_system r) k ann \<Longrightarrow>
     run_step do_match do_cancel um r (begin_task k (cancelGroup_sections do_cancel k ann) r)"
| runs: "i < length (pr_tasks r) \<Longrightarrow> run_step do_match do_cancel um r (run_task i r)"

inductive interleaved ::
    "('m \<Rightarrow> string \<Rightarrow> 'm \<times> (string + match_request)) \<Rightarrow> ('m \<Rightarrow> uint64 \<Rightarrow> 'm \<times> string option)
     \<Rightarrow> (string \<Rightarrow> string + allocation) \<Rightarrow> 'm system \<Rightarrow> 'm plugin_run \<Rightarrow> bool"
  for do_match do_cancel um s0 where
  idle: "initial s0 \<Longrightarrow> interleaved do_match do_cancel um s0 \<lparr>pr_system = s0, pr_tasks = []\<rparr>"
| steps: "interleaved do_match do_cancel um s0 r \<Longrightarrow> run_step do_match do_cancel um r r' \<Longrightarrow>
     interleaved do_match do_cancel um s0 r'"

section \<open>Ownership\<close>

text \<open>
  As in \<open>owned\<close>, every jobid handed out belongs to a group for good, but between the sections of
  a teardown the memo may name a jobid that has been freed.
\<close>

definition own :: "(uint64 \<rightharpoonup> string) \<Rightarrow> string \<Rightarrow> uint64 set" where
  "own owner k = {j. owner j = Some k}"

definition claims :: "('m \<Rightarrow> uint64 set) \<Rightarrow> (string \<Rightarrow> uint64 set) \<Rightarrow> (uint64 \<rightharpoonup> string) \<Rightarrow> 'm system \<Rightarrow> bool" where
  "claims issued left owner s \<longleftrightarrow>
     dom owner \<subseteq> issued (fl_matcher (sy_fl s)) \<and>
     (\<forall>k. set (memo_ids (sy_fl s) k) \<subseteq> own owner k \<and> distinct (memo_ids (sy_fl s) k)) \<and>
     (\<forall>k v ids. v \<in> set (sy_written s k) \<longrightarrow> parse_jobid_text v = Some ids \<longrightarrow>
       set ids \<subseteq> own owner k \<union> left k)"

lemma own_mono: "owner \<subseteq>\<^sub>m owner' \<Longrightarrow> own owner k \<subseteq> own owner' k"
  by (force simp: own_def map_le_def)

lemma own_disjoint: "k \<noteq> k' \<Longrightarrow> own owner k \<inter> own owner k' = {}"
  by (auto simp: own_def)

text \<open>
  A section of a goroutine of a group leaves what other groups have as it is, but for the jobids
  that the annotations of the group's owner named before the process started.
\<close>

definition only_own ::
    "('m \<Rightarrow> uint64 set) \<Rightarrow> (string \<Rightarrow> uint64 set) \<Rightarrow> string \<Rightarrow> (uint64 \<rightharpoonup> string)
     \<Rightarrow> 'm system \<Rightarrow> 'm system \<Rightarrow> bool" where
  "only_own held left k owner s s' \<longleftrightarrow>
     (\<forall>k'. k' \<noteq> k \<longrightarrow> fl_placement (sy_fl s') k' = fl_placement (sy_fl s) k') \<and>
     held (fl_matcher (sy_fl s)) - (own owner k \<union> left k) \<subseteq> held (fl_matcher (sy_fl s'))"

text \<open>
  What is left of a goroutine is safe when each of its sections keeps the claims and touches only
  what its group owns, whatever other goroutines have claimed since.
\<close>

inductive safe ::
    "('m \<Rightarrow> uint64 set) \<Rightarrow> ('m \<Rightarrow> uint64 set) \<Rightarrow> (string \<Rightarrow> uint64 set) \<Rightarrow> string
     \<Rightarrow> (uint64 \<rightharpoonup> string) \<Rightarrow> 'm task \<Rightarrow> bool"
  for held issued left k where
  finished: "safe held issued left k owner (Finished x)"
| sect: "(\<And>owner' s. owner \<subseteq>\<^sub>m owner' \<Longrightarrow> claims issued left owner' s \<Longrightarrow>
       \<exists>owner''. owner' \<subseteq>\<^sub>m owner'' \<and> claims issued left owner'' (fst (f s)) \<and>
         only_own held left k owner'' s (fst (f s)) \<and> safe held issued left k owner'' (snd (f s))) \<Longrightarrow>
     safe held issued left k owner (Section f)"

inductive_cases safe_SectionE: "safe held issued left k owner (Section f)"

lemma safe_mono: "safe held issued left k owner c \<Longrightarrow> owner \<subseteq>\<^sub>m owner' \<Longrightarrow> safe held issued left k owner' c"
proof (cases c)
  case (Section f)
  assume "safe held issued left k owner c" and le: "owner \<subseteq>\<^sub>m owner'"
  then have step: "\<And>owner' s. owner \<subseteq>\<^sub>m owner' \<Longrightarrow> claims issued left owner' s \<Longrightarrow>
      \<exists>owner''. owner' \<subseteq>\<^sub>m owner'' \<and> claims issued left owner'' (fst (f s)) \<and>
        only_own held left k owner'' s (fst (f s)) \<and> safe held issued left k owner'' (snd (f s))"
    unfolding Section by (elim safe_SectionE) blast
  show ?thesis
    unfolding Section
  proof (rule safe.sect)
    fix owner2 s
    assume "owner' \<subseteq>\<^sub>m owner2" "claims issued left owner2 s"
    from step [OF map_le_trans [OF le this(1)] this(2)]
    show "\<exists>owner''. owner2 \<subseteq>\<^sub>m owner'' \<and> claims issued left owner'' (fst (f s)) \<and>
        only_own held left k owner'' s (fst (f s)) \<and> safe held issued left k owner'' (snd (f s))" .
  qed
qed (simp add: safe.finished)

text \<open>The usual section claims nothing new.\<close>

lemma safe_plain:
  assumes "\<And>owner' s. owner \<subseteq>\<^sub>m owner' \<Longrightarrow> claims issued left owner' s \<Longrightarrow>
    claims issued left owner' (fst (f s)) \<and> only_own held left k owner' s (fst (f s)) \<and> safe held issued left k owner' (snd (f s))"
  shows "safe held issued left k owner (Section f)"
proof (rule safe.sect)
  fix owner' s
  assume "owner \<subseteq>\<^sub>m owner'" "claims issued left owner' s"
  from assms [OF this]
  show "\<exists>owner''. owner' \<subseteq>\<^sub>m owner'' \<and> claims issued left owner'' (fst (f s)) \<and>
      only_own held left k owner'' s (fst (f s)) \<and> safe held issued left k owner'' (snd (f s))"
    by (intro exI [of _ owner'] conjI map_le_refl) simp_all
qed

lemma only_own_refl: "only_own held left k owner s s"
  by (simp add: only_own_def)

text \<open>Reading the shared state is safe.\<close>

lemma safe_read:
  assumes "\<And>owner' s. owner \<subseteq>\<^sub>m owner' \<Longrightarrow> claims issued left owner' s \<Longrightarrow> safe held issued left k owner' (g s)"
  shows "safe held issued left k owner (Section (\<lambda>s. (s, g s)))"
  by (rule safe_plain) (simp add: assms only_own_refl)

text \<open>What \<open>claims\<close> says of a memo, and what leaves it as it is.\<close>

lemma claimsD:
  assumes "claims issued left owner s"
  shows "dom owner \<subseteq> issued (fl_matcher (sy_fl s))" "set (memo_ids (sy_fl s) k) \<subseteq> own owner k"
    "distinct (memo_ids (sy_fl s) k)"
    "v \<in> set (sy_written s k) \<Longrightarrow> parse_jobid_text v = Some ids \<Longrightarrow>
      set ids \<subseteq> own owner k \<union> left k"
  using assms unfolding claims_def by blast+

lemma claimsI:
  assumes "dom owner \<subseteq> issued (fl_matcher (sy_fl s))" "\<And>k. set (memo_ids (sy_fl s) k) \<subseteq> own owner k"
    "\<And>k. distinct (memo_ids (sy_fl s) k)"
    "\<And>k v ids. v \<in> set (sy_written s k) \<Longrightarrow> parse_jobid_text v = Some ids \<Longrightarrow>
      set ids \<subseteq> own owner k \<union> left k"
  shows "claims issued left owner s"
  using assms unfolding claims_def by blast

lemma claims_memo:
  assumes "claims issued left owner s" "fl_placement (sy_fl s) k = Some a"
  shows "set (ga_jobids a) \<subseteq> own owner k"
  using claimsD(2) [OF assms(1), of k] assms(2) by (simp add: memo_ids_def)

lemma claims_written:
  assumes "claims issued left owner s" "recorded_annotation s k ann" "parseJobIDs ann = Some ids"
  shows "set ids \<subseteq> own owner k \<union> left k"
proof -
  have "gstr ann JobIDAnnotation \<in> set (sy_written s k)" "parse_jobid_text (gstr ann JobIDAnnotation) = Some ids"
    using assms(2,3) by (auto simp: recorded_annotation_def parseJobIDs_def)
  then show ?thesis by (rule claimsD(4) [OF assms(1)])
qed

lemma claims_on_fl:
  assumes "claims issued left owner s" "issued (fl_matcher (g (sy_fl s))) = issued (fl_matcher (sy_fl s))"
    and "\<And>k. memo_ids (g (sy_fl s)) k = memo_ids (sy_fl s) k \<or> memo_ids (g (sy_fl s)) k = []"
  shows "claims issued left owner (on_fl g s)"
proof (rule claimsI)
  fix k
  show "set (memo_ids (sy_fl (on_fl g s)) k) \<subseteq> own owner k" "distinct (memo_ids (sy_fl (on_fl g s)) k)"
    using claimsD(2,3) [OF assms(1), of k] assms(3) [of k] by auto
qed (use claimsD(1,4) [OF assms(1)] assms(2) in simp_all)

text \<open>The invariant of the goroutines together.\<close>

definition all_safe ::
    "('m \<Rightarrow> uint64 set) \<Rightarrow> ('m \<Rightarrow> uint64 set) \<Rightarrow> (string \<Rightarrow> uint64 set) \<Rightarrow> (uint64 \<rightharpoonup> string)
     \<Rightarrow> 'm plugin_run \<Rightarrow> bool" where
  "all_safe held issued left owner r \<longleftrightarrow> claims issued left owner (pr_system r) \<and>
     (\<forall>(k, c) \<in> set (pr_tasks r). safe held issued left k owner c)"

lemma safe_drop_memo: "safe held issued left k owner (drop_memo k)"
  unfolding drop_memo_def
  by (rule safe_plain) (auto intro!: claims_on_fl safe.finished simp: only_own_def)

context matcher
begin

lemma safe_cancel_then:
  assumes "set js \<subseteq> own owner k \<union> left k" "safe held issued left k owner c"
  shows "safe held issued left k owner (cancel_then do_cancel js c)"
  using assms
proof (induction js arbitrary: owner)
  case (Cons j js)
  show ?case
    unfolding cancel_then.simps
  proof (rule safe_plain, unfold fst_conv snd_conv, intro conjI)
    fix owner' s
    assume le: "owner \<subseteq>\<^sub>m owner'" and claims: "claims issued left owner' s"
    let ?g = "\<lambda>f. f\<lparr>fl_matcher := fst (do_cancel (fl_matcher f) j)\<rparr>"
    show "claims issued left owner' (on_fl ?g s)" by (rule claims_on_fl [OF claims]) simp_all
    have "j \<in> own owner' k \<union> left k" using Cons.prems(1) own_mono [OF le, of k] by auto
    then show "only_own held left k owner' s (on_fl ?g s)"
      using cancel_keeps [of "fl_matcher (sy_fl s)" j] by (auto simp: only_own_def)
    show "safe held issued left k owner' (cancel_then do_cancel js c)"
      using Cons.prems own_mono [OF le, of k] by (intro Cons.IH safe_mono [OF _ le]) auto
  qed
qed simp

text \<open>A match claims its jobid, which nobody has had, for the group.\<close>

lemma claims_match:
  assumes "claims issued left owner s" "do_match (fl_matcher (sy_fl s)) spec = (m, Inr r)"
  shows "owner \<subseteq>\<^sub>m owner(mr_number r \<mapsto> k)" "claims issued left (owner(mr_number r \<mapsto> k)) (on_fl (\<lambda>f. f\<lparr>fl_matcher := m\<rparr>) s)"
    "owner (mr_number r) = None"
proof -
  have fresh: "mr_number r \<notin> dom owner" and grown: "issued m = insert (mr_number r) (issued (fl_matcher (sy_fl s)))"
    using match_ok [OF assms(2)] assms(1) by (auto simp: claims_def)
  then show "owner (mr_number r) = None" by auto
  then have le: "owner \<subseteq>\<^sub>m owner(mr_number r \<mapsto> k)" by (auto simp: map_le_def)
  then show "owner \<subseteq>\<^sub>m owner(mr_number r \<mapsto> k)" .
  show "claims issued left (owner(mr_number r \<mapsto> k)) (on_fl (\<lambda>f. f\<lparr>fl_matcher := m\<rparr>) s)"
  proof (rule claimsI)
    fix k'
    show "set (memo_ids (sy_fl (on_fl (\<lambda>f. f\<lparr>fl_matcher := m\<rparr>) s)) k') \<subseteq> own (owner(mr_number r \<mapsto> k)) k'"
      using claimsD(2) [OF assms(1), of k'] own_mono [OF le, of k'] by auto
    show "distinct (memo_ids (sy_fl (on_fl (\<lambda>f. f\<lparr>fl_matcher := m\<rparr>) s)) k')"
      using claimsD(3) [OF assms(1)] by simp
    fix v ids
    assume "v \<in> set (sy_written (on_fl (\<lambda>f. f\<lparr>fl_matcher := m\<rparr>) s) k')" "parse_jobid_text v = Some ids"
    then show "set ids \<subseteq> own (owner(mr_number r \<mapsto> k)) k' \<union> left k'"
      using claimsD(4) [OF assms(1), of v k' ids] own_mono [OF le, of k'] by auto
  qed (use claimsD(1) [OF assms(1)] grown in auto)
qed

lemma claims_no_match:
  "claims issued left owner s \<Longrightarrow> do_match (fl_matcher (sy_fl s)) spec = (m, Inl e) \<Longrightarrow>
   claims issued left owner (on_fl (\<lambda>f. f\<lparr>fl_matcher := m\<rparr>) s)"
  by (rule claims_on_fl) (use match_failed in auto)

lemma safe_match_then:
  assumes "set ids \<subseteq> own owner k" "distinct ids"
    and "\<And>owner' st. owner \<subseteq>\<^sub>m owner' \<Longrightarrow> safe held issued left k owner' (c (Inl st))"
    and "\<And>owner' pl' ids'. owner \<subseteq>\<^sub>m owner' \<Longrightarrow> set ids' \<subseteq> own owner' k \<Longrightarrow> distinct ids' \<Longrightarrow>
      safe held issued left k owner' (c (Inr (pl', ids')))"
  shows "safe held issued left k owner (match_then do_match do_cancel um c pl ids specs)"
  using assms
proof (induction specs arbitrary: owner pl ids)
  case Nil
  then show ?case by (auto intro!: safe_cancel_then)
next
  case (Cons js specs)
  obtain spec where spec: "JSON js = Inr spec" by (simp add: JSON_def)
  show ?case
    unfolding match_then.simps spec sum.case
  proof (rule safe.sect)
    fix owner1 s
    assume le: "owner \<subseteq>\<^sub>m owner1" and claims: "claims issued left owner1 s"
    note ids = subset_trans [OF Cons.prems(1) own_mono [OF le]]
    note fails = Cons.prems(3) and succeeds = Cons.prems(4)
    obtain m res where m: "do_match (fl_matcher (sy_fl s)) spec = (m, res)" by fastforce
    let ?s = "on_fl (\<lambda>f. f\<lparr>fl_matcher := m\<rparr>) s"
    have only: "only_own held left k owner' s ?s" for owner'
      using match_ok [of "fl_matcher (sy_fl s)" spec m] match_failed [of "fl_matcher (sy_fl s)" spec m] m
      by (cases res) (auto simp: only_own_def)
    let ?goal = "\<lambda>p. \<exists>owner2. owner1 \<subseteq>\<^sub>m owner2 \<and> claims issued left owner2 (fst p) \<and>
      only_own held left k owner2 s (fst p) \<and> safe held issued left k owner2 (snd p)"
    show "?goal (case do_match (fl_matcher (sy_fl s)) spec of
          (m, Inl e) \<Rightarrow> (on_fl (\<lambda>f. f\<lparr>fl_matcher := m\<rparr>) s,
            cancel_then do_cancel ids (c (Inl (Unschedulable, ''fluxion match failed: '' @ e))))
        | (m, Inr req) \<Rightarrow> (on_fl (\<lambda>f. f\<lparr>fl_matcher := m\<rparr>) s,
            case PlacementFromAllocation um (mr_allocation req) of
              Inl e \<Rightarrow> cancel_then do_cancel (ids @ [mr_number req]) (c (Inl (AsStatus e)))
            | Inr place \<Rightarrow> match_then do_match do_cancel um c (merge_placement pl place)
                (ids @ [mr_number req]) specs))"
    proof (cases res)
      case (Inl e)
      have "safe held issued left k owner1 (cancel_then do_cancel ids (c (Inl (Unschedulable, ''fluxion match failed: '' @ e))))"
        by (rule safe_cancel_then [OF le_supI1 [OF ids] fails [OF le]])
      with claims_no_match [OF claims m [unfolded Inl]] only [of owner1] show ?thesis
        unfolding m Inl by (intro exI [of _ owner1] conjI map_le_refl) simp_all
    next
      case (Inr req)
      let ?owner = "owner1(mr_number req \<mapsto> k)"
      note new = claims_match(1,2) [OF claims m [unfolded Inr], where k = k] claims_match(3) [OF claims m [unfolded Inr]]
      have le2: "owner \<subseteq>\<^sub>m ?owner" by (rule map_le_trans [OF le new(1)])
      have ids2: "set (ids @ [mr_number req]) \<subseteq> own ?owner k"
        using subset_trans [OF ids own_mono [OF new(1)]] by (auto simp: own_def)
      have "mr_number req \<notin> set ids" using ids new(3) by (auto simp: own_def)
      then have distinct: "distinct (ids @ [mr_number req])" using Cons.prems(2) by simp
      have "safe held issued left k ?owner
          (case PlacementFromAllocation um (mr_allocation req) of
             Inl e \<Rightarrow> cancel_then do_cancel (ids @ [mr_number req]) (c (Inl (AsStatus e)))
           | Inr place \<Rightarrow> match_then do_match do_cancel um c (merge_placement pl place)
               (ids @ [mr_number req]) specs)"
      proof (cases "PlacementFromAllocation um (mr_allocation req)")
        case (Inl e)
        show ?thesis unfolding Inl sum.case by (rule safe_cancel_then [OF le_supI1 [OF ids2] fails [OF le2]])
      next
        case (Inr place)
        have "safe held issued left k ?owner (match_then do_match do_cancel um c (merge_placement pl place)
            (ids @ [mr_number req]) specs)"
          by (rule Cons.IH [OF ids2 distinct]) (rule fails succeeds, erule map_le_trans [OF le2], assumption?)+
        then show ?thesis unfolding Inr sum.case .
      qed
      with new(1,2) only [of ?owner] show ?thesis
        unfolding m Inr by (intro exI [of _ ?owner] conjI) simp_all
    qed
  qed
qed

lemma safe_PreFilter:
  "safe held issued left (groupKey p) owner (PreFilter_sections do_match do_cancel um w p)"
proof -
  have store: "safe held issued left k owner' (store_match k r)"
    if "case r of Inl _ \<Rightarrow> True | Inr (place, ids) \<Rightarrow> set ids \<subseteq> own owner' k \<and> distinct ids" for k owner' r
  proof (cases r)
    case (Inr pi)
    obtain place ids where pi: "pi = (place, ids)" by fastforce
    show ?thesis
      unfolding store_match_def Inr pi sum.case prod.case
    proof (rule safe_plain, unfold fst_conv snd_conv, intro conjI)
      fix owner2 s
      assume le: "owner' \<subseteq>\<^sub>m owner2" and claims: "claims issued left owner2 s"
      have "set ids \<subseteq> own owner2 k" "distinct ids" using that own_mono [OF le, of k] by (auto simp: Inr pi)
      with claims show "claims issued left owner2
          (on_fl (\<lambda>f. f\<lparr>fl_placement := (fl_placement f)(k \<mapsto> \<lparr>ga_place = place, ga_jobids = ids\<rparr>)\<rparr>) s)"
        by (auto simp: claims_def on_fl_def)
    qed (auto simp: only_own_def intro: safe.finished)
  qed (simp add: store_match_def safe.finished)
  show ?thesis
    unfolding PreFilter_sections_def Let_def
    by (rule safe_read)
      (auto split: sum.split intro!: safe.finished safe_read safe_match_then store)
qed

lemma safe_PostFilter: "safe held issued left (groupKey p) owner (PostFilter_sections do_cancel p statuses)"
  unfolding PostFilter_sections_def Let_def
  by (rule safe_plain)
    (auto split: option.split simp: only_own_refl only_own_def memo_ids_def
      intro!: claims_on_fl safe.finished safe_cancel_then dest: subsetD [OF claims_memo])

lemma safe_cancelGroup:
  assumes "claims issued left owner s" "recorded_annotation s k ann"
  shows "safe held issued left k owner (cancelGroup_sections do_cancel k ann)"
  unfolding cancelGroup_sections_def
  by (auto split: option.split intro!: safe_cancel_then safe_read safe_drop_memo safe.finished
      dest: subsetD [OF claims_memo] subsetD [OF claims_written [OF assms]])

lemma safe_PreBind: "safe held issued left (groupKey p) owner (PreBind_sections w p)"
proof -
  have writes: "safe held issued left k owner'
      (Section (\<lambda>s. (record_written s [recordJobIDs p ids] k, c s)))"
    if "set ids \<subseteq> own owner' k" "\<And>owner2 s. safe held issued left k owner2 (c s)" for k owner' ids c
  proof (rule safe_plain, unfold fst_conv snd_conv, intro conjI)
    fix owner2 s
    assume le: "owner' \<subseteq>\<^sub>m owner2" and claims: "claims issued left owner2 s"
    have texts: "jobid_texts (recordJobIDs p ids) = [formatJobIDs ids]"
      by (simp add: recordJobIDs_def Let_def)
    have "set ids' \<subseteq> own owner2 k" if "parse_jobid_text (formatJobIDs ids) = Some ids'" for ids'
      using that \<open>set ids \<subseteq> own owner' k\<close> own_mono [OF le, of k] by (auto simp: parse_formatJobIDs split: if_splits)
    with claims show "claims issued left owner2 (record_written s [recordJobIDs p ids] k)"
      unfolding claims_def by (auto simp: record_written_def texts)
    show "only_own held left k owner2 s (record_written s [recordJobIDs p ids] k)"
      by (simp add: only_own_def record_written_def)
  qed (rule that)
  show ?thesis
    unfolding PreBind_sections_def Let_def
    by (auto split: option.split intro!: safe_read writes safe.finished dest: subsetD [OF claims_memo])
qed

lemma all_safe_begin:
  "all_safe held issued left owner r \<Longrightarrow> safe held issued left k owner c \<Longrightarrow> all_safe held issued left owner (begin_task k c r)"
  by (auto simp: all_safe_def begin_task_def)

lemma next_section_safe:
  assumes "claims issued left owner s" "safe held issued left k owner c"
  obtains owner' where "owner \<subseteq>\<^sub>m owner'" "claims issued left owner' (fst (next_section c s))"
    "only_own held left k owner' s (fst (next_section c s))" "safe held issued left k owner' (snd (next_section c s))"
proof (cases c)
  case (Finished x)
  with assms that [OF map_le_refl] show thesis by (simp add: only_own_refl)
next
  case (Section f)
  from assms(2) [unfolded Section] obtain owner' where "owner \<subseteq>\<^sub>m owner'" "claims issued left owner' (fst (f s))"
    "only_own held left k owner' s (fst (f s))" "safe held issued left k owner' (snd (f s))"
    using assms(1) map_le_refl by (elim safe_SectionE) blast
  with that Section show thesis by simp
qed

lemma all_safe_run:
  assumes "all_safe held issued left owner r" "i < length (pr_tasks r)" "pr_tasks r ! i = (k, c)"
  obtains owner' where "all_safe held issued left owner' (run_task i r)" "only_own held left k owner' (pr_system r) (pr_system (run_task i r))"
proof -
  have "(k, c) \<in> set (pr_tasks r)" using nth_mem [OF assms(2)] assms(3) by simp
  with assms(1) have "claims issued left owner (pr_system r)" "safe held issued left k owner c"
    by (auto simp: all_safe_def)
  then obtain owner' where le: "owner \<subseteq>\<^sub>m owner'" and step: "claims issued left owner' (fst (next_section c (pr_system r)))"
    "only_own held left k owner' (pr_system r) (fst (next_section c (pr_system r)))"
    "safe held issued left k owner' (snd (next_section c (pr_system r)))"
    by (rule next_section_safe)
  have "safe held issued left k2 owner' c2" if "(k2, c2) \<in> set (pr_tasks (run_task i r))" for k2 c2
  proof -
    from that assms(3) have "(k2, c2) \<in> insert (k, snd (next_section c (pr_system r))) (set (pr_tasks r))"
      using set_update_subset_insert [of "pr_tasks r" i] by (auto simp: run_task_def)
    moreover have "safe held issued left k2 owner c2 \<Longrightarrow> safe held issued left k2 owner' c2" by (rule safe_mono [OF _ le])
    ultimately show ?thesis using step(3) assms(1) by (auto simp: all_safe_def)
  qed
  with step(1) assms(3) have "all_safe held issued left owner' (run_task i r)" by (auto simp: all_safe_def run_task_def)
  with that step(2) assms(3) show thesis by (simp add: run_task_def)
qed

lemma interleaved_safe: "interleaved do_match do_cancel um s0 r \<Longrightarrow> 
   \<exists>owner. all_safe held issued (\<lambda>k. set (recorded_ids s0 k)) owner r"
proof (induction rule: interleaved.induct)
  case idle
  then have "claims issued (\<lambda>k. set (recorded_ids s0 k)) Map.empty s0"
    by (auto simp: initial_def memo_ids_def recorded_ids_def intro!: claimsI bexI split: option.splits)
  then have "all_safe held issued (\<lambda>k. set (recorded_ids s0 k)) Map.empty \<lparr>pr_system = s0, pr_tasks = []\<rparr>"
    by (simp add: all_safe_def)
  then show ?case by blast
next
  case (steps r r')
  then obtain owner where own: "all_safe held issued (\<lambda>k. set (recorded_ids s0 k)) owner r" by blast
  from steps(2) show ?case
  proof cases
    case (filters p w)
    with all_safe_begin [OF own safe_PreFilter] show ?thesis by blast
  next
    case (fails p statuses)
    with all_safe_begin [OF own safe_PostFilter] show ?thesis by blast
  next
    case (binds p w)
    with all_safe_begin [OF own safe_PreBind] show ?thesis by blast
  next
    case (ends k ann)
    from own have "claims issued (\<lambda>k. set (recorded_ids s0 k)) owner (pr_system r)" by (simp add: all_safe_def)
    with ends all_safe_begin [OF own safe_cancelGroup] show ?thesis by blast
  next
    case (runs i)
    obtain k c where "pr_tasks r ! i = (k, c)" by fastforce
    with runs all_safe_run [OF own] show ?thesis by blast
  qed
qed

end

section \<open>Properties\<close>

text \<open>
  C4: a goroutine that works for one group cannot harm another, but through an annotation from
  before the process started. However scheduling and binding cycles, teardowns and
  their retries interleave, section by section, even when cancels fail, and whatever jobids the
  owners' annotations name from before the process started: a goroutine that works for one group
  never changes another group's memo, no jobid is ever in the memos of two groups, and of the
  jobids that another group's memo names it frees at most those that the annotations of its own
  group's owner named before the process started.
\<close>
theorem interleaving_isolated:
  assumes "matcher do_match do_cancel held issued" "interleaved do_match do_cancel um s0 r"
    and "i < length (pr_tasks r)" "pr_tasks r ! i = (k, c)" "k' \<noteq> k"
  shows "fl_placement (sy_fl (pr_system (run_task i r))) k' = fl_placement (sy_fl (pr_system r)) k' \<and>
    set (memo_ids (sy_fl (pr_system r)) k') \<inter> held (fl_matcher (sy_fl (pr_system r)))
      \<subseteq> held (fl_matcher (sy_fl (pr_system (run_task i r)))) \<union> set (recorded_ids s0 k) \<and>
    distinct (memo_ids (sy_fl (pr_system r)) k') \<and>
    set (memo_ids (sy_fl (pr_system r)) k') \<inter> set (memo_ids (sy_fl (pr_system r)) k) = {}"
proof -
  let ?s = "pr_system r" and ?s' = "pr_system (run_task i r)" and ?left = "\<lambda>k. set (recorded_ids s0 k)"
  obtain owner where own: "all_safe held issued ?left owner r" using matcher.interleaved_safe [OF assms(1,2)] by blast
  obtain owner' where safe': "all_safe held issued ?left owner' (run_task i r)" and only: "only_own held ?left k owner' ?s ?s'"
    by (rule matcher.all_safe_run [OF assms(1) own assms(3,4)])
  have memo: "fl_placement (sy_fl ?s') k' = fl_placement (sy_fl ?s) k'"
    using only assms(5) by (simp add: only_own_def)
  have claims: "claims issued ?left owner ?s" "claims issued ?left owner' ?s'" using own safe' by (simp_all add: all_safe_def)
  have "set (memo_ids (sy_fl ?s) k') \<subseteq> own owner' k'"
    using claimsD(2) [OF claims(2), of k'] memo by (simp add: memo_ids_def)
  with only own_disjoint [OF assms(5), of owner'] have
    "set (memo_ids (sy_fl ?s) k') \<inter> held (fl_matcher (sy_fl ?s)) \<subseteq> held (fl_matcher (sy_fl ?s')) \<union> set (recorded_ids s0 k)"
    by (auto simp: only_own_def)
  moreover have "set (memo_ids (sy_fl ?s) k') \<inter> set (memo_ids (sy_fl ?s) k) = {}"
    using claimsD(2) [OF claims(1), of k'] claimsD(2) [OF claims(1), of k] own_disjoint [OF assms(5), of owner] by blast
  ultimately show ?thesis using memo claimsD(3) [OF claims(1)] by blast
qed

section \<open>Runs without overlap\<close>

text \<open>A goroutine can be run to its end, so every state of the system is one of an interleaved run.\<close>

lemma run_task_Section:
  "i < length (pr_tasks r) \<Longrightarrow> pr_tasks r ! i = (k, Section f) \<Longrightarrow>
   pr_system (run_task i r) = fst (f (pr_system r)) \<and> i < length (pr_tasks (run_task i r)) \<and>
   pr_tasks (run_task i r) ! i = (k, snd (f (pr_system r)))"
  by (simp add: run_task_def)

lemma interleaved_complete:
  assumes "interleaved do_match do_cancel um s0 r" "i < length (pr_tasks r)" "pr_tasks r ! i = (k, c)"
  shows "\<exists>r'. interleaved do_match do_cancel um s0 r' \<and> pr_system r' = fst (run_sections c (pr_system r))"
  using assms
proof (induction c arbitrary: r)
  case (Finished x)
  then show ?case by auto
next
  case (Section f)
  note after = run_task_Section [OF Section.prems(2,3)]
  have "interleaved do_match do_cancel um s0 (run_task i r)"
    by (rule interleaved.steps [OF Section.prems(1) run_step.runs [OF Section.prems(2)]])
  then have "\<exists>r'. interleaved do_match do_cancel um s0 r' \<and>
      pr_system r' = fst (run_sections (snd (f (pr_system r))) (pr_system (run_task i r)))"
    using after by (intro Section.IH [of "f (pr_system r)"]) (auto simp: snds.simps)
  with after show ?case by simp
qed

lemma interleaved_whole:
  assumes "interleaved do_match do_cancel um s0 r" "run_step do_match do_cancel um r (begin_task k c r)"
  shows "\<exists>r'. interleaved do_match do_cancel um s0 r' \<and> pr_system r' = fst (run_sections c (pr_system r))"
proof -
  have "interleaved do_match do_cancel um s0 (begin_task k c r)" using assms by (rule interleaved.steps)
  from interleaved_complete [OF this, of "length (pr_tasks r)" k c] show ?thesis
    by (simp add: begin_task_def)
qed

lemma reachable_interleaved:
  "reachable do_match do_cancel um s0 s \<Longrightarrow> \<exists>r. interleaved do_match do_cancel um s0 r \<and> pr_system r = s"
proof (induction rule: reachable.induct)
  case start
  then show ?case using interleaved.idle by fastforce
next
  case (step s s')
  then obtain r where r: "interleaved do_match do_cancel um s0 r" "pr_system r = s" by blast
  note whole = interleaved_whole [OF r(1)]
  have ended: "\<exists>r'. interleaved do_match do_cancel um s0 r' \<and>
      pr_system r' = s\<lparr>sy_fl := cancelGroup do_cancel (sy_fl s) k ann\<rparr>" if "recorded_annotation s k ann" for k ann
    using whole [OF run_step.ends] that r(2) by (simp add: run_cancelGroup)
  from step(2) show ?case
  proof cases
    case (pre_filter w p)
    then show ?thesis using whole [OF run_step.filters] r(2) by (simp add: run_PreFilter)
  next
    case (post_filter p statuses)
    then show ?thesis using whole [OF run_step.fails] r(2) by (simp add: run_PostFilter)
  next
    case (pre_bind w p)
    then show ?thesis using whole [OF run_step.binds, of w p] r(2) by (simp add: run_PreBind)
  next
    case (pod_updated new w now old)
    then show ?thesis using ended [OF pod_updated(2)] r by (auto simp: onPodUpdated_def)
  next
    case (group_deleted obj)
    then show ?thesis using ended r by (cases "last_known obj") (auto simp: onPodGroupDeleted_def)
  next
    case (pod_deleted gone w now)
    then show ?thesis using ended r by (cases "last_known gone") (auto simp: onPodDeleted_def)
  qed
qed

theorem interleaving_isolated_witness:
  "\<exists>r i c. pr_system r = gang_system \<and> pr_tasks r ! i = (''ns/old'', c) \<and>
     recorded_ids (gang_begin [Inr ''compute'']) ''ns/old'' = [5] \<and>
     7 \<in> set (gang_held (sy_fl (pr_system (run_task i r))))"
proof -
  let ?s0 = "gang_begin [Inr ''compute'']"
  obtain r where r: "interleaved (MatchAllocateSpec sc_match) (Cancel sc_cancel) sample_unmarshal ?s0 r"
    "pr_system r = gang_system"
    using reachable_interleaved [OF gang_reachable] by blast
  let ?c = "cancelGroup_sections (Cancel sc_cancel) ''ns/old'' [(JobIDAnnotation, ''5'')]"
  let ?r = "begin_task ''ns/old'' ?c r" and ?i = "length (pr_tasks r)"
  have "recorded_annotation (pr_system r) ''ns/old'' [(JobIDAnnotation, ''5'')]"
    by (simp add: recorded_annotation_def gstr_def r(2) gang_system_def gang_begin_def)
  then have "interleaved (MatchAllocateSpec sc_match) (Cancel sc_cancel) sample_unmarshal ?s0 ?r"
    by (rule interleaved.steps [OF r(1) run_step.ends])
  from interleaving_isolated [OF scripted.fluxion.matcher_axioms this, of ?i "''ns/old''" ?c "''ns/g''"]
  have "7 \<in> set (gang_held (sy_fl (pr_system (run_task ?i ?r)))) \<union> set (recorded_ids ?s0 ''ns/old'')"
    using gang_system_simps r(2) by (auto simp: begin_task_def gang_held_def)
  then have "7 \<in> set (gang_held (sy_fl (pr_system (run_task ?i ?r))))" by (simp add: gang_recorded)
  moreover have "pr_system ?r = gang_system" "pr_tasks ?r ! ?i = (''ns/old'', ?c)"
    using r(2) by (simp_all add: begin_task_def)
  ultimately show ?thesis using gang_recorded by fastforce
qed

section \<open>What interleaving breaks\<close>

text \<open>
  A group without a memo is not constrained: after a teardown between PreFilter and Filter every
  node is admitted, and binding goes through without an allocation.
\<close>

lemma torn_down_unconstrained:
  assumes "parseJobIDs ann \<noteq> None \<or> fl_placement f (groupKey p) \<noteq> None"
  shows "Filter (cancelGroup do_cancel f (groupKey p) ann) p n = NewStatus Success \<and>
    PreBind w (cancelGroup do_cancel f (groupKey p) ann) p = ([], NewStatus Success)"
proof -
  have "fl_placement (cancelGroup do_cancel f (groupKey p) ann) (groupKey p) = None"
    using assms by (auto simp: cancelGroup_def split: option.split)
  then show ?thesis by (simp add: Filter_def cached_nodes_def PreBind_def)
qed




end
