(* ===== verification/Device_Plugin.thy ===== *)
theory Device_Plugin
  imports Cluster_Graph Scheduler_Match
begin

text \<open>
  \<open>pkg/deviceplugin/plugin.go\<close> and \<open>cmd/deviceplugin/main.go\<close>: the device plugin that
  advertises one counted resource per virtual type. The constants of the kubelet's plugin API
  and the outcomes of system calls are parameters; \<open>filepath\<close> is the standard library's.
\<close>

section \<open>Paths\<close>

abbreviation slash :: char where "slash \<equiv> CHR ''/''"

text \<open>\<open>filepath.Clean\<close> on slash-separated paths: the components kept so far are in reverse.\<close>

definition clean_step :: "bool \<Rightarrow> string list \<Rightarrow> string \<Rightarrow> string list" where
  "clean_step rooted st c =
     (if c = [] \<or> c = ''.'' then st
      else if c = ''..'' then
        (case st of
           [] \<Rightarrow> if rooted then [] else [''..'']
         | x # xs \<Rightarrow> if x = ''..'' then ''..'' # st else xs)
      else c # st)"

definition path_clean :: "string \<Rightarrow> string" where
  "path_clean p =
     (if p = [] then ''.''
      else
        let rooted = (hd p = slash);
            s = join_with [slash] (rev (foldl (clean_step rooted) [] (split_on slash p)))
        in if rooted then slash # s else if s = [] then ''.'' else s)"

definition path_join :: "string \<Rightarrow> string \<Rightarrow> string" where
  "path_join dir file =
     (if dir = [] then (if file = [] then [] else path_clean file)
      else path_clean (dir @ [slash] @ file))"

definition path_base :: "string \<Rightarrow> string" where
  "path_base p =
     (if p = [] then ''.''
      else
        let s = rev (dropWhile (\<lambda>c. c = slash) (rev p));
            b = rev (takeWhile (\<lambda>c. c \<noteq> slash) (rev s))
        in if b = [] then [slash] else b)"

section \<open>The plugin\<close>

record plugin_api =
  pa_dir :: string
  pa_healthy :: string
  pa_version :: string

record device =
  de_id :: string
  de_health :: string

record plugin =
  pn_resource :: string
  pn_capacity :: int
  pn_socket :: string
  pn_devices :: "device list"

text \<open>\<open>strings.Map\<close> runs over the runes; every kept rune is a single byte.\<close>

definition tag_rune :: "nat \<Rightarrow> char" where
  "tag_rune r =
     (if (97 \<le> r \<and> r \<le> 122) \<or> (65 \<le> r \<and> r \<le> 90) \<or> (48 \<le> r \<and> r \<le> 57) then char_of r
      else CHR ''-'')"

definition sanitize :: "string \<Rightarrow> string" where
  "sanitize name = map tag_rune (runes name)"

text \<open>A negative capacity makes \<open>make\<close> panic (None).\<close>

definition NewPlugin :: "plugin_api \<Rightarrow> string \<Rightarrow> int \<Rightarrow> plugin option" where
  "NewPlugin pa resourceName cap =
     (if cap < 0 then None
      else
        let tag = sanitize resourceName
        in Some \<lparr>pn_resource = resourceName, pn_capacity = cap,
             pn_socket = path_join (pa_dir pa) (tag @ ''.sock''),
             pn_devices = map (\<lambda>i. \<lparr>de_id = tag @ ''-'' @ show_nat i, de_health = pa_healthy pa\<rparr>)
               [0 ..< nat cap]\<rparr>)"

section \<open>Serving\<close>

text \<open>
  The node as the plugins change it: which resource's server listens on a socket path, and what
  has been registered with the kubelet (version, endpoint, resource).
\<close>

record plugin_node =
  no_listeners :: "(string, string) gomap"
  no_registered :: "(string \<times> string \<times> string) list"

text \<open>
  The outcome of each system call is given: removing the old socket (an absent one is no error),
  listening, registering. Registering names the last element of the socket path as the endpoint.
  The goroutine that runs the gRPC \<open>Serve\<close> on the listener is folded into listening: a listener
  counts as served from the moment it is open.
\<close>

record plugin_calls =
  pc_remove :: "string option"
  pc_listen :: "string option"
  pc_register :: "string option"

definition serve :: "plugin_calls \<Rightarrow> plugin \<Rightarrow> plugin_node \<Rightarrow> plugin_node \<times> string option" where
  "serve calls p w =
     (case pc_remove calls of
        Some e \<Rightarrow> (w, Some e)
      | None \<Rightarrow>
          let w = w\<lparr>no_listeners := gdel (no_listeners w) (pn_socket p)\<rparr>
          in case pc_listen calls of
               Some e \<Rightarrow> (w, Some (''listen on '' @ pn_socket p @ '': '' @ e))
             | None \<Rightarrow> (w\<lparr>no_listeners := gput (no_listeners w) (pn_socket p) (pn_resource p)\<rparr>, None))"

definition register ::
    "plugin_api \<Rightarrow> plugin_calls \<Rightarrow> plugin \<Rightarrow> plugin_node \<Rightarrow> plugin_node \<times> string option" where
  "register pa calls p w =
     (case pc_register calls of
        Some e \<Rightarrow> (w, Some e)
      | None \<Rightarrow>
          (w\<lparr>no_registered := no_registered w
               @ [(pa_version pa, path_base (pn_socket p), pn_resource p)]\<rparr>, None))"

text \<open>
  Stopping the server closes its listener, which removes the socket at its path. (When the
  goroutine has not run yet, \<open>Stop\<close> has no listener to close, and \<open>Serve\<close> closes it itself once it
  runs and finds the server stopped; here both are one step.)
\<close>

definition stop_server :: "plugin \<Rightarrow> plugin_node \<Rightarrow> plugin_node" where
  "stop_server p w = w\<lparr>no_listeners := gdel (no_listeners w) (pn_socket p)\<rparr>"

text \<open>
  \<open>Run\<close> up to the point where it waits for its context: an error, or None while it waits. The
  server is stopped by the deferred call whichever way \<open>Run\<close> returns after serving; once the
  context is cancelled \<open>Run_cancelled\<close> is the rest of it.
\<close>

definition Run ::
    "plugin_api \<Rightarrow> plugin_calls \<Rightarrow> plugin \<Rightarrow> plugin_node \<Rightarrow> plugin_node \<times> string option" where
  "Run pa calls p w =
     (case serve calls p w of
        (w, Some e) \<Rightarrow> (w, Some e)
      | (w, None) \<Rightarrow>
          (case register pa calls p w of
             (w, Some e) \<Rightarrow>
               (stop_server p w, Some (''register with kubelet: '' @ e))
           | (w, None) \<Rightarrow> (w, None)))"

definition Run_cancelled :: "plugin \<Rightarrow> plugin_node \<Rightarrow> plugin_node \<times> string option" where
  "Run_cancelled p w = (stop_server p w, None)"

section \<open>Answering the kubelet\<close>

text \<open>
  What the loop of \<open>ListAndWatch\<close> wakes up for: the plugin stopping, or a tick, on which the
  list is sent again (the outcome is the error of the send). The loop may run for ever, which is
  the value None; otherwise the result is how often the list was sent again, and the error.
\<close>

datatype watch_event = Stopping | Tick "string option"

partial_function (option) watch_loop :: "(nat \<Rightarrow> watch_event) \<Rightarrow> nat \<Rightarrow> (nat \<times> string option) option" where
  "watch_loop ev n =
     (case ev n of
        Stopping \<Rightarrow> Some (n, None)
      | Tick (Some e) \<Rightarrow> Some (Suc n, Some e)
      | Tick None \<Rightarrow> watch_loop ev (Suc n))"

text \<open>The lists sent, and the error.\<close>

definition ListAndWatch ::
    "plugin \<Rightarrow> string option \<Rightarrow> (nat \<Rightarrow> watch_event) \<Rightarrow> (device list list \<times> string option) option" where
  "ListAndWatch p first ev =
     (case first of
        Some e \<Rightarrow> Some ([pn_devices p], Some e)
      | None \<Rightarrow>
          (case watch_loop ev 0 of
             None \<Rightarrow> None
           | Some (n, e) \<Rightarrow> Some (pn_devices p # replicate n (pn_devices p), e)))"

text \<open>One empty response per container request: a request is its list of device ids.\<close>

definition Allocate :: "string list list \<Rightarrow> unit list" where
  "Allocate reqs = map (\<lambda>_. ()) reqs"

section \<open>The command\<close>

definition config_path :: "(string \<Rightarrow> string) \<Rightarrow> string" where
  "config_path getenv =
     (if getenv ''FLUENCE_RESOURCES'' = [] then ''/etc/fluence/resources.yaml''
      else getenv ''FLUENCE_RESOURCES'')"

definition plugin_capacity :: "(string \<Rightarrow> string) \<Rightarrow> int" where
  "plugin_capacity getenv =
     (let v = getenv ''FLUENCE_RESOURCE_CAPACITY''
      in if v = [] then 1000
         else case atoi v of None \<Rightarrow> 1000 | Some n \<Rightarrow> if n > 0 then n else 1000)"

text \<open>
  \<open>main\<close>: the resources advertised and their capacity, or the fatal error. With no resources
  the process idles. A file that cannot be read is the same as no file.
\<close>

definition plugin_main ::
    "(string \<Rightarrow> string + resources_config) \<Rightarrow> (string \<Rightarrow> string + string option) \<Rightarrow> (string \<Rightarrow> string)
     \<Rightarrow> config_error + string list \<times> int" where
  "plugin_main unmarshal read_file getenv =
     (case read_file (config_path getenv) of
        Inr (Some data) \<Rightarrow>
          (case LoadResourcesConfig unmarshal data of
             Inl e \<Rightarrow> Inl e
           | Inr rc \<Rightarrow> Inr (FluxionResourceNames (rc_resources rc), plugin_capacity getenv))
      | _ \<Rightarrow> Inr ([], plugin_capacity getenv))"

end
