(* ===== verification/Device_Served.thy ===== *)
theory Device_Served
  imports Device_Plugin
begin

text \<open>
  Which advertised resources the kubelet can reach, the list it is streamed, and that what is
  advertised is what the scheduler knows.
\<close>

section \<open>The endpoint is the socket\<close>

lemma split_on_snoc: "c \<notin> set ys \<Longrightarrow> split_on c (xs @ c # ys) = split_on c xs @ [ys]"
proof (induction c xs rule: split_on.induct)
  case (1 c)
  then show ?case using split_on_append [of c "[]" ys] by (simp add: split_on_plain)
next
  case (2 c x xs)
  then show ?case by (simp split: list.split)
qed

lemma foldl_clean_snoc:
  assumes "f \<noteq> []" "f \<noteq> ''.''" "f \<noteq> ''..''"
  shows "foldl (clean_step rooted) st (cs @ [f]) = f # foldl (clean_step rooted) st cs"
  using assms by (simp add: clean_step_def)

lemma join_with_snoc: "join_with sep (xs @ [f]) = (if xs = [] then f else join_with sep xs @ sep @ f)"
  by (induction sep xs rule: join_with.induct) auto

lemma path_base_last:
  assumes "f \<noteq> []" "slash \<notin> set f"
  shows "path_base (p @ slash # f) = f" "path_base f = f"
proof -
  obtain c cs where f: "rev f = c # cs" using assms(1) by (cases "rev f") auto
  then have "c \<noteq> slash" using assms(2) by (metis list.set_intros(1) set_rev)
  moreover have "takeWhile (\<lambda>c. c \<noteq> slash) (rev f @ slash # xs) = rev f"
    "takeWhile (\<lambda>c. c \<noteq> slash) (rev f) = rev f" for xs
    using assms(2) by (auto simp: takeWhile_tail takeWhile_eq_all_conv)
  ultimately show "path_base (p @ slash # f) = f" "path_base f = f"
    using f assms(1) by (auto simp: path_base_def Let_def)
qed

text \<open>Cleaning a path that ends in an ordinary name gives a path that ends in it.\<close>

definition path_text :: "bool \<Rightarrow> string list \<Rightarrow> string" where
  "path_text rooted cs =
     (let s = join_with [slash] cs in if rooted then slash # s else if s = [] then ''.'' else s)"

lemma path_clean_text:
  "p \<noteq> [] \<Longrightarrow> path_clean p =
     path_text (hd p = slash) (rev (foldl (clean_step (hd p = slash)) [] (split_on slash p)))"
  by (simp add: path_clean_def path_text_def Let_def)

lemma path_text_snoc:
  assumes "f \<noteq> []"
  shows "path_text rooted (cs @ [f]) = f \<or> (\<exists>xs. path_text rooted (cs @ [f]) = xs @ slash # f)"
proof (cases "cs = []")
  case True
  then have "path_text rooted (cs @ [f]) = (if rooted then [] @ slash # f else f)"
    using assms by (simp add: path_text_def Let_def)
  then show ?thesis by (metis (full_types))
next
  case False
  let ?xs = "(if rooted then [slash] else []) @ join_with [slash] cs"
  from False have "path_text rooted (cs @ [f]) = ?xs @ slash # f"
    using assms by (simp add: path_text_def Let_def join_with_snoc)
  then show ?thesis by blast
qed

lemma path_join_base:
  assumes "f \<noteq> []" "slash \<notin> set f" "f \<noteq> ''.''" "f \<noteq> ''..''"
  shows "path_base (path_join dir f) = f"
proof -
  have one: "split_on slash f = [f]" using assms(2) by (rule split_on_plain)
  have "hd f \<noteq> slash" using assms(1,2) by (cases f) auto
  then have "path_clean f = f"
    using assms by (simp add: path_clean_def one clean_step_def)
  moreover have "path_clean (dir @ slash # f) = f \<or> (\<exists>xs. path_clean (dir @ slash # f) = xs @ slash # f)"
    unfolding path_clean_text [of "dir @ slash # f", simplified] split_on_snoc [OF assms(2)]
      foldl_clean_snoc [OF assms(1,3,4)] rev.simps
    by (rule path_text_snoc [OF assms(1)])
  ultimately have "path_join dir f = f \<or> (\<exists>xs. path_join dir f = xs @ slash # f)"
    using assms(1) by (simp add: path_join_def)
  with path_base_last [OF assms(1,2)] show ?thesis by auto
qed

lemma tag_rune_plain: "tag_rune r \<noteq> slash" "tag_rune r \<noteq> CHR ''.''"
proof -
  have "char_of r \<noteq> slash \<and> char_of r \<noteq> CHR ''.''"
    if "(97 \<le> r \<and> r \<le> 122) \<or> (65 \<le> r \<and> r \<le> 90) \<or> (48 \<le> r \<and> r \<le> 57)"
  proof -
    have "of_char (char_of r :: char) = r" using that by auto
    moreover have "of_char slash = (47 :: nat)" "of_char (CHR ''.'') = (46 :: nat)" by simp_all
    ultimately show ?thesis using that by (intro conjI notI) simp_all
  qed
  then show "tag_rune r \<noteq> slash" "tag_rune r \<noteq> CHR ''.''" by (auto simp: tag_rune_def)
qed

lemma socket_base: "path_base (path_join dir (sanitize name @ ''.sock'')) = sanitize name @ ''.sock''"
  by (rule path_join_base) (auto simp: sanitize_def tag_rune_plain [symmetric])

lemma socket_inject [simp]:
  "path_join dir (sanitize n @ ''.sock'') = path_join dir (sanitize n' @ ''.sock'') \<longleftrightarrow> sanitize n = sanitize n'"
  using socket_base [of dir n] socket_base [of dir n'] by (metis append_same_eq)

section \<open>Serving\<close>

text \<open>The plugins of some resources, started in some order on a node where every call succeeds.\<close>

definition working :: plugin_calls where
  "working = \<lparr>pc_remove = None, pc_listen = None, pc_register = None\<rparr>"

definition start :: "plugin_api \<Rightarrow> int \<Rightarrow> string \<Rightarrow> plugin_node \<Rightarrow> plugin_node" where
  "start pa cap name w =
     (case NewPlugin pa name cap of None \<Rightarrow> w | Some p \<Rightarrow> fst (Run pa working p w))"

definition bare_node :: plugin_node where
  "bare_node = \<lparr>no_listeners = [], no_registered = []\<rparr>"

text \<open>
  A resource can be reached when the socket its registration names is the one its own server
  listens on.
\<close>

definition reached :: "plugin_api \<Rightarrow> plugin_node \<Rightarrow> string \<Rightarrow> bool" where
  "reached pa w name \<longleftrightarrow>
     list_ex (\<lambda>(v, endpoint, r). r = name \<and>
       list_ex (\<lambda>(path, server). path_base path = endpoint \<and> server = name) (no_listeners w))
       (no_registered w)"

lemma start_simps:
  "0 \<le> cap \<Longrightarrow> no_listeners (start pa cap name w) =
     gput (gdel (no_listeners w) (path_join (pa_dir pa) (sanitize name @ ''.sock'')))
       (path_join (pa_dir pa) (sanitize name @ ''.sock'')) name"
  "0 \<le> cap \<Longrightarrow> no_registered (start pa cap name w) =
     no_registered w @ [(pa_version pa, sanitize name @ ''.sock'', name)]"
  by (simp_all add: start_def NewPlugin_def Run_def serve_def register_def working_def Let_def socket_base)

definition node_after :: "plugin_api \<Rightarrow> int \<Rightarrow> string list \<Rightarrow> plugin_node" where
  "node_after pa cap order = foldl (\<lambda>w n. start pa cap n w) bare_node order"

lemma node_after_snoc: "node_after pa cap (ns @ [n]) = start pa cap n (node_after pa cap ns)"
  by (simp add: node_after_def)

lemma node_after_state:
  assumes "0 \<le> cap"
  shows "map_of (no_listeners (node_after pa cap ns)) (path_join (pa_dir pa) (sanitize n @ ''.sock'')) =
      find (\<lambda>m. sanitize m = sanitize n) (rev ns)"
    "gomap_ok (no_listeners (node_after pa cap ns))"
    "\<forall>(path, server) \<in> set (no_listeners (node_after pa cap ns)).
       path = path_join (pa_dir pa) (sanitize server @ ''.sock'')"
    "no_registered (node_after pa cap ns) = map (\<lambda>n. (pa_version pa, sanitize n @ ''.sock'', n)) ns"
proof (induction ns rule: rev_induct)
  case Nil
  show "map_of (no_listeners (node_after pa cap [])) (path_join (pa_dir pa) (sanitize n @ ''.sock'')) =
      find (\<lambda>m. sanitize m = sanitize n) (rev [])"
    "gomap_ok (no_listeners (node_after pa cap []))"
    "\<forall>(path, server) \<in> set (no_listeners (node_after pa cap [])).
       path = path_join (pa_dir pa) (sanitize server @ ''.sock'')"
    "no_registered (node_after pa cap []) = map (\<lambda>n. (pa_version pa, sanitize n @ ''.sock'', n)) []"
    by (simp_all add: node_after_def bare_node_def)
next
  case (snoc m ns)
  have others: "set (gput (gdel l k) k v) \<subseteq> insert (k, v) (set l)" for l :: "(string, string) gomap" and k v
    using set_gput_subset [of "gdel l k" k v] set_gdel_subset [of l k] by blast
  show "map_of (no_listeners (node_after pa cap (ns @ [m]))) (path_join (pa_dir pa) (sanitize n @ ''.sock'')) =
      find (\<lambda>m. sanitize m = sanitize n) (rev (ns @ [m]))"
    using snoc(1) by (auto simp: node_after_snoc start_simps [OF assms])
  show "gomap_ok (no_listeners (node_after pa cap (ns @ [m])))"
    using snoc(2) by (simp add: node_after_snoc start_simps [OF assms] gomap_ok_gput gomap_ok_gdel)
  show "\<forall>(path, server) \<in> set (no_listeners (node_after pa cap (ns @ [m]))).
       path = path_join (pa_dir pa) (sanitize server @ ''.sock'')"
    using snoc(3) others by (fastforce simp: node_after_snoc start_simps [OF assms])
  show "no_registered (node_after pa cap (ns @ [m])) = map (\<lambda>n. (pa_version pa, sanitize n @ ''.sock'', n)) (ns @ [m])"
    using snoc(4) by (simp add: node_after_snoc start_simps [OF assms])
qed

lemma reached_iff:
  assumes "0 \<le> cap" "n \<in> set ns"
  shows "reached pa (node_after pa cap ns) n \<longleftrightarrow> find (\<lambda>m. sanitize m = sanitize n) (rev ns) = Some n"
proof -
  let ?w = "node_after pa cap ns" let ?sock = "path_join (pa_dir pa) (sanitize n @ ''.sock'')"
  note state = node_after_state [OF assms(1), of pa]
  have "reached pa ?w n \<longleftrightarrow> (\<exists>path. (path, n) \<in> set (no_listeners ?w) \<and> path_base path = sanitize n @ ''.sock'')"
    using assms(2) by (auto simp: reached_def state(4) list_ex_iff)
  also have "\<dots> \<longleftrightarrow> (?sock, n) \<in> set (no_listeners ?w)"
    using state(3) [of ns] by (auto simp: socket_base)
  also have "\<dots> \<longleftrightarrow> map_of (no_listeners ?w) ?sock = Some n"
    using state(2) [of ns] by (simp add: gomap_ok_def)
  finally show ?thesis by (simp add: state(1))
qed

text \<open>
  C37: the plugins of several resources share one process and one directory, and whatever order
  they start in, all of the resources can be reached exactly when no two of them have the same
  name once every character other than letters and digits has become a dash: of those that do,
  only the one that started last is served.
\<close>
theorem resources_served:
  assumes "0 < cap"
  shows "(\<forall>n \<in> set order. reached pa (node_after pa cap order) n) \<longleftrightarrow> inj_on sanitize (set order)"
proof
  have cap: "0 \<le> cap" using assms by simp
  let ?last = "\<lambda>n. find (\<lambda>m. sanitize m = sanitize n) (rev order)"
  {
    assume "\<forall>n \<in> set order. reached pa (node_after pa cap order) n"
    then have "\<forall>n \<in> set order. ?last n = Some n" by (simp add: reached_iff [OF cap])
    then have last: "?last n = Some n" if "n \<in> set order" for n using that by simp
    show "inj_on sanitize (set order)"
    proof (rule inj_onI)
      fix x y assume x: "x \<in> set order" and y: "y \<in> set order" and eq: "sanitize x = sanitize y"
      have "Some x = ?last x" by (rule last [OF x, symmetric])
      also have "\<dots> = ?last y" unfolding eq ..
      also have "\<dots> = Some y" by (rule last [OF y])
      finally show "x = y" by (rule option.inject [THEN iffD1])
    qed
  next
    assume inj: "inj_on sanitize (set order)"
    show "\<forall>n \<in> set order. reached pa (node_after pa cap order) n"
    proof
      fix n assume n: "n \<in> set order"
      then have "?last n \<noteq> None" by (auto simp: find_None_iff)
      then obtain m where m: "?last n = Some m" by blast
      then have "m \<in> set order" "sanitize m = sanitize n" by (auto simp: find_Some_iff rev_nth)
      with inj n have "m = n" by (metis inj_onD)
      with m n show "reached pa (node_after pa cap order) n" by (simp add: reached_iff [OF cap])
    qed
  }
qed

definition node_api :: plugin_api where
  "node_api = \<lparr>pa_dir = ''/var/lib/kubelet/device-plugins/'', pa_healthy = ''Healthy'', pa_version = ''v1beta1''\<rparr>"

definition plain_names :: "string list" where
  "plain_names = [''fluxion.flux-framework.org/qpu'', ''fluxion.flux-framework.org/qubit'']"

definition clashing_names :: "string list" where
  "clashing_names = [''fluxion.flux-framework.org/a.b'', ''fluxion.flux-framework.org/a-b'']"

theorem resources_served_witness:
  "list_all (reached node_api (node_after node_api 1000 plain_names)) plain_names \<and>
   \<not> list_all (reached node_api (node_after node_api 1000 clashing_names)) clashing_names"
proof -
  have "distinct (map sanitize plain_names)" "\<not> distinct (map sanitize clashing_names)" "distinct clashing_names"
    by code_simp+
  then have "inj_on sanitize (set plain_names)" "\<not> inj_on sanitize (set clashing_names)"
    by (simp_all add: distinct_map)
  moreover have "(0 :: int) < 1000" by simp
  ultimately show ?thesis by (simp only: list_all_iff resources_served simp_thms)
qed

section \<open>The devices\<close>

text \<open>
  A plugin advertises as many healthy devices as its capacity, with distinct identities; a
  negative capacity is refused by a panic. Allocating answers every container request.
\<close>
lemma plugin_devices:
  "case NewPlugin pa name cap of
     None \<Rightarrow> cap < 0
   | Some p \<Rightarrow> 0 \<le> cap \<and> int (length (pn_devices p)) = cap \<and> distinct (map de_id (pn_devices p)) \<and>
       list_all (\<lambda>d. de_health d = pa_healthy pa) (pn_devices p) \<and>
       pn_resource p = name \<and> length (Allocate reqs) = length reqs"
  by (auto simp: NewPlugin_def Let_def Allocate_def comp_def distinct_map inj_on_def list_all_iff)

section \<open>Streaming\<close>

lemma watch_loop_ticks:
  "(\<And>i. n \<le> i \<Longrightarrow> i < n + k \<Longrightarrow> ev i = Tick None) \<Longrightarrow> watch_loop ev n = watch_loop ev (n + k)"
proof (induction k arbitrary: n)
  case (Suc k)
  from Suc.prems [of n] have "watch_loop ev n = watch_loop ev (Suc n)"
    by (subst watch_loop.simps) simp
  also have "\<dots> = watch_loop ev (Suc n + k)"
    using Suc.prems by (intro Suc.IH) simp
  finally show ?case by simp
qed simp

lemma watch_loop_wakes:
  assumes "watch_loop ev n = Some r"
  shows "\<exists>i. ev i \<noteq> Tick None"
proof (rule watch_loop.raw_induct [OF _ assms])
  fix loop :: "(nat \<Rightarrow> watch_event) \<Rightarrow> nat \<Rightarrow> (nat \<times> string option) option" and ev n r
  assume "\<And>ev n r. loop ev n = Some r \<Longrightarrow> \<exists>i. ev i \<noteq> Tick None"
    and "(case ev n of Stopping \<Rightarrow> Some (n, None) | Tick None \<Rightarrow> loop ev (Suc n)
       | Tick (Some e) \<Rightarrow> Some (Suc n, Some e)) = Some r"
  then show "\<exists>i. ev i \<noteq> Tick None"
    by (cases "ev n = Tick None") auto
qed

text \<open>The error the stream ends with: none when the plugin stops.\<close>

fun wake_error :: "watch_event \<Rightarrow> string option" where
  "wake_error Stopping = None"
| "wake_error (Tick e) = e"

text \<open>
  Streaming the devices returns exactly when the first list cannot be sent, the plugin
  stops or a later list cannot be sent, and never before; until then it sends the same list
  once at the start and once for every tick, and its error is that of the send that failed.
\<close>
lemma ListAndWatch_returns:
  "ListAndWatch p first ev =
     (if first \<noteq> None then Some ([pn_devices p], first)
      else if \<exists>i. ev i \<noteq> Tick None then
        (let i = (LEAST i. ev i \<noteq> Tick None)
         in Some (replicate (if ev i = Stopping then Suc i else Suc (Suc i)) (pn_devices p), wake_error (ev i)))
      else None)"
proof (cases "first = None \<and> (\<exists>i. ev i \<noteq> Tick None)")
  case True
  obtain i where least: "(LEAST i. ev i \<noteq> Tick None) = i" by blast
  from True have i: "ev i \<noteq> Tick None" unfolding least [symmetric] by (metis (mono_tags, lifting) LeastI)
  have tick: "ev j = Tick None" if "j < i" for j
    using not_less_Least [of j "\<lambda>i. ev i \<noteq> Tick None"] that unfolding least by blast
  then have "watch_loop ev 0 = watch_loop ev (0 + i)"
    by (intro watch_loop_ticks) simp
  also have "\<dots> = Some (if ev i = Stopping then i else Suc i, wake_error (ev i))"
    using i by (subst watch_loop.simps) (auto split: watch_event.split option.split)
  finally show ?thesis using True by (simp add: ListAndWatch_def Let_def least)
next
  case False
  show ?thesis
  proof (cases first)
    case None
    with False have none: "(\<exists>i. ev i \<noteq> Tick None) = False" by blast
    then have "watch_loop ev 0 = None"
      using watch_loop_wakes [of ev 0] by (cases "watch_loop ev 0") blast+
    with None show ?thesis unfolding none by (simp add: ListAndWatch_def)
  qed (simp add: ListAndWatch_def)
qed

end
