(* ===== verification/Admission.thy ===== *)
theory Admission
  imports Placement
begin

text \<open>
  \<open>pkg/webhook/admission.go\<close> and the generic capabilities of \<open>webhook.go\<close>: the mutator,
  the provisioning of PodGroups, the budget of the cluster and the admission of a group by it.
  The Kubernetes API is a store: what it lists is what was created and patched, and any call
  may be made to fail. Admitting one request at a time never promises more than can be reached;
  admissions that overlap do.
\<close>

section \<open>The API as the webhook sees it\<close>

record job =
  jb_parallelism :: "int option"
  jb_completions :: "int option"

text \<open>\<open>ks_down\<close> names the calls that fail; \<open>ks_rbac\<close> lists the RBAC objects, by kind and namespace.\<close>

record kube_store =
  ks_groups :: "pod_group list"
  ks_pods :: "pod list"
  ks_nodes :: "node list"
  ks_jobs :: "((string \<times> string) \<times> job) list"
  ks_replicasets :: "((string \<times> string) \<times> int option) list"
  ks_rbac :: "(string \<times> string) list"
  ks_now :: int
  ks_down :: "string \<Rightarrow> bool"

definition is_group :: "string \<Rightarrow> string \<Rightarrow> pod_group \<Rightarrow> bool" where
  "is_group ns g pg \<longleftrightarrow> pg_namespace pg = ns \<and> pg_name pg = g"

definition get_group :: "kube_store \<Rightarrow> string \<Rightarrow> string \<Rightarrow> pod_group option" where
  "get_group s ns g =
     (if ks_down s ''get podgroups'' then None else find (is_group ns g) (ks_groups s))"

text \<open>Creating an object that exists fails.\<close>

definition create_group :: "kube_store \<Rightarrow> pod_group \<Rightarrow> kube_store" where
  "create_group s pg =
     (if ks_down s ''create podgroups'' \<or> list_ex (is_group (pg_namespace pg) (pg_name pg)) (ks_groups s)
      then s else s\<lparr>ks_groups := ks_groups s @ [pg]\<rparr>)"

definition patch_group :: "kube_store \<Rightarrow> string \<Rightarrow> string \<Rightarrow> string \<Rightarrow> string \<Rightarrow> kube_store" where
  "patch_group s ns g key val =
     (if ks_down s ''patch podgroups'' then s
      else s\<lparr>ks_groups := map (\<lambda>pg. if is_group ns g pg
              then pg\<lparr>pg_annotations := gput (pg_annotations pg) key val\<rparr> else pg) (ks_groups s)\<rparr>)"

section \<open>The mutator\<close>

text \<open>A nil client is None.\<close>

record mutator =
  mu_keys :: "string list"
  mu_client :: "kube_store option"
  mu_control :: bool
  mu_reserve :: int

definition SchedulerName :: string where
  "SchedulerName = ''fluence''"

definition GroupLabel :: string where
  "GroupLabel = ''fluence.flux-framework.org/group''"

definition GroupSizeAnnotation :: string where
  "GroupSizeAnnotation = ''fluence.flux-framework.org/group-size''"

definition EnsurePodGroup :: "mutator \<Rightarrow> string \<Rightarrow> string \<Rightarrow> int \<Rightarrow> mutator" where
  "EnsurePodGroup m ns g minCount =
     (let minCount = (if minCount \<le> 0 then 1 else minCount)
      in case mu_client m of
           None \<Rightarrow> m
         | Some s \<Rightarrow>
             if get_group s ns g \<noteq> None then m
             else m\<lparr>mu_client := Some (create_group s
                 \<lparr>pg_name = g, pg_namespace = ns,
                  pg_labels = [(''app'', ''fluence''), (GroupLabel, g)],
                  pg_annotations = [(CreatedByAnnotation, CreatedByValue)],
                  pg_min_count = minCount, pg_created = ks_now s\<rparr>)\<rparr>)"

section \<open>The budget\<close>

definition ProtectedAnnotation :: string where
  "ProtectedAnnotation = ''fluence.flux-framework.org/protected''"

definition ProtectedValue :: string where
  "ProtectedValue = ''quantum''"

definition AdmittedCoresAnnotation :: string where
  "AdmittedCoresAnnotation = ''fluence.flux-framework.org/admitted-cores''"

definition AdmittedGroupAnnotation :: string where
  "AdmittedGroupAnnotation = ''fluence.flux-framework.org/admitted-group''"

definition PreemptiblePriorityCeiling :: int where
  "PreemptiblePriorityCeiling = 1000000"

record capacity =
  ca_budget :: int
  ca_running :: int
  ca_free :: int
  ca_preemptible :: int
  ca_promised :: int

definition Reachable :: "capacity \<Rightarrow> int" where
  "Reachable c = i64 (ca_free c + ca_preemptible c)"

definition nodeSchedulable :: "node \<Rightarrow> bool" where
  "nodeSchedulable n \<longleftrightarrow> \<not> n_unschedulable n \<and>
     \<not> list_ex (\<lambda>t. taint_effect t = ''NoSchedule'' \<or> taint_effect t = ''NoExecute'') (n_taints n)"

definition nodeCores :: "node \<Rightarrow> int" where
  "nodeCores n =
     (case map_of (n_allocatable n) ''cpu'' of None \<Rightarrow> 0 | Some q \<Rightarrow> go_div (q_milli q) 1000)"

definition podBound :: "pod \<Rightarrow> bool" where
  "podBound p \<longleftrightarrow> p_node p \<noteq> [] \<and> p_phase p \<noteq> ''Succeeded'' \<and> p_phase p \<noteq> ''Failed''"

definition podPriority :: "pod \<Rightarrow> int" where
  "podPriority p = (case p_priority p of None \<Rightarrow> 0 | Some v \<Rightarrow> v)"

text \<open>The admission record of an object: the annotation as a positive number.\<close>

definition admitted_cores :: "(string, string) gomap \<Rightarrow> int option" where
  "admitted_cores ann =
     (case atoi (gstr ann AdmittedCoresAnnotation) of
        None \<Rightarrow> None
      | Some n \<Rightarrow> if n > 0 then Some n else None)"

definition object_key :: "string \<Rightarrow> string \<Rightarrow> string" where
  "object_key ns n = ns @ ''/'' @ n"

definition put_record ::
    "(string, int) gomap \<Rightarrow> string \<Rightarrow> (string, string) gomap \<Rightarrow> (string, int) gomap" where
  "put_record records k ann =
     (case admitted_cores ann of None \<Rightarrow> records | Some n \<Rightarrow> gput records k n)"

record tally =
  tl_running :: int
  tl_preemptible :: int
  tl_running_of :: "(string, int) gomap"
  tl_records :: "(string, int) gomap"

definition tally_pod :: "string list \<Rightarrow> tally \<Rightarrow> pod \<Rightarrow> tally" where
  "tally_pod schedulable t p =
     (let ann = pod_annotations p;
          t = t\<lparr>tl_records := put_record (tl_records t) (object_key (p_namespace p) (p_name p)) ann\<rparr>
      in if \<not> podBound p \<or> p_node p \<notin> set schedulable then t
         else
           let cores = PodCores p;
               t = t\<lparr>tl_running := i64 (tl_running t + cores)\<rparr>;
               t = (if gstr ann ProtectedAnnotation = [] \<and> podPriority p < PreemptiblePriorityCeiling
                    then t\<lparr>tl_preemptible := i64 (tl_preemptible t + cores)\<rparr> else t);
               g = gstr ann AdmittedGroupAnnotation
           in if g \<noteq> []
              then t\<lparr>tl_running_of := gput (tl_running_of t) g (i64 (gint (tl_running_of t) g + cores))\<rparr>
              else t)"

definition promise :: "(string, int) gomap \<Rightarrow> int \<Rightarrow> string \<times> int \<Rightarrow> int" where
  "promise running_of acc kt =
     (case kt of (k, n) \<Rightarrow>
        let left = i64 (n - gint running_of k)
        in if left > 0 then i64 (acc + left) else acc)"

text \<open>The computation of \<open>Capacity\<close> on what the three lists returned.\<close>

definition capacity_of :: "int \<Rightarrow> node list \<Rightarrow> pod list \<Rightarrow> pod_group list \<Rightarrow> capacity" where
  "capacity_of reserve all_nodes pods groups =
     (let nodes = filter nodeSchedulable all_nodes;
          budget = i64 (foldl (\<lambda>b n. i64 (b + nodeCores n)) 0 nodes - reserve);
          budget = (if budget < 0 then 0 else budget);
          records = foldl (\<lambda>r pg. put_record r (object_key (pg_namespace pg) (pg_name pg))
                        (pg_annotations pg)) [] groups;
          t = foldl (tally_pod (map n_name nodes))
                \<lparr>tl_running = 0, tl_preemptible = 0, tl_running_of = [], tl_records = records\<rparr> pods;
          promised = foldl (promise (tl_running_of t)) 0 (tl_records t);
          free = i64 (budget - tl_running t);
          free = (if free < 0 then 0 else free)
      in \<lparr>ca_budget = budget, ca_running = tl_running t, ca_free = free,
          ca_preemptible = tl_preemptible t, ca_promised = promised\<rparr>)"

definition Capacity :: "mutator \<Rightarrow> kube_store \<Rightarrow> string + capacity" where
  "Capacity m s =
     (if ks_down s ''list nodes'' then Inl ''list nodes''
      else if ks_down s ''list pods'' then Inl ''list pods''
      else if ks_down s ''list podgroups'' then Inl ''list podgroups''
      else Inr (capacity_of (mu_reserve m) (ks_nodes s) (ks_pods s) (ks_groups s)))"

text \<open>\<open>Admit\<close>: the refusal, or None. An unreadable cluster admits.\<close>

definition refusal_text :: "string \<Rightarrow> int \<Rightarrow> capacity \<Rightarrow> string" where
  "refusal_text key cores c =
     ''quantum: no room for another pair. '' @ key @ '' needs '' @ show_int cores @ '' cores, ''
     @ show_int (ca_promised c) @ '' are already promised to pairs that have not started, and only ''
     @ show_int (Reachable c) @ '' are reachable ('' @ show_int (ca_free c) @ '' free, ''
     @ show_int (ca_preemptible c)
     @ '' that could be preempted). Wait for one to finish or ask for fewer cores''"

definition Admit :: "mutator \<Rightarrow> string \<Rightarrow> int \<Rightarrow> string option" where
  "Admit m key cores =
     (if \<not> mu_control m \<or> cores \<le> 0 then None
      else case mu_client m of
             None \<Rightarrow> None
           | Some s \<Rightarrow>
               (case Capacity m s of
                  Inl _ \<Rightarrow> None
                | Inr c \<Rightarrow>
                    if i64 (cores + ca_promised c) > Reachable c
                    then Some (refusal_text key cores c) else None))"

definition RecordAdmission :: "mutator \<Rightarrow> string \<Rightarrow> string \<Rightarrow> int \<Rightarrow> mutator" where
  "RecordAdmission m ns g cores =
     (case mu_client m of
        None \<Rightarrow> m
      | Some s \<Rightarrow>
          if cores \<le> 0 then m
          else case get_group s ns g of
                 None \<Rightarrow> m
               | Some pg \<Rightarrow>
                   if gstr (pg_annotations pg) AdmittedCoresAnnotation \<noteq> [] then m
                   else m\<lparr>mu_client := Some (patch_group s ns g AdmittedCoresAnnotation (show_int cores))\<rparr>)"

section \<open>What the budget reads\<close>

text \<open>The last element of a list that has a value.\<close>

fun last_of :: "('a \<Rightarrow> 'b option) \<Rightarrow> 'a list \<Rightarrow> 'b option" where
  "last_of f [] = None"
| "last_of f (x # xs) = (case last_of f xs of None \<Rightarrow> f x | Some y \<Rightarrow> Some y)"

definition counted :: "kube_store \<Rightarrow> pod \<Rightarrow> bool" where
  "counted s p \<longleftrightarrow> podBound p \<and> p_node p \<in> n_name ` {n \<in> set (ks_nodes s). nodeSchedulable n}"

definition preemptible :: "pod \<Rightarrow> bool" where
  "preemptible p \<longleftrightarrow> gstr (pod_annotations p) ProtectedAnnotation = [] \<and>
     podPriority p < PreemptiblePriorityCeiling"

definition cores_of :: "(pod \<Rightarrow> bool) \<Rightarrow> pod list \<Rightarrow> int" where
  "cores_of P ps = sum_list (map PodCores (filter P ps))"

definition running_of :: "kube_store \<Rightarrow> string \<Rightarrow> int" where
  "running_of s k =
     cores_of (\<lambda>p. counted s p \<and> gstr (pod_annotations p) AdmittedGroupAnnotation = k) (ks_pods s)"

text \<open>The admission record with a key: a pod's is found last, so it hides a PodGroup's.\<close>

definition pod_record :: "string \<Rightarrow> pod \<Rightarrow> int option" where
  "pod_record k p =
     (if object_key (p_namespace p) (p_name p) = k then admitted_cores (pod_annotations p) else None)"

definition group_record :: "string \<Rightarrow> pod_group \<Rightarrow> int option" where
  "group_record k pg =
     (if object_key (pg_namespace pg) (pg_name pg) = k then admitted_cores (pg_annotations pg) else None)"

definition record_of :: "kube_store \<Rightarrow> string \<Rightarrow> int option" where
  "record_of s k =
     (case last_of (pod_record k) (ks_pods s) of
        None \<Rightarrow> last_of (group_record k) (ks_groups s)
      | Some n \<Rightarrow> Some n)"

lemma foldl_i64_sum: "i64 (foldl (\<lambda>b x. i64 (b + f x)) a xs) = i64 (a + sum_list (map f xs))"
proof (induction xs arbitrary: a)
  case (Cons x xs)
  have "i64 (foldl (\<lambda>b x. i64 (b + f x)) a (x # xs)) = i64 (i64 (a + f x) + sum_list (map f xs))"
    using Cons.IH by simp
  also have "\<dots> = i64 (a + sum_list (map f (x # xs)))"
    by (simp add: i64_add_left add.assoc)
  finally show ?case .
qed simp

lemma cores_of_Cons [simp]:
  "cores_of P [] = 0" "cores_of P (p # ps) = (if P p then PodCores p else 0) + cores_of P ps"
  by (simp_all add: cores_of_def)

lemma tally_pod_simps:
  "tl_running (tally_pod sch t p) =
     (if podBound p \<and> p_node p \<in> set sch then i64 (tl_running t + PodCores p) else tl_running t)"
  "tl_preemptible (tally_pod sch t p) =
     (if podBound p \<and> p_node p \<in> set sch \<and> preemptible p then i64 (tl_preemptible t + PodCores p)
      else tl_preemptible t)"
  "k \<noteq> [] \<Longrightarrow> gint (tl_running_of (tally_pod sch t p)) k =
     (if podBound p \<and> p_node p \<in> set sch \<and> gstr (pod_annotations p) AdmittedGroupAnnotation = k
      then i64 (gint (tl_running_of t) k + PodCores p) else gint (tl_running_of t) k)"
  "tl_records (tally_pod sch t p) =
     put_record (tl_records t) (object_key (p_namespace p) (p_name p)) (pod_annotations p)"
  by (simp_all add: tally_pod_def Let_def preemptible_def)

lemma i64_fold_cores:
  assumes "\<And>t p. f (step t p) = (if P p then i64 (f t + PodCores p) else f t)"
  shows "i64 (f (foldl step t ps)) = i64 (f t + cores_of P ps)"
    and "f t = i64 (f t) \<Longrightarrow> f (foldl step t ps) = i64 (f (foldl step t ps))"
proof -
  show "i64 (f (foldl step t ps)) = i64 (f t + cores_of P ps)"
  proof (induction ps arbitrary: t)
    case (Cons p ps)
    then show ?case by (simp add: assms i64_add_left add.assoc)
  qed simp
  show "f t = i64 (f t) \<Longrightarrow> f (foldl step t ps) = i64 (f (foldl step t ps))"
    by (induction ps arbitrary: t) (simp_all add: assms)
qed

lemma i64_fold_cores_zero:
  assumes "\<And>t p. f (step t p) = (if P p then i64 (f t + PodCores p) else f t)" and "f t = 0"
  shows "f (foldl step t ps) = i64 (cores_of P ps)"
  using i64_fold_cores [of f step P t ps, OF assms(1)] assms(2) by simp

lemma map_of_put_record:
  "map_of (put_record r k ann) k' =
     (if k' = k then (case admitted_cores ann of None \<Rightarrow> map_of r k' | Some n \<Rightarrow> Some n) else map_of r k')"
  by (simp add: put_record_def split: option.split)

lemma gomap_ok_put_record: "gomap_ok r \<Longrightarrow> gomap_ok (put_record r k ann)"
  by (simp add: put_record_def split: option.split)

lemma map_of_group_records:
  "map_of (foldl (\<lambda>r pg. put_record r (object_key (pg_namespace pg) (pg_name pg)) (pg_annotations pg)) r pgs) k
   = (case last_of (group_record k) pgs of None \<Rightarrow> map_of r k | Some n \<Rightarrow> Some n)"
  by (induction pgs arbitrary: r)
    (auto simp: map_of_put_record group_record_def split: option.splits)

lemma gomap_ok_group_records:
  "gomap_ok r \<Longrightarrow> gomap_ok (foldl (\<lambda>r pg. put_record r (object_key (pg_namespace pg) (pg_name pg))
     (pg_annotations pg)) r pgs)"
  by (induction pgs arbitrary: r) (simp_all add: gomap_ok_put_record)

lemma map_of_tally_records:
  "map_of (tl_records (foldl (tally_pod sch) t ps)) k =
     (case last_of (pod_record k) ps of None \<Rightarrow> map_of (tl_records t) k | Some n \<Rightarrow> Some n)"
  by (induction ps arbitrary: t)
    (auto simp: tally_pod_simps map_of_put_record pod_record_def split: option.splits)

lemma gomap_ok_tally_records:
  "gomap_ok (tl_records t) \<Longrightarrow> gomap_ok (tl_records (foldl (tally_pod sch) t ps))"
  by (induction ps arbitrary: t) (simp_all add: tally_pod_simps gomap_ok_put_record)

lemma foldl_promise:
  "i64 (foldl (promise ro) acc rs) =
     i64 (acc + (\<Sum>(k, n)\<leftarrow>rs. max 0 (i64 (n - gint ro k))))"
proof (induction rs arbitrary: acc)
  case (Cons kn rs)
  obtain k n where kn: "kn = (k, n)" by fastforce
  have step: "i64 (promise ro acc kn) = i64 (acc + max 0 (i64 (n - gint ro k)))"
    by (simp add: kn promise_def Let_def max_def)
  have "i64 (foldl (promise ro) acc (kn # rs))
      = i64 (promise ro acc kn + (\<Sum>(k, n)\<leftarrow>rs. max 0 (i64 (n - gint ro k))))"
    using Cons.IH by simp
  also have "\<dots> = i64 (i64 (promise ro acc kn) + (\<Sum>(k, n)\<leftarrow>rs. max 0 (i64 (n - gint ro k))))"
    by (simp only: i64_add_left)
  also have "\<dots> = i64 (acc + (\<Sum>(k, n)\<leftarrow>kn # rs. max 0 (i64 (n - gint ro k))))"
    by (simp only: step i64_add_left) (simp add: kn add.assoc)
  finally show ?case .
qed simp

lemma foldl_promise_wrapped: "acc = i64 acc \<Longrightarrow> foldl (promise ro) acc rs = i64 (foldl (promise ro) acc rs)"
  by (induction rs arbitrary: acc) (auto simp: promise_def Let_def split: prod.splits)

lemma sum_gomap:
  assumes "gomap_ok rs"
  shows "(\<Sum>(k, n)\<leftarrow>rs. f k n) = (\<Sum>k \<in> dom (map_of rs). f k (the (map_of rs k)))"
proof -
  have dist: "distinct rs" and inj: "inj_on fst (set rs)"
    using assms by (auto simp: gomap_ok_def distinct_map)
  have "(\<Sum>(k, n)\<leftarrow>rs. f k n) = (\<Sum>kn \<in> set rs. f (fst kn) (snd kn))"
    using dist by (simp add: sum_list_distinct_conv_sum_set split_beta)
  also have "\<dots> = (\<Sum>kn \<in> set rs. f (fst kn) (the (map_of rs (fst kn))))"
    using assms by (intro sum.cong) (auto simp: gomap_ok_def)
  also have "\<dots> = (\<Sum>k \<in> fst ` set rs. f k (the (map_of rs k)))"
    by (simp add: sum.reindex [OF inj])
  finally show ?thesis by (simp add: dom_map_of_conv_image_fst)
qed

text \<open>What is promised: of each record, what its running members do not use yet.\<close>

definition promised_cores :: "kube_store \<Rightarrow> int" where
  "promised_cores s =
     (\<Sum>k \<in> dom (record_of s). max 0 (i64 (the (record_of s k) - i64 (running_of s k))))"

lemma object_key_nonempty [simp]: "object_key ns n \<noteq> []"
  by (simp add: object_key_def)

lemma record_of_key: "record_of s k = Some n \<Longrightarrow> k \<noteq> []"
proof -
  have "last_of (pod_record []) ps = None" for ps
    by (induction ps) (simp_all add: pod_record_def)
  moreover have "last_of (group_record []) pgs = None" for pgs
    by (induction pgs) (simp_all add: group_record_def)
  ultimately show "record_of s k = Some n \<Longrightarrow> k \<noteq> []" by (auto simp: record_of_def)
qed

lemma Capacity_cases:
  "Capacity m s =
     (if ks_down s ''list nodes'' then Inl ''list nodes''
      else if ks_down s ''list pods'' then Inl ''list pods''
      else if ks_down s ''list podgroups'' then Inl ''list podgroups''
      else
        let budget = max 0 (i64 (sum_list (map nodeCores (filter nodeSchedulable (ks_nodes s))) - mu_reserve m));
            running = i64 (cores_of (counted s) (ks_pods s))
        in Inr \<lparr>ca_budget = budget, ca_running = running, ca_free = max 0 (i64 (budget - running)),
             ca_preemptible = i64 (cores_of (\<lambda>p. counted s p \<and> preemptible p) (ks_pods s)),
             ca_promised = i64 (promised_cores s)\<rparr>)"
proof -
  let ?nodes = "filter nodeSchedulable (ks_nodes s)"
  let ?records = "foldl (\<lambda>r pg. put_record r (object_key (pg_namespace pg) (pg_name pg))
      (pg_annotations pg)) [] (ks_groups s)"
  let ?t0 = "\<lparr>tl_running = 0, tl_preemptible = 0, tl_running_of = [], tl_records = ?records\<rparr>"
  let ?t = "foldl (tally_pod (map n_name ?nodes)) ?t0 (ks_pods s)"
  have counted: "podBound p \<and> p_node p \<in> set (map n_name ?nodes) \<longleftrightarrow> counted s p" for p
    by (auto simp: counted_def)
  have budget: "i64 (foldl (\<lambda>b n. i64 (b + nodeCores n)) 0 ?nodes - r)
      = i64 (sum_list (map nodeCores ?nodes) - r)" for r
    using foldl_i64_sum [of nodeCores 0 ?nodes]
    by (metis (no_types, lifting) add_0 i64_add_left diff_conv_add_uminus)
  have running: "tl_running ?t = i64 (cores_of (counted s) (ks_pods s))"
    using counted by (intro i64_fold_cores_zero) (simp_all add: tally_pod_simps)
  have preempt: "tl_preemptible ?t = i64 (cores_of (\<lambda>p. counted s p \<and> preemptible p) (ks_pods s))"
    by (intro i64_fold_cores_zero) (auto simp: tally_pod_simps counted [symmetric])
  have running_of: "gint (tl_running_of ?t) k = i64 (running_of s k)" if "k \<noteq> []" for k
    unfolding running_of_def using that
    by (intro i64_fold_cores_zero [where f = "\<lambda>t. gint (tl_running_of t) k"])
      (auto simp: tally_pod_simps counted [symmetric])
  have records: "map_of (tl_records ?t) = record_of s"
    by (rule ext) (simp add: map_of_tally_records map_of_group_records record_of_def split: option.splits)
  have ok: "gomap_ok (tl_records ?t)"
    by (intro gomap_ok_tally_records) (simp add: gomap_ok_group_records)
  have "(\<Sum>(k, n)\<leftarrow>tl_records ?t. max 0 (i64 (n - gint (tl_running_of ?t) k))) = promised_cores s"
    unfolding sum_gomap [OF ok] records promised_cores_def
    by (intro sum.cong) (auto simp: running_of dest: record_of_key)
  then have promised: "foldl (promise (tl_running_of ?t)) 0 (tl_records ?t) = i64 (promised_cores s)"
    using foldl_promise [of "tl_running_of ?t" 0 "tl_records ?t"]
      foldl_promise_wrapped [of 0 "tl_running_of ?t" "tl_records ?t"] by simp
  show ?thesis
    by (simp add: Capacity_def capacity_of_def Let_def budget running preempt promised max_def)
qed

section \<open>Properties\<close>

text \<open>
  C24: the budget is read in one pass but means this: allocatable cores of the schedulable
  nodes less the reserve; the cores of the bound, unfinished pods on those nodes, and of those
  among them that are unprotected and below the ceiling; what is left free; and, of every
  admission record, what its running members do not use yet. All sums are 64-bit. An error is
  one of the three lists.
\<close>
theorem Capacity_reads:
  "case Capacity m s of
     Inl e \<Rightarrow> e \<in> {''list nodes'', ''list pods'', ''list podgroups''} \<and> ks_down s e
   | Inr c \<Rightarrow>
       ca_budget c = max 0 (i64 (sum_list (map nodeCores (filter nodeSchedulable (ks_nodes s))) - mu_reserve m)) \<and>
       ca_running c = i64 (cores_of (counted s) (ks_pods s)) \<and>
       ca_preemptible c = i64 (cores_of (\<lambda>p. counted s p \<and> preemptible p) (ks_pods s)) \<and>
       ca_free c = max 0 (i64 (ca_budget c - ca_running c)) \<and>
       ca_promised c = i64 (promised_cores s)"
  by (simp add: Capacity_cases Let_def)

lemma last_of_None: "last_of f xs = None \<longleftrightarrow> (\<forall>x \<in> set xs. f x = None)"
  by (induction xs) (auto split: option.splits)

lemma finite_dom_record_of: "finite (dom (record_of s))"
proof (rule finite_subset)
  let ?keys = "(\<lambda>p. object_key (p_namespace p) (p_name p)) ` set (ks_pods s) \<union>
    (\<lambda>pg. object_key (pg_namespace pg) (pg_name pg)) ` set (ks_groups s)"
  show "finite ?keys" by simp
  show "dom (record_of s) \<subseteq> ?keys"
  proof
    fix k assume "k \<in> dom (record_of s)"
    then have "last_of (pod_record k) (ks_pods s) \<noteq> None \<or> last_of (group_record k) (ks_groups s) \<noteq> None"
      by (auto simp: record_of_def split: option.splits)
    then show "k \<in> ?keys"
      by (auto simp: last_of_None pod_record_def group_record_def split: if_splits)
  qed
qed

lemma last_of_map: "last_of f (map h xs) = last_of (\<lambda>x. f (h x)) xs"
  by (induction xs) simp_all

lemma last_of_cong: "(\<And>x. x \<in> set xs \<Longrightarrow> f x = g x) \<Longrightarrow> last_of f xs = last_of g xs"
  by (induction xs) (auto split: option.split)

lemma last_of_const:
  "last_of (\<lambda>x. if P x then Some y else None) xs = (if list_ex P xs then Some y else None)"
  by (induction xs) simp_all

lemma admitted_cores_recorded:
  "0 < cores \<Longrightarrow> cores < 2 ^ 63 \<Longrightarrow>
     admitted_cores (gput ann AdmittedCoresAnnotation (show_int cores)) = Some cores"
  by (simp add: admitted_cores_def atoi_show_int)

text \<open>Recording an admission adds exactly its record.\<close>

lemma record_of_patched:
  assumes "record_of s (object_key ns g) = None" and "list_ex (is_group ns g) (ks_groups s)"
    and "\<not> ks_down s ''patch podgroups''" and "0 < cores" "cores < 2 ^ 63"
  shows "record_of (patch_group s ns g AdmittedCoresAnnotation (show_int cores)) =
    (record_of s)(object_key ns g \<mapsto> cores)"
proof
  fix k
  let ?h = "\<lambda>pg. pg\<lparr>pg_annotations := gput (pg_annotations pg) AdmittedCoresAnnotation (show_int cores)\<rparr>"
  let ?groups = "map (\<lambda>pg. if is_group ns g pg then ?h pg else pg) (ks_groups s)"
  have new: "group_record k (?h pg) = (if k = object_key ns g then Some cores else None)"
    if "is_group ns g pg" for pg
    using that admitted_cores_recorded [OF assms(4,5)] by (auto simp: group_record_def is_group_def)
  have groups: "last_of (group_record k) ?groups =
      (if k = object_key ns g then Some cores else last_of (group_record k) (ks_groups s))"
  proof (cases "k = object_key ns g")
    case True
    then have "\<forall>pg \<in> set (ks_groups s). group_record k pg = None"
      using assms(1) by (auto simp: record_of_def last_of_None split: option.splits)
    then have "last_of (group_record k) ?groups = last_of (\<lambda>pg. if is_group ns g pg then Some cores else None) (ks_groups s)"
      unfolding last_of_map using new True by (intro last_of_cong) auto
    then show ?thesis using assms(2) True by (simp add: last_of_const)
  next
    case False
    have "group_record k (if is_group ns g pg then ?h pg else pg) = group_record k pg" for pg
      using False by (auto simp: group_record_def is_group_def)
    then have "last_of (group_record k) ?groups = last_of (group_record k) (ks_groups s)"
      unfolding last_of_map by simp
    then show ?thesis using False by simp
  qed
  show "record_of (patch_group s ns g AdmittedCoresAnnotation (show_int cores)) k =
      ((record_of s)(object_key ns g \<mapsto> cores)) k"
    using assms(1,3) groups by (auto simp: record_of_def patch_group_def split: option.splits)
qed

lemma promised_cores_patched:
  assumes "record_of s (object_key ns g) = None" and "list_ex (is_group ns g) (ks_groups s)"
    and "\<not> ks_down s ''patch podgroups''" and "0 < cores" "cores < 2 ^ 63"
  shows "promised_cores (patch_group s ns g AdmittedCoresAnnotation (show_int cores)) =
    promised_cores s + max 0 (i64 (cores - i64 (running_of s (object_key ns g))))"
proof -
  let ?s = "patch_group s ns g AdmittedCoresAnnotation (show_int cores)"
  have run: "running_of ?s k = running_of s k" for k
    by (simp add: running_of_def counted_def patch_group_def)
  have "promised_cores ?s = (\<Sum>k \<in> insert (object_key ns g) (dom (record_of s)).
      max 0 (i64 (the (((record_of s)(object_key ns g \<mapsto> cores)) k) - i64 (running_of s k))))"
    by (simp add: promised_cores_def record_of_patched [OF assms] run)
  also have "\<dots> = max 0 (i64 (cores - i64 (running_of s (object_key ns g)))) +
      (\<Sum>k \<in> dom (record_of s). max 0 (i64 (the (((record_of s)(object_key ns g \<mapsto> cores)) k) - i64 (running_of s k))))"
    using assms(1) by (subst sum.insert) (auto simp: finite_dom_record_of)
  also have "(\<Sum>k \<in> dom (record_of s). max 0 (i64 (the (((record_of s)(object_key ns g \<mapsto> cores)) k) - i64 (running_of s k))))
      = promised_cores s"
    unfolding promised_cores_def using assms(1) by (intro sum.cong) auto
  finally show ?thesis by simp
qed

text \<open>
  C8: the budget is never over-promised. When a group that has a PodGroup and no record yet
  is admitted with admission control on and its cores are recorded, then the cores promised
  to groups afterwards still fit in what is reachable, and recording changes nothing else the
  budget reads. (No sum leaves 64 bits, and the running cores of the group are not negative.)
\<close>
theorem admission_never_overpromises:
  assumes "mu_control m" and "mu_client m = Some s" and "Capacity m s = Inr c"
    and "0 < cores" and "cores < 2 ^ 63" and "fits64 (cores + promised_cores s)"
    and "Admit m (object_key ns g) cores = None"
    and "get_group s ns g = Some pg" and "record_of s (object_key ns g) = None"
    and "gstr (pg_annotations pg) AdmittedCoresAnnotation = []"
    and "\<not> ks_down s ''patch podgroups''"
    and "0 \<le> running_of s (object_key ns g)" and "running_of s (object_key ns g) < 2 ^ 63"
  shows "\<exists>s' c'. mu_client (RecordAdmission m ns g cores) = Some s' \<and>
    Capacity (RecordAdmission m ns g cores) s' = Inr c' \<and>
    ca_promised c' \<le> Reachable c' \<and> ca_promised c' = promised_cores s' \<and>
    record_of s' = (record_of s)(object_key ns g \<mapsto> cores) \<and>
    c' = c\<lparr>ca_promised := ca_promised c'\<rparr>"
proof -
  let ?s = "patch_group s ns g AdmittedCoresAnnotation (show_int cores)"
  let ?k = "object_key ns g"
  have exists: "list_ex (is_group ns g) (ks_groups s)"
    using assms(8) by (auto simp: get_group_def list_ex_iff find_Some_iff split: if_splits)
  note patched = promised_cores_patched [OF assms(9) exists assms(11,4,5)]
  note recorded = record_of_patched [OF assms(9) exists assms(11,4,5)]
  have m': "RecordAdmission m ns g cores = m\<lparr>mu_client := Some ?s\<rparr>"
    using assms(2,4,8,10) by (simp add: RecordAdmission_def)
  have old: "0 \<le> promised_cores s" by (simp add: promised_cores_def sum_nonneg)
  have i64s: "i64 (running_of s ?k) = running_of s ?k" "i64 (cores - running_of s ?k) = cores - running_of s ?k"
    using assms(4,5,12,13) by (simp_all add: i64_id fits64_def)
  have new: "promised_cores ?s \<le> promised_cores s + cores" "promised_cores s \<le> promised_cores ?s"
    using assms(4,12) by (simp_all add: patched i64s)
  have fits: "i64 (promised_cores s) = promised_cores s" "i64 (promised_cores ?s) = promised_cores ?s"
    using assms(4,6) old new by (auto intro!: i64_id simp: fits64_def)
  have same: "counted ?s = counted s" "ks_pods ?s = ks_pods s" "ks_nodes ?s = ks_nodes s" "ks_down ?s = ks_down s"
    by (auto simp: counted_def patch_group_def fun_eq_iff)
  have c: "c = (case Capacity m s of Inr c \<Rightarrow> c | Inl _ \<Rightarrow> undefined)" using assms(3) by simp
  have "\<not> i64 (cores + ca_promised c) > Reachable c"
    using assms(1,2,3,4,7) by (auto simp: Admit_def split: if_splits)
  moreover have "ca_promised c = promised_cores s"
    using assms(3) fits(1) by (auto simp: Capacity_cases Let_def split: if_splits)
  ultimately have room: "cores + promised_cores s \<le> Reachable c"
    using assms(6) by (simp add: i64_id)
  have "Capacity (m\<lparr>mu_client := Some ?s\<rparr>) ?s = Inr (c\<lparr>ca_promised := promised_cores ?s\<rparr>)"
    using assms(3) by (auto simp: Capacity_cases same Let_def fits split: if_splits)
  moreover have "Reachable (c\<lparr>ca_promised := promised_cores ?s\<rparr>) = Reachable c"
    by (simp add: Reachable_def)
  ultimately show ?thesis
    using room new(1) recorded by (intro exI conjI) (auto simp: m')
qed

definition budget_node :: node where
  "budget_node = blank_node\<lparr>n_name := ''w1'', n_allocatable := [(''cpu'', units 8)]\<rparr>"

definition store_with :: "pod list \<Rightarrow> pod_group list \<Rightarrow> kube_store" where
  "store_with pods groups = \<lparr>ks_groups = groups, ks_pods = pods, ks_nodes = [budget_node],
     ks_jobs = [], ks_replicasets = [], ks_rbac = [], ks_now = 0, ks_down = (\<lambda>_. False)\<rparr>"

definition mutator_with :: "kube_store \<Rightarrow> int \<Rightarrow> mutator" where
  "mutator_with s reserve =
     \<lparr>mu_keys = [], mu_client = Some s, mu_control = True, mu_reserve = reserve\<rparr>"

definition fresh_group :: pod_group where
  "fresh_group = \<lparr>pg_name = ''g'', pg_namespace = ''ns'', pg_labels = [], pg_annotations = [],
     pg_min_count = 2, pg_created = 0\<rparr>"

theorem admission_never_overpromises_witness:
  "\<exists>s' c'. mu_client (RecordAdmission (mutator_with (store_with [] [fresh_group]) 0) ''ns'' ''g'' 6) = Some s' \<and>
     Capacity (RecordAdmission (mutator_with (store_with [] [fresh_group]) 0) ''ns'' ''g'' 6) s' = Inr c' \<and>
     ca_promised c' \<le> Reachable c'"
proof -
  let ?s = "store_with [] [fresh_group]"
  let ?m = "mutator_with ?s 0"
  have norec: "record_of ?s k = None" for k
    by (simp add: record_of_def store_with_def group_record_def admitted_cores_def fresh_group_def atoi_def Let_def)
  have run: "running_of ?s k = 0" for k by (simp add: running_of_def store_with_def)
  have promised: "promised_cores ?s = 0"
  proof -
    have "dom (record_of ?s) = {}" using norec by auto
    then show ?thesis unfolding promised_cores_def by simp
  qed
  have "Capacity ?m ?s = Inr \<lparr>ca_budget = 8, ca_running = 0, ca_free = 8, ca_preemptible = 0, ca_promised = 0\<rparr>"
    by code_simp
  moreover from this have "Admit ?m (object_key ''ns'' ''g'') 6 = None"
    by (simp add: Admit_def mutator_with_def Reachable_def i64_id fits64_def)
  moreover have "get_group ?s ''ns'' ''g'' = Some fresh_group" by code_simp
  ultimately show ?thesis
    using admission_never_overpromises [of ?m ?s _ 6 "''ns''" "''g''" fresh_group]
    by (auto simp: mutator_with_def store_with_def fresh_group_def fits64_def
        norec [unfolded store_with_def fresh_group_def]
        run [unfolded store_with_def fresh_group_def]
        promised [unfolded store_with_def fresh_group_def])
qed

section \<open>Overlapping admissions\<close>

lemma get_group_patched:
  assumes "(ns', g') \<noteq> (ns, g)"
  shows "get_group (patch_group s ns g a v) ns' g' = get_group s ns' g'"
proof -
  let ?h = "\<lambda>pg. if is_group ns g pg then pg\<lparr>pg_annotations := gput (pg_annotations pg) a v\<rparr> else pg"
  have "is_group ns' g' (?h pg) = is_group ns' g' pg" "is_group ns' g' pg \<Longrightarrow> ?h pg = pg" for pg
    using assms by (auto simp: is_group_def)
  then have "find (is_group ns' g') (map ?h pgs) = find (is_group ns' g') pgs" for pgs
    by (induction pgs) simp_all
  then show ?thesis by (simp add: get_group_def patch_group_def)
qed

text \<open>Recording a group none of whose pods runs adds its cores to the promised ones.\<close>

lemma record_adds:
  assumes "mu_client m = Some s" "Capacity m s = Inr c" "0 < cores" "cores < 2 ^ 63"
    and "fits64 (cores + promised_cores s)" "get_group s ns g = Some pg" "record_of s (object_key ns g) = None"
    and "gstr (pg_annotations pg) AdmittedCoresAnnotation = []" "\<not> ks_down s ''patch podgroups''"
    and "running_of s (object_key ns g) = 0"
  obtains s' where "RecordAdmission m ns g cores = m\<lparr>mu_client := Some s'\<rparr>"
    "Capacity m s' = Inr (c\<lparr>ca_promised := cores + promised_cores s\<rparr>)"
    "promised_cores s' = cores + promised_cores s" "record_of s' = (record_of s)(object_key ns g \<mapsto> cores)"
    "running_of s' = running_of s" "ks_down s' = ks_down s"
    "\<And>ns' g'. (ns', g') \<noteq> (ns, g) \<Longrightarrow> get_group s' ns' g' = get_group s ns' g'"
proof
  let ?s = "patch_group s ns g AdmittedCoresAnnotation (show_int cores)"
  have exists: "list_ex (is_group ns g) (ks_groups s)"
    using assms(6) by (auto simp: get_group_def list_ex_iff find_Some_iff split: if_splits)
  show promised: "promised_cores ?s = cores + promised_cores s"
    using promised_cores_patched [OF assms(7) exists assms(9,3,4)] assms(3,4,10) by (simp add: i64_id fits64_def)
  show "record_of ?s = (record_of s)(object_key ns g \<mapsto> cores)"
    by (rule record_of_patched [OF assms(7) exists assms(9,3,4)])
  show "RecordAdmission m ns g cores = m\<lparr>mu_client := Some ?s\<rparr>"
    using assms(1,3,6,8) by (simp add: RecordAdmission_def)
  have same: "counted ?s = counted s" "ks_pods ?s = ks_pods s" "ks_nodes ?s = ks_nodes s"
    by (auto simp: counted_def patch_group_def fun_eq_iff)
  then show "running_of ?s = running_of s" by (simp add: running_of_def fun_eq_iff)
  show down: "ks_down ?s = ks_down s" by (simp add: patch_group_def)
  have "i64 (promised_cores ?s) = cores + promised_cores s" using assms(5) by (simp add: promised i64_id)
  then show "Capacity m ?s = Inr (c\<lparr>ca_promised := cores + promised_cores s\<rparr>)"
    using assms(2) by (auto simp: Capacity_cases same down Let_def split: if_splits)
qed (rule get_group_patched)

text \<open>
  C39: admission is safe one request at a time, not for two that overlap. Let two groups with a
  PodGroup, no record and no running pod each be admitted in the same state of the cluster, but
  let both together need more than can still be promised. In turn, the second is refused once the
  first is recorded. When the second has read the budget before the first was recorded, both are
  recorded, and the promised cores exceed what is reachable by exactly what does not fit.
\<close>
theorem overlapping_admissions:
  assumes "mu_control m" "mu_client m = Some s" "Capacity m s = Inr c"
    and "Admit m (object_key ns1 g1) n1 = None" "Admit m (object_key ns2 g2) n2 = None"
    and "0 < n1" "n1 < 2 ^ 63" "0 < n2" "n2 < 2 ^ 63" "fits64 (n2 + (n1 + promised_cores s))"
    and "object_key ns1 g1 \<noteq> object_key ns2 g2"
    and "get_group s ns1 g1 = Some pg1" "gstr (pg_annotations pg1) AdmittedCoresAnnotation = []"
    and "get_group s ns2 g2 = Some pg2" "gstr (pg_annotations pg2) AdmittedCoresAnnotation = []"
    and "record_of s (object_key ns1 g1) = None" "record_of s (object_key ns2 g2) = None"
    and "running_of s (object_key ns1 g1) = 0" "running_of s (object_key ns2 g2) = 0"
    and "\<not> ks_down s ''patch podgroups''"
    and "Reachable c < n1 + n2 + promised_cores s"
  shows "Admit (RecordAdmission m ns1 g1 n1) (object_key ns2 g2) n2 \<noteq> None \<and>
    (\<exists>s' c'. mu_client (RecordAdmission (RecordAdmission m ns1 g1 n1) ns2 g2 n2) = Some s' \<and>
       Capacity m s' = Inr c' \<and> Reachable c' = Reachable c \<and>
       ca_promised c' = n1 + n2 + promised_cores s \<and> Reachable c' < ca_promised c')"
proof -
  have old: "0 \<le> promised_cores s" by (simp add: promised_cores_def sum_nonneg)
  then have "fits64 (n1 + promised_cores s)" using assms(6,8,10) by (simp add: fits64_def)
  then obtain s1 where s1: "RecordAdmission m ns1 g1 n1 = m\<lparr>mu_client := Some s1\<rparr>"
    "Capacity m s1 = Inr (c\<lparr>ca_promised := n1 + promised_cores s\<rparr>)"
    "promised_cores s1 = n1 + promised_cores s" "record_of s1 = (record_of s)(object_key ns1 g1 \<mapsto> n1)"
    "running_of s1 = running_of s" "ks_down s1 = ks_down s"
    "\<And>ns' g'. (ns', g') \<noteq> (ns1, g1) \<Longrightarrow> get_group s1 ns' g' = get_group s ns' g'"
    using record_adds [OF assms(2,3,6,7) _ assms(12,16,13,20,18)] by blast
  let ?m = "m\<lparr>mu_client := Some s1\<rparr>"
  have reserve: "Capacity ?m = Capacity m" by (simp add: Capacity_def fun_eq_iff)
  have differ: "(ns2, g2) \<noteq> (ns1, g1)" using assms(11) by auto
  have second: "mu_client ?m = Some s1" "Capacity ?m s1 = Inr (c\<lparr>ca_promised := n1 + promised_cores s\<rparr>)"
    "fits64 (n2 + promised_cores s1)" "get_group s1 ns2 g2 = Some pg2" "record_of s1 (object_key ns2 g2) = None"
    "\<not> ks_down s1 ''patch podgroups''" "running_of s1 (object_key ns2 g2) = 0"
    using s1(2-6) s1(7) [OF differ] assms(10,11,14,17,19,20) by (simp_all add: reserve)
  obtain s2 where s2: "RecordAdmission ?m ns2 g2 n2 = ?m\<lparr>mu_client := Some s2\<rparr>"
    "Capacity ?m s2 = Inr (c\<lparr>ca_promised := n1 + promised_cores s, ca_promised := n2 + promised_cores s1\<rparr>)"
    by (rule record_adds [OF second(1,2) assms(8,9) second(3-5) assms(15) second(6,7)])
  have reachable: "Reachable (c\<lparr>ca_promised := n\<rparr>) = Reachable c" for n by (simp add: Reachable_def)
  have "i64 (n2 + (n1 + promised_cores s)) > Reachable c" using assms(10,21) by (simp add: i64_id)
  then have "Admit ?m (object_key ns2 g2) n2 \<noteq> None"
    using assms(1,8) s1(2) by (simp add: Admit_def reserve reachable)
  with s1(1,3) s2 assms(21) show ?thesis by (simp add: reserve reachable)
qed

text \<open>Two groups of six cores, and one node of eight.\<close>

definition two_groups :: mutator where
  "two_groups = mutator_with (store_with [] [fresh_group, fresh_group\<lparr>pg_name := ''h''\<rparr>]) 0"

theorem overlapping_admissions_witness:
  "Admit two_groups ''ns/g'' 6 = None \<and> Admit two_groups ''ns/h'' 6 = None \<and>
   Admit (RecordAdmission two_groups ''ns'' ''g'' 6) ''ns/h'' 6 \<noteq> None \<and>
   (\<exists>s' c'. mu_client (RecordAdmission (RecordAdmission two_groups ''ns'' ''g'' 6) ''ns'' ''h'' 6) = Some s' \<and>
      Capacity two_groups s' = Inr c' \<and> Reachable c' = 8 \<and> ca_promised c' = 12)"
proof -
  let ?s = "store_with [] [fresh_group, fresh_group\<lparr>pg_name := ''h''\<rparr>]"
  have norec: "record_of ?s k = None" for k
    by (simp add: record_of_def store_with_def group_record_def admitted_cores_def fresh_group_def atoi_def Let_def)
  have run: "running_of ?s k = 0" for k by (simp add: running_of_def store_with_def)
  have "dom (record_of ?s) = {}" using norec by auto
  then have promised: "promised_cores ?s = 0" unfolding promised_cores_def by simp
  have cap: "Capacity two_groups ?s = Inr \<lparr>ca_budget = 8, ca_running = 0, ca_free = 8, ca_preemptible = 0, ca_promised = 0\<rparr>"
    by code_simp
  have on: "mu_control two_groups" "mu_client two_groups = Some ?s" "\<not> ks_down ?s ''patch podgroups''"
    by (simp_all add: two_groups_def mutator_with_def store_with_def)
  have keys: "object_key ''ns'' ''g'' = ''ns/g''" "object_key ''ns'' ''h'' = ''ns/h''"
    "get_group ?s ''ns'' ''g'' = Some fresh_group" "get_group ?s ''ns'' ''h'' = Some (fresh_group\<lparr>pg_name := ''h''\<rparr>)"
    "gstr (pg_annotations fresh_group) AdmittedCoresAnnotation = []"
    "gstr (pg_annotations (fresh_group\<lparr>pg_name := ''h''\<rparr>)) AdmittedCoresAnnotation = []"
    by code_simp+
  have admitted: "Admit two_groups k 6 = None" for k
    using on cap by (simp add: Admit_def Reachable_def i64_id fits64_def)
  from overlapping_admissions [OF on(1,2) cap admitted admitted _ _ _ _ _ _ keys(3,5,4,6) norec norec run run on(3),
      unfolded keys(1,2) promised]
  moreover have "i64 8 = 8" by (simp add: i64_id fits64_def)
  ultimately show ?thesis using admitted by (auto simp: Reachable_def fits64_def)
qed

text \<open>
  The reserve is not held back from work that could be preempted. On one node of eight
  cores with a reserve of four and an unprotected pod running on all of it, the budget is four
  cores and eight are reachable, so a group of eight is admitted.
\<close>
lemma reserve_is_preemptible:
  "let busy = blank_pod\<lparr>p_name := ''a'', p_namespace := ''ns'', p_node := ''w1'', p_phase := ''Running'',
         p_containers := [blank_container\<lparr>c_requests := [(''cpu'', units 8)]\<rparr>]\<rparr>;
       s = store_with [busy] []; m = mutator_with s 4
   in (case Capacity m s of Inl _ \<Rightarrow> False | Inr c \<Rightarrow> ca_budget c = 4 \<and> Reachable c = 8) \<and>
      Admit m ''ns/g'' 8 = None"
  by code_simp

text \<open>
  A standalone quantum pod that has finished is still promised its cores for as long as
  the object exists, although the budget is said to count only groups that have not started:
  the next pod is refused on an idle cluster.
\<close>
lemma finished_pod_still_promised:
  "let finished = blank_pod\<lparr>p_name := ''a'', p_namespace := ''ns'', p_node := ''w1'', p_phase := ''Succeeded'',
         p_annotations := Some [(AdmittedCoresAnnotation, ''8''), (AdmittedGroupAnnotation, ''ns/a'')]\<rparr>;
       s = store_with [finished] []; m = mutator_with s 0
   in (case Capacity m s of Inl _ \<Rightarrow> False
       | Inr c \<Rightarrow> ca_running c = 0 \<and> ca_free c = 8 \<and> ca_promised c = 8) \<and>
      Admit m ''ns/b'' 1 \<noteq> None"
  by code_simp

end
