(* ===== verification/Pod_Patch.thy ===== *)
theory Pod_Patch
  imports Admission
begin

text \<open>
  \<open>pkg/webhook/spec/spec.go\<close>: JSON patch operations on a pod, the inspection of pods and the
  injection of environment variables. An operation is a constructor for each shape the code
  builds; \<open>op_path\<close> gives its JSON pointer and \<open>apply_op\<close> what RFC 6902 makes of it on the
  submitted pod (None when its target is missing). Building operations also updates the pod in
  place, so that later operations are built for what the patch makes of the pod; \<open>sound\<close>
  states that this bookkeeping is right.
\<close>

section \<open>Operations\<close>

datatype container_op =
    AddEnvs "env_var list"
  | AddEnv env_var
  | AddMounts "volume_mount list"
  | AddMount volume_mount
  | RemoveRequest string
  | RemoveLimit string

datatype op =
    AddAnnotations "(string, string) gomap"
  | AddAnnotation string string
  | AddLabels "(string, string) gomap"
  | AddLabel string string
  | InContainer nat container_op
  | AddVolumes "string list"
  | AddVolume string
  | AddInits "container list"
  | AddInit container
  | AddContainers "container list"
  | AddContainer container
  | AddGates "string list"
  | AddGate string
  | AddSchedulingGroup string
  | AddPriorityClass string
  | ClearPriority
  | AddServiceAccount string

text \<open>\<open>strings.ReplaceAll\<close> of a single byte.\<close>

definition replace_byte :: "char \<Rightarrow> string \<Rightarrow> string \<Rightarrow> string" where
  "replace_byte c new s = concat (map (\<lambda>x. if x = c then new else [x]) s)"

definition escapeJSONPointer :: "string \<Rightarrow> string" where
  "escapeJSONPointer s = replace_byte (CHR ''/'') ''~1'' (replace_byte (CHR ''~'') ''~0'' s)"

fun container_op_path :: "container_op \<Rightarrow> string" where
  "container_op_path (AddEnvs _) = ''env''"
| "container_op_path (AddEnv _) = ''env/-''"
| "container_op_path (AddMounts _) = ''volumeMounts''"
| "container_op_path (AddMount _) = ''volumeMounts/-''"
| "container_op_path (RemoveRequest k) = ''resources/requests/'' @ escapeJSONPointer k"
| "container_op_path (RemoveLimit k) = ''resources/limits/'' @ escapeJSONPointer k"

fun op_path :: "op \<Rightarrow> string" where
  "op_path (AddAnnotations _) = ''/metadata/annotations''"
| "op_path (AddAnnotation k _) = ''/metadata/annotations/'' @ escapeJSONPointer k"
| "op_path (AddLabels _) = ''/metadata/labels''"
| "op_path (AddLabel k _) = ''/metadata/labels/'' @ escapeJSONPointer k"
| "op_path (InContainer i o') = ''/spec/containers/'' @ show_nat i @ ''/'' @ container_op_path o'"
| "op_path (AddVolumes _) = ''/spec/volumes''"
| "op_path (AddVolume _) = ''/spec/volumes/-''"
| "op_path (AddInits _) = ''/spec/initContainers''"
| "op_path (AddInit _) = ''/spec/initContainers/-''"
| "op_path (AddContainers _) = ''/spec/containers''"
| "op_path (AddContainer _) = ''/spec/containers/-''"
| "op_path (AddGates _) = ''/spec/schedulingGates''"
| "op_path (AddGate _) = ''/spec/schedulingGates/-''"
| "op_path (AddSchedulingGroup _) = ''/spec/schedulingGroup''"
| "op_path (AddPriorityClass _) = ''/spec/priorityClassName''"
| "op_path ClearPriority = ''/spec/priority''"
| "op_path (AddServiceAccount _) = ''/spec/serviceAccountName''"

fun op_verb :: "op \<Rightarrow> string" where
  "op_verb (InContainer _ (RemoveRequest _)) = ''remove''"
| "op_verb (InContainer _ (RemoveLimit _)) = ''remove''"
| "op_verb _ = ''add''"

text \<open>
  \<open>MarshalJSON\<close>: the value, when there is one, is encoded by the library (\<open>encode\<close>); null is
  written only for the operation that asks for it.
\<close>

definition op_json :: "(op \<Rightarrow> jval) \<Rightarrow> op \<Rightarrow> jval" where
  "op_json encode o' =
     JObj ([(''op'', JStr (op_verb o')), (''path'', JStr (op_path o'))]
       @ (if o' = ClearPriority then [(''value'', JNull)]
          else if op_verb o' = ''remove'' then [] else [(''value'', encode o')]))"

section \<open>What an operation does\<close>

text \<open>
  An empty array is not written in the JSON of an object, so appending to one fails, as does
  adding to a map that is absent or removing an absent key.
\<close>

fun apply_container_op :: "container_op \<Rightarrow> container \<Rightarrow> container option" where
  "apply_container_op (AddEnvs es) c = Some (c\<lparr>c_env := es\<rparr>)"
| "apply_container_op (AddEnv e) c = (if c_env c = [] then None else Some (c\<lparr>c_env := c_env c @ [e]\<rparr>))"
| "apply_container_op (AddMounts ms) c = Some (c\<lparr>c_mounts := ms\<rparr>)"
| "apply_container_op (AddMount v) c =
     (if c_mounts c = [] then None else Some (c\<lparr>c_mounts := c_mounts c @ [v]\<rparr>))"
| "apply_container_op (RemoveRequest k) c =
     (if map_of (c_requests c) k = None then None else Some (c\<lparr>c_requests := gdel (c_requests c) k\<rparr>))"
| "apply_container_op (RemoveLimit k) c =
     (if map_of (c_limits c) k = None then None else Some (c\<lparr>c_limits := gdel (c_limits c) k\<rparr>))"

fun apply_op :: "op \<Rightarrow> pod \<Rightarrow> pod option" where
  "apply_op (AddAnnotations m) p = Some (p\<lparr>p_annotations := Some m\<rparr>)"
| "apply_op (AddAnnotation k v) p =
     (case p_annotations p of None \<Rightarrow> None | Some m \<Rightarrow> Some (p\<lparr>p_annotations := Some (gput m k v)\<rparr>))"
| "apply_op (AddLabels m) p = Some (p\<lparr>p_labels := Some m\<rparr>)"
| "apply_op (AddLabel k v) p =
     (case p_labels p of None \<Rightarrow> None | Some m \<Rightarrow> Some (p\<lparr>p_labels := Some (gput m k v)\<rparr>))"
| "apply_op (InContainer i o') p =
     (if i < length (p_containers p) then
        (case apply_container_op o' (p_containers p ! i) of
           None \<Rightarrow> None
         | Some c \<Rightarrow> Some (p\<lparr>p_containers := (p_containers p)[i := c]\<rparr>))
      else None)"
| "apply_op (AddVolumes vs) p = Some (p\<lparr>p_volumes := vs\<rparr>)"
| "apply_op (AddVolume v) p =
     (if p_volumes p = [] then None else Some (p\<lparr>p_volumes := p_volumes p @ [v]\<rparr>))"
| "apply_op (AddInits cs) p = Some (p\<lparr>p_init := cs\<rparr>)"
| "apply_op (AddInit c) p = (if p_init p = [] then None else Some (p\<lparr>p_init := p_init p @ [c]\<rparr>))"
| "apply_op (AddContainers cs) p = Some (p\<lparr>p_containers := cs\<rparr>)"
| "apply_op (AddContainer c) p =
     (if p_containers p = [] then None else Some (p\<lparr>p_containers := p_containers p @ [c]\<rparr>))"
| "apply_op (AddGates gs) p = Some (p\<lparr>p_gates := gs\<rparr>)"
| "apply_op (AddGate g) p = (if p_gates p = [] then None else Some (p\<lparr>p_gates := p_gates p @ [g]\<rparr>))"
| "apply_op (AddSchedulingGroup g) p = Some (p\<lparr>p_group := Some \<lparr>sg_name = Some g\<rparr>\<rparr>)"
| "apply_op (AddPriorityClass k) p = Some (p\<lparr>p_priority_class := k\<rparr>)"
| "apply_op ClearPriority p = Some (p\<lparr>p_priority := None\<rparr>)"
| "apply_op (AddServiceAccount a) p = Some (p\<lparr>p_service_account := a\<rparr>)"

fun apply_ops :: "op list \<Rightarrow> pod \<Rightarrow> pod option" where
  "apply_ops [] p = Some p"
| "apply_ops (o' # os) p = (case apply_op o' p of None \<Rightarrow> None | Some p' \<Rightarrow> apply_ops os p')"

fun apply_container_ops :: "container_op list \<Rightarrow> container \<Rightarrow> container option" where
  "apply_container_ops [] c = Some c"
| "apply_container_ops (o' # os) c =
     (case apply_container_op o' c of None \<Rightarrow> None | Some c' \<Rightarrow> apply_container_ops os c')"

lemma apply_ops_append:
  "apply_ops (xs @ ys) p = (case apply_ops xs p of None \<Rightarrow> None | Some p' \<Rightarrow> apply_ops ys p')"
  by (induction xs arbitrary: p) (auto split: option.split)

lemma apply_container_ops_append:
  "apply_container_ops (xs @ ys) c =
     (case apply_container_ops xs c of None \<Rightarrow> None | Some c' \<Rightarrow> apply_container_ops ys c')"
  by (induction xs arbitrary: c) (auto split: option.split)

section \<open>Inspection\<close>

definition RequestsFluxionResource :: "container \<Rightarrow> bool" where
  "RequestsFluxionResource c = list_ex (\<lambda>(k, _). has_prefix k FluxionResourcePrefix) (c_requests c)"

definition PodRequestsFluxionResource :: "pod \<Rightarrow> bool" where
  "PodRequestsFluxionResource p = list_ex RequestsFluxionResource (p_containers p)"

definition PodRequestsResource :: "pod \<Rightarrow> string \<Rightarrow> bool" where
  "PodRequestsResource p name =
     list_ex (\<lambda>c. list_ex (\<lambda>(k, _). k = name) (c_requests c)) (p_containers p)"

definition HasEnv :: "container \<Rightarrow> string \<Rightarrow> bool" where
  "HasEnv c name = list_ex (\<lambda>e. ev_name e = name) (c_env c)"

definition Label :: "pod \<Rightarrow> string \<Rightarrow> string" where
  "Label p key = nstr (p_labels p) key"

definition Annotation :: "pod \<Rightarrow> string \<Rightarrow> string" where
  "Annotation p key = nstr (p_annotations p) key"

definition no_source :: env_source where
  "no_source = \<lparr>field_ref = None, secret_ref = None, config_ref = None\<rparr>"

definition FieldEnv :: "string \<Rightarrow> string \<Rightarrow> env_var" where
  "FieldEnv envName fieldPath =
     \<lparr>ev_name = envName, ev_value = [], ev_from = Some (no_source\<lparr>field_ref := Some fieldPath\<rparr>)\<rparr>"

definition AnnotationEnv :: "string \<Rightarrow> string \<Rightarrow> env_var" where
  "AnnotationEnv envName annotationKey =
     FieldEnv envName (''metadata.annotations['' @ [CHR 0x27] @ annotationKey @ [CHR 0x27] @ '']'')"

definition ValueEnv :: "string \<Rightarrow> string \<Rightarrow> env_var" where
  "ValueEnv envName val = \<lparr>ev_name = envName, ev_value = val, ev_from = None\<rparr>"

text \<open>\<open>InjectedEnv\<close> of \<open>webhook.go\<close>.\<close>

definition InjectedEnv :: "mutator \<Rightarrow> env_var list" where
  "InjectedEnv m =
     AnnotationEnv (EnvVarPrefix @ ''BACKEND'') BackendAnnotation
     # map (\<lambda>k. AnnotationEnv (EnvVarName k) (AttributeAnnotationPrefix @ k)) (mu_keys m)"

section \<open>Building operations\<close>

text \<open>
  A builder takes the pod and gives operations and the pod updated in place. \<open>then_ops\<close> runs
  one after the other; \<open>each_container\<close> is a loop over the containers.
\<close>

type_synonym pod_builder = "pod \<Rightarrow> op list \<times> pod"

definition then_ops :: "op list \<times> pod \<Rightarrow> pod_builder \<Rightarrow> op list \<times> pod" where
  "then_ops r f = (case r of (os, p) \<Rightarrow> case f p of (os', p') \<Rightarrow> (os @ os', p'))"

fun container_loop ::
    "(container \<Rightarrow> container_op list \<times> container) \<Rightarrow> nat \<Rightarrow> container list
     \<Rightarrow> op list \<times> container list" where
  "container_loop f i [] = ([], [])"
| "container_loop f i (c # cs) =
     (case f c of (os, c') \<Rightarrow>
        case container_loop f (Suc i) cs of (os', cs') \<Rightarrow> (map (InContainer i) os @ os', c' # cs'))"

definition each_container :: "(container \<Rightarrow> container_op list \<times> container) \<Rightarrow> pod_builder" where
  "each_container f p =
     (case container_loop f 0 (p_containers p) of (os, cs) \<Rightarrow> (os, p\<lparr>p_containers := cs\<rparr>))"

text \<open>
  The inner loop of \<open>InjectEnvOps\<close>: presence is tested on the container as it was when the
  loop reached it, emptiness on the updated one.
\<close>

fun inject_envs :: "container \<Rightarrow> container \<Rightarrow> env_var list \<Rightarrow> container_op list \<times> container" where
  "inject_envs c0 c [] = ([], c)"
| "inject_envs c0 c (e # es) =
     (if HasEnv c0 (ev_name e) then inject_envs c0 c es
      else case inject_envs c0 (c\<lparr>c_env := c_env c @ [e]\<rparr>) es of
             (os, c') \<Rightarrow> ((if c_env c = [] then AddEnvs [e] else AddEnv e) # os, c'))"

definition InjectEnvOps :: "env_var list \<Rightarrow> pod_builder" where
  "InjectEnvOps envs =
     each_container (\<lambda>c. if RequestsFluxionResource c then inject_envs c c envs else ([], c))"

end
