(* ===== verification/Patch_Sound.thy ===== *)
theory Patch_Sound
  imports Pod_Patch
begin

text \<open>
  Why the in-place bookkeeping is right. The document the API server has after the operations
  so far may be ahead of the pod the webhook holds (some helpers emit operations without
  updating it), but only in ways that keep every later operation valid.
\<close>

section \<open>Ahead\<close>

definition ahead :: "pod \<Rightarrow> pod \<Rightarrow> bool" where
  "ahead q p \<longleftrightarrow>
     (\<exists>extra. p_containers q = p_containers p @ extra) \<and>
     (p_annotations p = None \<or> p_annotations q \<noteq> None) \<and>
     (p_labels p = None \<or> p_labels q \<noteq> None) \<and>
     (p_volumes p = [] \<or> p_volumes q \<noteq> []) \<and>
     (p_init p = [] \<or> p_init q \<noteq> []) \<and>
     (p_gates p = [] \<or> p_gates q \<noteq> [])"

lemma ahead_refl [simp]: "ahead p p"
  unfolding ahead_def by blast

text \<open>A builder result is sound for a pod when its operations apply to every document ahead of it.\<close>

definition sound_result :: "pod \<Rightarrow> op list \<times> pod \<Rightarrow> bool" where
  "sound_result p r \<longleftrightarrow>
     (\<forall>q. ahead q p \<longrightarrow> (\<exists>q'. apply_ops (fst r) q = Some q' \<and> ahead q' (snd r)))"

definition sound :: "pod_builder \<Rightarrow> bool" where
  "sound f \<longleftrightarrow> (\<forall>p. sound_result p (f p))"

lemma soundI: "(\<And>p. sound_result p (f p)) \<Longrightarrow> sound f"
  by (simp add: sound_def)

lemma soundD: "sound f \<Longrightarrow> sound_result p (f p)"
  by (simp add: sound_def)

lemma sound_result_applies: "sound_result p (os, p') \<Longrightarrow> \<exists>q. apply_ops os p = Some q \<and> ahead q p'"
  using ahead_refl [of p] by (auto simp: sound_result_def)

lemma sound_none [simp]: "sound_result p ([], p)"
  by (simp add: sound_result_def)

lemma sound_append:
  assumes "sound_result p (os, p1)" "sound_result p1 (os', p2)"
  shows "sound_result p (os @ os', p2)"
  unfolding sound_result_def
proof (intro allI impI)
  fix q assume "ahead q p"
  with assms(1) obtain q1 where q1: "apply_ops os q = Some q1" "ahead q1 p1"
    by (auto simp: sound_result_def)
  with assms(2) obtain q2 where "apply_ops os' q1 = Some q2" "ahead q2 p2"
    by (auto simp: sound_result_def)
  with q1 show "\<exists>q'. apply_ops (fst (os @ os', p2)) q = Some q' \<and> ahead q' (snd (os @ os', p2))"
    by (simp add: apply_ops_append)
qed

lemma sound_then:
  assumes "sound_result p r" "sound f"
  shows "sound_result p (then_ops r f)"
proof -
  obtain os p1 where r: "r = (os, p1)" by fastforce
  obtain os' p2 where f: "f p1 = (os', p2)" by fastforce
  show ?thesis
    using sound_append [of p os p1 os' p2] assms(1) soundD [OF assms(2), of p1]
    by (simp add: then_ops_def r f)
qed

lemma sound_Cons:
  assumes "sound_result p ([o'], p1)" "sound_result p1 (os, p2)"
  shows "sound_result p (o' # os, p2)"
  using sound_append [OF assms] by simp

section \<open>Single operations\<close>

text \<open>Operations the webhook emits without, and with, updating its pod.\<close>

lemma sound_silent:
  "sound_result p ([AddSchedulingGroup g], p)"
  "sound_result p ([AddPriorityClass k], p)"
  "sound_result p ([ClearPriority], p)"
  "sound_result p ([AddServiceAccount a], p)"
  "sound_result p ([AddLabels m], p)"
  "p_labels p \<noteq> None \<Longrightarrow> sound_result p ([AddLabel k v], p)"
  "p_annotations p \<noteq> None \<Longrightarrow> sound_result p ([AddAnnotation k v], p)"
  "sound_result p ([AddAnnotations ann], p)"
  "gs \<noteq> [] \<Longrightarrow> sound_result p ([AddGates gs], p)"
  "p_gates p \<noteq> [] \<Longrightarrow> sound_result p ([AddGate g], p)"
  "cs \<noteq> [] \<Longrightarrow> sound_result p ([AddInits cs], p)"
  "p_init p \<noteq> [] \<Longrightarrow> sound_result p ([AddInit c], p)"
  "p_containers p \<noteq> [] \<Longrightarrow> sound_result p ([AddContainer c], p)"
  by (auto simp: sound_result_def ahead_def split: option.split)

lemma sound_mirrored:
  "sound_result p ([AddAnnotations ann], p\<lparr>p_annotations := Some m\<rparr>)"
  "p_annotations p \<noteq> None \<Longrightarrow> sound_result p ([AddAnnotation k v], p\<lparr>p_annotations := Some m\<rparr>)"
  "vs \<noteq> [] \<Longrightarrow> sound_result p ([AddVolumes vs], p\<lparr>p_volumes := vs'\<rparr>)"
  "p_volumes p \<noteq> [] \<Longrightarrow> sound_result p ([AddVolume v], p\<lparr>p_volumes := vs'\<rparr>)"
  by (auto simp: sound_result_def ahead_def split: option.split)

section \<open>Loops over the containers\<close>

lemma apply_in_container:
  "i < length (p_containers q) \<Longrightarrow>
   apply_ops (map (InContainer i) os) q =
     map_option (\<lambda>c. q\<lparr>p_containers := (p_containers q)[i := c]\<rparr>)
       (apply_container_ops os (p_containers q ! i))"
proof (induction os arbitrary: q)
  case (Cons o' os)
  show ?case
  proof (cases "apply_container_op o' (p_containers q ! i)")
    case (Some c)
    with Cons show ?thesis by (simp add: option.map_comp comp_def)
  qed (use Cons.prems in simp)
qed simp

lemma apply_container_loop:
  assumes f: "\<And>c. apply_container_ops (fst (f c)) c = Some (snd (f c))"
    and "p_containers q = pre @ cs @ extra" "i = length pre"
  shows "apply_ops (fst (container_loop f i cs)) q =
    Some (q\<lparr>p_containers := pre @ snd (container_loop f i cs) @ extra\<rparr>)"
  using assms(2,3)
proof (induction cs arbitrary: q pre i)
  case (Cons c cs)
  obtain os c' where fc: "f c = (os, c')" by fastforce
  let ?q = "q\<lparr>p_containers := (pre @ [c']) @ cs @ extra\<rparr>"
  have "apply_ops (map (InContainer i) os) q = Some ?q"
    using f [of c] fc Cons.prems by (subst apply_in_container) (simp_all add: nth_append list_update_append)
  moreover have "apply_ops (fst (container_loop f (Suc i) cs)) ?q =
      Some (?q\<lparr>p_containers := (pre @ [c']) @ snd (container_loop f (Suc i) cs) @ extra\<rparr>)"
    using Cons.prems by (intro Cons.IH) simp_all
  ultimately show ?case by (simp add: fc apply_ops_append split_beta)
qed simp

lemma each_container_exact:
  assumes "\<And>c. apply_container_ops (fst (f c)) c = Some (snd (f c))"
  shows "apply_ops (fst (each_container f p)) p = Some (snd (each_container f p))"
  using apply_container_loop [OF assms, where q = p and pre = "[]" and extra = "[]" and i = 0
      and cs = "p_containers p"]
  by (simp add: each_container_def split_beta)

lemma sound_each:
  assumes "\<And>c. apply_container_ops (fst (f c)) c = Some (snd (f c))"
  shows "sound (each_container f)"
proof (rule soundI)
  show "sound_result p (each_container f p)" for p
    unfolding sound_result_def
  proof (intro allI impI)
    fix q assume q: "ahead q p"
    then obtain extra where "p_containers q = [] @ p_containers p @ extra" by (auto simp: ahead_def)
    from apply_container_loop [OF assms this, of 0]
    have "apply_ops (fst (each_container f p)) q =
        Some (q\<lparr>p_containers := snd (container_loop f 0 (p_containers p)) @ extra\<rparr>)"
      by (simp add: each_container_def split_beta)
    with q show "\<exists>q'. apply_ops (fst (each_container f p)) q = Some q' \<and> ahead q' (snd (each_container f p))"
      by (auto simp: ahead_def each_container_def split_beta)
  qed
qed

text \<open>The containers after a loop, one by one.\<close>

lemma each_container_containers:
  "p_containers (snd (each_container f p)) = map (\<lambda>c. snd (f c)) (p_containers p)"
proof -
  have "snd (container_loop f i cs) = map (\<lambda>c. snd (f c)) cs" for i cs
    by (induction cs arbitrary: i) (simp_all add: split_beta)
  then show ?thesis by (simp add: each_container_def split_beta)
qed

section \<open>Environment injection\<close>

lemma inject_envs_applies:
  "apply_container_ops (fst (inject_envs c0 c envs)) c = Some (snd (inject_envs c0 c envs))"
  by (induction c0 c envs rule: inject_envs.induct) (auto simp: split_beta)

lemma inject_envs_env:
  "snd (inject_envs c0 c envs) =
     c\<lparr>c_env := c_env c @ filter (\<lambda>e. \<not> HasEnv c0 (ev_name e)) envs\<rparr>"
  by (induction c0 c envs rule: inject_envs.induct) (auto simp: split_beta)

lemma sound_InjectEnvOps: "sound (InjectEnvOps envs)"
  unfolding InjectEnvOps_def by (rule sound_each) (simp add: inject_envs_applies)

text \<open>
  The operations of an environment injection apply to the submitted pod and make of it
  exactly the pod updated in place: every container that requests a Fluxion resource gets, at
  the end of its environment, the variables it did not have, and no other container changes.
\<close>
lemma InjectEnvOps_applies:
  "apply_ops (fst (InjectEnvOps envs p)) p = Some (snd (InjectEnvOps envs p)) \<and>
   p_containers (snd (InjectEnvOps envs p)) =
     map (\<lambda>c. if RequestsFluxionResource c
              then c\<lparr>c_env := c_env c @ filter (\<lambda>e. \<not> HasEnv c (ev_name e)) envs\<rparr> else c)
       (p_containers p)"
proof
  let ?f = "\<lambda>c. if RequestsFluxionResource c then inject_envs c c envs else ([], c)"
  have "apply_container_ops (fst (?f c)) c = Some (snd (?f c))" for c
    by (simp add: inject_envs_applies)
  from each_container_exact [OF this]
  show "apply_ops (fst (InjectEnvOps envs p)) p = Some (snd (InjectEnvOps envs p))"
    by (simp add: InjectEnvOps_def)
  show "p_containers (snd (InjectEnvOps envs p)) =
     map (\<lambda>c. if RequestsFluxionResource c
              then c\<lparr>c_env := c_env c @ filter (\<lambda>e. \<not> HasEnv c (ev_name e)) envs\<rparr> else c)
       (p_containers p)"
    by (simp add: InjectEnvOps_def each_container_containers inject_envs_env)
qed

end
