(* ===== verification/Handlers.thy ===== *)
theory Handlers
  imports Pod_Patch
begin

text \<open>
  \<open>pkg/webhook/handlers\<close>: the fluxion, quantum and gang handlers, the dependency primitive and
  the sidecar. A handler's mutation gives the operations, the pod updated in place and the
  mutator, whose client's store it may have changed. The image override (an environment
  variable) is a parameter.
\<close>

section \<open>Names\<close>

definition QuantumResource :: string where
  "QuantumResource = ''fluxion.flux-framework.org/qpu''"

definition QuantumGate :: string where
  "QuantumGate = ''quantum.braket/ready''"

definition ObserveLabel :: string where
  "ObserveLabel = ''fluence.flux-framework.org/observe''"

definition RehearsalLabel :: string where
  "RehearsalLabel = ''fluence.flux-framework.org/rehearsal''"

definition RehearsalEnv :: string where
  "RehearsalEnv = ''FLUENCE_REHEARSAL''"

definition DependencyKindQuantumSubmit :: string where
  "DependencyKindQuantumSubmit = ''quantum-submit''"

definition CoordinationAnnotation :: string where
  "CoordinationAnnotation = ''fluence.flux-framework.org/coordination''"

definition CoordinationShared :: string where
  "CoordinationShared = ''shared''"

definition CoordinationIndependent :: string where
  "CoordinationIndependent = ''independent''"

definition ScoutGroupSuffix :: string where
  "ScoutGroupSuffix = ''-scout''"

definition CompletionIndexAnnotation :: string where
  "CompletionIndexAnnotation = ''batch.kubernetes.io/job-completion-index''"

definition ScoutIndex :: string where
  "ScoutIndex = ''0''"

definition GangGroupEnv :: string where
  "GangGroupEnv = ''FLUENCE_GANG_GROUP''"

definition QuantumClassicalPriorityClass :: string where
  "QuantumClassicalPriorityClass = ''fluence-quantum-classical''"

definition CoordinationRoleEnv :: string where
  "CoordinationRoleEnv = ''FLUENCE_COORDINATION_ROLE''"

definition RoleScout :: string where
  "RoleScout = ''scout''"

definition RoleWorker :: string where
  "RoleWorker = ''worker''"

definition QuantumJobIDAnnotation :: string where
  "QuantumJobIDAnnotation = ''fluence.flux-framework.org/quantum-job-id''"

definition QuantumJobIDEnv :: string where
  "QuantumJobIDEnv = ''FLUENCE_QUANTUM_JOB_ID''"

definition QuantumSessionIDAnnotation :: string where
  "QuantumSessionIDAnnotation = ''fluence.flux-framework.org/quantum-session-id''"

definition QuantumSessionIDEnv :: string where
  "QuantumSessionIDEnv = ''FLUENCE_QUANTUM_SESSION_ID''"

definition SidecarContainerName :: string where
  "SidecarContainerName = ''fluence-sidecar''"

definition SidecarServiceAccount :: string where
  "SidecarServiceAccount = ''fluence-sidecar''"

definition defaultSidecarImage :: string where
  "defaultSidecarImage = ''vanessa/fluence-sidecar:latest''"

definition StageVolumeName :: string where
  "StageVolumeName = ''fluence-pkg''"

definition StageMountPath :: string where
  "StageMountPath = ''/opt/fluence-staged''"

definition HandoffVolumeName :: string where
  "HandoffVolumeName = ''fluence-handoff''"

definition HandoffMountPath :: string where
  "HandoffMountPath = ''/opt/fluence-handoff''"

definition HandoffDirEnv :: string where
  "HandoffDirEnv = ''FLUENCE_HANDOFF_DIR''"

definition GroupName :: "pod \<Rightarrow> string" where
  "GroupName p = Label p GroupLabel"

section \<open>Annotations\<close>

text \<open>One patch for a pod without annotations, one per key otherwise.\<close>

definition annotateOps :: "(string, string) gomap \<Rightarrow> pod_builder" where
  "annotateOps ann p =
     (case p_annotations p of
        None \<Rightarrow> ([AddAnnotations ann], p\<lparr>p_annotations := Some (gcopy [] ann)\<rparr>)
      | Some m \<Rightarrow>
          (map (\<lambda>(k, v). AddAnnotation k v) ann, p\<lparr>p_annotations := Some (gcopy m ann)\<rparr>))"

definition admissionOps :: "string \<Rightarrow> int \<Rightarrow> pod_builder" where
  "admissionOps record_key standaloneCores =
     annotateOps
       ([(ProtectedAnnotation, ProtectedValue), (AdmittedGroupAnnotation, record_key)]
        @ (if standaloneCores > 0 then [(AdmittedCoresAnnotation, show_int standaloneCores)] else []))"

section \<open>Dependencies\<close>

record dependency =
  dp_kind :: string
  dp_scout :: string
  dp_gate :: string

definition DependsOnKindAnnotation :: string where
  "DependsOnKindAnnotation = ''fluence.flux-framework.org/depends-on-kind''"

definition DependsOnScoutAnnotation :: string where
  "DependsOnScoutAnnotation = ''fluence.flux-framework.org/depends-on-scout''"

definition DependsOnGateAnnotation :: string where
  "DependsOnGateAnnotation = ''fluence.flux-framework.org/depends-on-gate''"

text \<open>These helpers do not update the pod.\<close>

definition annotateOp :: "pod \<Rightarrow> string \<Rightarrow> string \<Rightarrow> op list" where
  "annotateOp p key val =
     (if val = [] then []
      else if p_annotations p = None then [AddAnnotations [(key, val)]]
      else [AddAnnotation key val])"

definition gateWithName :: "pod \<Rightarrow> string \<Rightarrow> op list" where
  "gateWithName p gateName =
     (if gateName \<in> set (p_gates p) then []
      else (if p_gates p = [] then AddGates [gateName] else AddGate gateName)
        # (if p_priority_class p = []
           then [AddPriorityClass QuantumClassicalPriorityClass, ClearPriority] else []))"

definition applyOps :: "dependency \<Rightarrow> pod \<Rightarrow> op list" where
  "applyOps d p =
     gateWithName p (dp_gate d)
     @ annotateOp p DependsOnKindAnnotation (dp_kind d)
     @ annotateOp p DependsOnScoutAnnotation (dp_scout d)
     @ annotateOp p DependsOnGateAnnotation (dp_gate d)"

definition DependencyOf :: "pod \<Rightarrow> dependency option" where
  "DependencyOf p =
     (let kind = Annotation p DependsOnKindAnnotation
      in if kind = [] then None
         else Some \<lparr>dp_kind = kind, dp_scout = Annotation p DependsOnScoutAnnotation,
                dp_gate = Annotation p DependsOnGateAnnotation\<rparr>)"

section \<open>Gang identity and size\<close>

definition get_job :: "kube_store \<Rightarrow> string \<Rightarrow> string \<Rightarrow> job option" where
  "get_job s ns n = (if ks_down s ''get jobs'' then None else map_of (ks_jobs s) (ns, n))"

definition get_replicaset :: "kube_store \<Rightarrow> string \<Rightarrow> string \<Rightarrow> int option option" where
  "get_replicaset s ns n =
     (if ks_down s ''get replicasets'' then None else map_of (ks_replicasets s) (ns, n))"

definition positive :: "int option \<Rightarrow> int option" where
  "positive v = (case v of None \<Rightarrow> None | Some n \<Rightarrow> if n > 0 then Some n else None)"

fun owner_job_n :: "kube_store \<Rightarrow> string \<Rightarrow> owner_ref list \<Rightarrow> int" where
  "owner_job_n s ns [] = 0"
| "owner_job_n s ns (r # rs) =
     (if or_kind r \<noteq> ''Job'' then owner_job_n s ns rs
      else case get_job s ns (or_name r) of
             None \<Rightarrow> 0
           | Some j \<Rightarrow>
               (case positive (jb_parallelism j) of
                  Some n \<Rightarrow> n
                | None \<Rightarrow>
                    (case positive (jb_completions j) of
                       Some n \<Rightarrow> n
                     | None \<Rightarrow> owner_job_n s ns rs)))"

definition ownerJobN :: "mutator \<Rightarrow> pod \<Rightarrow> int" where
  "ownerJobN m p =
     (case mu_client m of None \<Rightarrow> 0 | Some s \<Rightarrow> owner_job_n s (p_namespace p) (p_owners p))"

fun owner_replicaset_n :: "kube_store \<Rightarrow> string \<Rightarrow> owner_ref list \<Rightarrow> int" where
  "owner_replicaset_n s ns [] = 0"
| "owner_replicaset_n s ns (r # rs) =
     (if or_kind r \<noteq> ''ReplicaSet'' then owner_replicaset_n s ns rs
      else case get_replicaset s ns (or_name r) of
             None \<Rightarrow> 0
           | Some n \<Rightarrow>
               (case positive n of Some n \<Rightarrow> n | None \<Rightarrow> owner_replicaset_n s ns rs))"

definition ownerReplicaSetN :: "mutator \<Rightarrow> pod \<Rightarrow> int" where
  "ownerReplicaSetN m p =
     (case mu_client m of None \<Rightarrow> 0 | Some s \<Rightarrow> owner_replicaset_n s (p_namespace p) (p_owners p))"

definition countGroupPods :: "mutator \<Rightarrow> string \<Rightarrow> string \<Rightarrow> int" where
  "countGroupPods m ns g =
     (case mu_client m of
        None \<Rightarrow> 0
      | Some s \<Rightarrow>
          if ks_down s ''list pods'' then 0
          else i32 (int (length (filter (\<lambda>q. p_namespace q = ns \<and> GroupName q = g) (ks_pods s)))))"

definition resolveGroup :: "pod \<Rightarrow> string" where
  "resolveGroup p =
     (if GroupName p \<noteq> [] then GroupName p
      else case find (\<lambda>r. or_kind r \<in> {''Job'', ''ReplicaSet'', ''StatefulSet''}) (p_owners p) of
             None \<Rightarrow> []
           | Some r \<Rightarrow> or_name r)"

definition group_size :: "pod \<Rightarrow> int option" where
  "group_size p =
     (case p_annotations p of
        None \<Rightarrow> None
      | Some ann \<Rightarrow> positive (atoi (gstr ann GroupSizeAnnotation)))"

definition resolveGangSize :: "mutator \<Rightarrow> pod \<Rightarrow> string \<Rightarrow> int" where
  "resolveGangSize m p g =
     (case group_size p of
        Some v \<Rightarrow> i32 v
      | None \<Rightarrow>
          if ownerJobN m p > 0 then ownerJobN m p
          else if ownerReplicaSetN m p > 0 then ownerReplicaSetN m p
          else if g \<noteq> [] \<and> countGroupPods m (p_namespace p) g > 0
          then countGroupPods m (p_namespace p) g
          else 1)"

text \<open>An empty annotation is not a number, so testing it for emptiness first changes nothing.\<close>

definition resolveMinCount :: "mutator \<Rightarrow> pod \<Rightarrow> int" where
  "resolveMinCount m p =
     (case group_size p of
        Some v \<Rightarrow> i32 v
      | None \<Rightarrow> if ownerJobN m p > 0 then ownerJobN m p else 1)"

definition coordinationMode :: "pod \<Rightarrow> string" where
  "coordinationMode p =
     (if Annotation p CoordinationAnnotation \<noteq> [] then Annotation p CoordinationAnnotation
      else CoordinationIndependent)"

definition isScout :: "mutator \<Rightarrow> pod \<Rightarrow> string \<Rightarrow> bool" where
  "isScout m p g =
     (case map_of (pod_annotations p) CompletionIndexAnnotation of
        Some idx \<Rightarrow> idx = ScoutIndex
      | None \<Rightarrow>
          (case mu_client m of
             None \<Rightarrow> True
           | Some s \<Rightarrow> get_group s (p_namespace p) (g @ ScoutGroupSuffix) = None))"

section \<open>Linking\<close>

definition linked_to :: "pod \<Rightarrow> string \<Rightarrow> bool" where
  "linked_to p g \<longleftrightarrow> (case p_group p of None \<Rightarrow> False | Some sg \<Rightarrow> sg_name sg = Some g)"

definition schedulingGroupOps :: "pod \<Rightarrow> string \<Rightarrow> op list" where
  "schedulingGroupOps p g = (if linked_to p g then [] else [AddSchedulingGroup g])"

definition linkGroupOps :: "pod \<Rightarrow> string \<Rightarrow> op list" where
  "linkGroupOps p g =
     (if GroupName p \<noteq> g
      then [if p_labels p = None then AddLabels [(GroupLabel, g)] else AddLabel GroupLabel g]
      else [])
     @ (if linked_to p g then [] else [AddSchedulingGroup g])"

section \<open>Containers\<close>

definition set_container_env :: "env_var \<Rightarrow> container \<Rightarrow> container_op list \<times> container" where
  "set_container_env e c =
     (if c_name c = SidecarContainerName \<or> HasEnv c (ev_name e) then ([], c)
      else ([if c_env c = [] then AddEnvs [e] else AddEnv e], c\<lparr>c_env := c_env c @ [e]\<rparr>))"

definition setContainerEnvOps :: "env_var \<Rightarrow> pod_builder" where
  "setContainerEnvOps e = each_container (set_container_env e)"

definition roleEnvOps :: "string \<Rightarrow> pod_builder" where
  "roleEnvOps role = setContainerEnvOps (ValueEnv CoordinationRoleEnv role)"

definition workerEnvOps :: pod_builder where
  "workerEnvOps p =
     then_ops (then_ops (roleEnvOps RoleWorker p)
       (setContainerEnvOps (AnnotationEnv QuantumJobIDEnv QuantumJobIDAnnotation)))
       (setContainerEnvOps (AnnotationEnv QuantumSessionIDEnv QuantumSessionIDAnnotation))"

definition rehearsalEnv :: "pod \<Rightarrow> env_var list" where
  "rehearsalEnv p = (if Label p RehearsalLabel \<noteq> ''true'' then [] else [ValueEnv RehearsalEnv ''true''])"

definition rehearsalOps :: "env_var list \<Rightarrow> pod_builder" where
  "rehearsalOps env p = foldl (\<lambda>r e. then_ops r (setContainerEnvOps e)) ([], p) env"

definition drop_quantum :: "container \<Rightarrow> container_op list \<times> container" where
  "drop_quantum c =
     (if c_name c = SidecarContainerName then ([], c)
      else
        ((if map_of (c_requests c) QuantumResource \<noteq> None then [RemoveRequest QuantumResource] else [])
         @ (if map_of (c_limits c) QuantumResource \<noteq> None then [RemoveLimit QuantumResource] else []),
         c\<lparr>c_requests := gdel (c_requests c) QuantumResource,
           c_limits := gdel (c_limits c) QuantumResource\<rparr>))"

definition dropQuantumResourceOps :: pod_builder where
  "dropQuantumResourceOps = each_container drop_quantum"

section \<open>Staging and sidecar\<close>

definition sidecarImage :: "string \<Rightarrow> string" where
  "sidecarImage override = (if override \<noteq> [] then override else defaultSidecarImage)"

definition ensure_object :: "string \<Rightarrow> string \<Rightarrow> kube_store \<Rightarrow> kube_store" where
  "ensure_object kind ns s =
     (if (kind, ns) \<in> set (ks_rbac s) \<or> ks_down s (''create '' @ kind) then s
      else s\<lparr>ks_rbac := ks_rbac s @ [(kind, ns)]\<rparr>)"

text \<open>Each object is created when getting it fails; creating one that exists fails too.\<close>

definition ensureSidecarRBAC :: "mutator \<Rightarrow> string \<Rightarrow> mutator" where
  "ensureSidecarRBAC m ns =
     (case mu_client m of
        None \<Rightarrow> m
      | Some s \<Rightarrow>
          m\<lparr>mu_client := Some (ensure_object ''rolebindings'' ns
              (ensure_object ''roles'' ns (ensure_object ''serviceaccounts'' ns s)))\<rparr>)"

definition volume_ops :: "string \<Rightarrow> pod_builder" where
  "volume_ops v p =
     ([if p_volumes p = [] then AddVolumes [v] else AddVolume v], p\<lparr>p_volumes := p_volumes p @ [v]\<rparr>)"

definition init_ops :: "container \<Rightarrow> pod_builder" where
  "init_ops c p = ([if p_init p = [] then AddInits [c] else AddInit c], p)"

definition stage_init :: "string \<Rightarrow> container" where
  "stage_init override =
     blank_container\<lparr>c_name := ''fluence-stage'', c_image := sidecarImage override, c_pull_always := True,
       c_command := [''sh'', ''-c'',
         ''python3 -m fluence.stage '' @ StageMountPath @ '' || echo '' @ [CHR 0x27]
         @ ''[fluence] staging skipped (interceptor unavailable)'' @ [CHR 0x27]],
       c_mounts := [\<lparr>vm_name = StageVolumeName, vm_path = StageMountPath, vm_read_only = False\<rparr>]\<rparr>"

definition mount_ops :: "volume_mount \<Rightarrow> container \<Rightarrow> container_op list \<times> container" where
  "mount_ops v c =
     ([if c_mounts c = [] then AddMounts [v] else AddMount v], c\<lparr>c_mounts := c_mounts c @ [v]\<rparr>)"

definition stage_container :: "container \<Rightarrow> container_op list \<times> container" where
  "stage_container c =
     (if c_name c = SidecarContainerName then ([], c)
      else
        let pythonpath = ValueEnv ''PYTHONPATH'' StageMountPath;
            uid = FieldEnv ''FLUENCE_POD_UID'' ''metadata.uid''
        in case mount_ops \<lparr>vm_name = StageVolumeName, vm_path = StageMountPath, vm_read_only = True\<rparr> c of
             (os1, c1) \<Rightarrow>
               case (if HasEnv c ''PYTHONPATH'' then ([], c1)
                     else if c_env c = [] then ([AddEnvs [pythonpath]], c1\<lparr>c_env := [pythonpath]\<rparr>)
                     else ([AddEnv pythonpath], c1\<lparr>c_env := c_env c1 @ [pythonpath]\<rparr>)) of
                 (os2, c2) \<Rightarrow>
                   case (if HasEnv c ''FLUENCE_POD_UID'' then ([], c2)
                         else ([AddEnv uid], c2\<lparr>c_env := c_env c2 @ [uid]\<rparr>)) of
                     (os3, c3) \<Rightarrow> (os1 @ os2 @ os3, c3))"

definition interceptorOps :: "string \<Rightarrow> pod_builder" where
  "interceptorOps override p =
     then_ops (then_ops (volume_ops StageVolumeName p) (init_ops (stage_init override)))
       (each_container stage_container)"

definition handoff_container :: "container \<Rightarrow> container_op list \<times> container" where
  "handoff_container c =
     (if c_name c = SidecarContainerName then ([], c)
      else mount_ops \<lparr>vm_name = HandoffVolumeName, vm_path = HandoffMountPath, vm_read_only = False\<rparr> c)"

definition handoffOps :: pod_builder where
  "handoffOps p =
     (if HandoffVolumeName \<in> set (p_volumes p) then ([], p)
      else then_ops (then_ops (volume_ops HandoffVolumeName p) (each_container handoff_container))
             (setContainerEnvOps (ValueEnv HandoffDirEnv HandoffMountPath)))"

text \<open>The credentials copied from the first container: from a secret or config map, and not shadowed.\<close>

definition copied_env :: "env_var list \<Rightarrow> pod \<Rightarrow> env_var list" where
  "copied_env env p =
     (case p_containers p of
        [] \<Rightarrow> []
      | c # _ \<Rightarrow>
          filter (\<lambda>e. ev_name e \<notin> ev_name ` set env \<and>
              (case ev_from e of
                 None \<Rightarrow> False
               | Some src \<Rightarrow> secret_ref src \<noteq> None \<or> config_ref src \<noteq> None)) (c_env c))"

definition sidecar_container :: "string \<Rightarrow> mutator \<Rightarrow> pod \<Rightarrow> bool \<Rightarrow> env_var list \<Rightarrow> container" where
  "sidecar_container override m p observe extraEnv =
     (let env =
            [FieldEnv ''FLUENCE_POD_UID'' ''metadata.uid'',
             FieldEnv ''FLUENCE_POD_NAME'' ''metadata.name'',
             FieldEnv ''FLUENCE_NAMESPACE'' ''metadata.namespace'',
             FieldEnv ''FLUENCE_GROUP''
               (''metadata.labels['' @ [CHR 0x27] @ GroupLabel @ [CHR 0x27] @ '']'')]
            @ InjectedEnv m
            @ (if observe then [ValueEnv ''FLUENCE_OBSERVE'' ''true''] else [])
            @ extraEnv
      in blank_container\<lparr>c_name := SidecarContainerName, c_image := sidecarImage override,
           c_pull_always := True, c_env := env @ copied_env env p,
           c_mounts := map (\<lambda>_. \<lparr>vm_name = HandoffVolumeName, vm_path = HandoffMountPath,
             vm_read_only = False\<rparr>) (filter (\<lambda>v. v = HandoffVolumeName) (p_volumes p)),
           c_requests := [(''cpu'', \<lparr>q_value = 1, q_milli = 100\<rparr>),
             (''memory'', units 268435456)]\<rparr>)"

definition sidecarContainerOps :: "string \<Rightarrow> mutator \<Rightarrow> pod \<Rightarrow> bool \<Rightarrow> env_var list \<Rightarrow> op list" where
  "sidecarContainerOps override m p observe extraEnv =
     (let sidecar = sidecar_container override m p observe extraEnv
      in (if p_containers p = [] then AddContainers [sidecar] else AddContainer sidecar)
         # (if p_service_account p = [] \<or> p_service_account p = ''default''
            then [AddServiceAccount SidecarServiceAccount] else []))"

text \<open>
  The \<open>Sidecar\<close> interface of \<open>sidecar.go\<close> and its default implementation. The mutator that
  \<open>coreSidecar\<close> holds is a reference, so each operation is given its current state.
\<close>

record sidecar =
  sc_EnsureRBAC :: "mutator \<Rightarrow> string \<Rightarrow> mutator"
  sc_InterceptorOps :: pod_builder
  sc_ContainerOps :: "mutator \<Rightarrow> pod \<Rightarrow> bool \<Rightarrow> env_var list \<Rightarrow> op list"

definition coreSidecar :: "string \<Rightarrow> sidecar" where
  "coreSidecar override =
     \<lparr>sc_EnsureRBAC = ensureSidecarRBAC, sc_InterceptorOps = interceptorOps override,
      sc_ContainerOps = sidecarContainerOps override\<rparr>"

definition sidecarFor :: "string \<Rightarrow> sidecar" where
  "sidecarFor override = coreSidecar override"

lemma sidecarFor_ops [simp]:
  "sc_EnsureRBAC (sidecarFor ov) = ensureSidecarRBAC"
  "sc_InterceptorOps (sidecarFor ov) = interceptorOps ov"
  "sc_ContainerOps (sidecarFor ov) = sidecarContainerOps ov"
  by (simp_all add: sidecarFor_def coreSidecar_def)

section \<open>The quantum handler\<close>

definition quantum_applies :: "mutator \<Rightarrow> pod \<Rightarrow> bool" where
  "quantum_applies m p = PodRequestsResource p QuantumResource"

definition groupAdmitted :: "mutator \<Rightarrow> string \<Rightarrow> string \<Rightarrow> bool" where
  "groupAdmitted m ns g =
     (case mu_client m of
        None \<Rightarrow> False
      | Some s \<Rightarrow>
          (case get_group s ns g of
             None \<Rightarrow> False
           | Some pg \<Rightarrow> gstr (pg_annotations pg) AdmittedCoresAnnotation \<noteq> []))"

definition shared_gang :: "mutator \<Rightarrow> pod \<Rightarrow> bool" where
  "shared_gang m p \<longleftrightarrow> coordinationMode p = CoordinationShared \<and> resolveGroup p \<noteq> [] \<and>
     resolveGangSize m p (resolveGroup p) > 1"

definition quantum_admit :: "mutator \<Rightarrow> pod \<Rightarrow> string option" where
  "quantum_admit m p =
     (if Annotation p ProtectedAnnotation \<noteq> [] then
        Some (ProtectedAnnotation @ '' is set by fluence and must not be set on a submission. It marks a pod as ''
          @ ''not preemptible, which is not yours to decide'')
      else
        let g = resolveGroup p; n = resolveGangSize m p g; cores = PodCores p
        in if shared_gang m p then
             (if groupAdmitted m (p_namespace p) g then None
              else Admit m (object_key (p_namespace p) g) (i64 (cores * n)))
           else Admit m (object_key (p_namespace p) (p_name p)) cores)"

text \<open>\<open>mutateScout\<close> and \<open>mutateWorker\<close>; \<open>silent\<close> emits operations without updating the pod.\<close>

definition silent :: "(pod \<Rightarrow> op list) \<Rightarrow> pod_builder" where
  "silent f p = (f p, p)"

definition mutateScout ::
    "string \<Rightarrow> mutator \<Rightarrow> pod \<Rightarrow> string \<Rightarrow> env_var list \<Rightarrow> (op list \<times> pod) \<times> mutator" where
  "mutateScout override m p g rehearsal =
     (let pg = g @ ScoutGroupSuffix;
          m = EnsurePodGroup m (p_namespace p) pg 1;
          r = silent (\<lambda>p. linkGroupOps p pg) p;
          r = then_ops r (interceptorOps override);
          r = then_ops r handoffOps;
          r = then_ops r (roleEnvOps RoleScout);
          sc = sidecarFor override;
          m = sc_EnsureRBAC sc m (p_namespace p);
          r = then_ops r (silent (\<lambda>p. sc_ContainerOps sc m p False
                (ValueEnv GangGroupEnv g # rehearsal)))
      in (r, m))"

definition mutateWorker :: "mutator \<Rightarrow> pod \<Rightarrow> string \<Rightarrow> int \<Rightarrow> (op list \<times> pod) \<times> mutator" where
  "mutateWorker m p g n =
     (let m = EnsurePodGroup m (p_namespace p) g (i32 (n - 1));
          r = silent (\<lambda>p. linkGroupOps p g) p;
          dep = \<lparr>dp_kind = DependencyKindQuantumSubmit, dp_scout = g @ ScoutGroupSuffix,
                 dp_gate = QuantumGate\<rparr>;
          r = then_ops r (silent (applyOps dep));
          r = then_ops r workerEnvOps;
          r = then_ops r dropQuantumResourceOps
      in (r, m))"

definition prefix_ops :: "op list \<Rightarrow> (op list \<times> pod) \<times> mutator \<Rightarrow> (op list \<times> pod) \<times> mutator" where
  "prefix_ops os rm = (case rm of ((os', p), m) \<Rightarrow> ((os @ os', p), m))"

definition quantum_mutate :: "string \<Rightarrow> mutator \<Rightarrow> pod \<Rightarrow> (op list \<times> pod) \<times> mutator" where
  "quantum_mutate override m p =
     (let g = resolveGroup p;
          n = resolveGangSize m p g;
          observe = (Label p ObserveLabel = ''true'');
          rehearsal = rehearsalEnv p;
          cores = PodCores p;
          ns = p_namespace p
      in if \<not> shared_gang m p then
           let r = admissionOps (object_key ns (p_name p)) cores p;
               r = then_ops r (interceptorOps override);
               r = then_ops r handoffOps;
               r = then_ops r (rehearsalOps rehearsal)
           in if observe then
                let sc = sidecarFor override;
                    m = sc_EnsureRBAC sc m ns
                in (then_ops r (silent (\<lambda>p. sc_ContainerOps sc m p True rehearsal)), m)
              else (r, m)
         else
           let m = EnsurePodGroup m ns g (i32 (n - 1));
               m = RecordAdmission m ns g (i64 (cores * n));
               r = then_ops (admissionOps (object_key ns g) 0 p) (rehearsalOps rehearsal)
           in case r of
                (os, p) \<Rightarrow>
                  if isScout m p g then prefix_ops os (mutateScout override m p g rehearsal)
                  else prefix_ops os (mutateWorker m p g n))"

section \<open>The gang and fluxion handlers\<close>

definition gang_applies :: "mutator \<Rightarrow> pod \<Rightarrow> bool" where
  "gang_applies m p \<longleftrightarrow> \<not> PodRequestsResource p QuantumResource \<and> GroupName p \<noteq> []"

definition gang_mutate :: "mutator \<Rightarrow> pod \<Rightarrow> (op list \<times> pod) \<times> mutator" where
  "gang_mutate m p =
     ((schedulingGroupOps p (GroupName p), p),
      EnsurePodGroup m (p_namespace p) (GroupName p) (resolveMinCount m p))"

definition fluxion_applies :: "mutator \<Rightarrow> pod \<Rightarrow> bool" where
  "fluxion_applies m p = PodRequestsFluxionResource p"

definition fluxion_mutate :: "mutator \<Rightarrow> pod \<Rightarrow> (op list \<times> pod) \<times> mutator" where
  "fluxion_mutate m p = (InjectEnvOps (InjectedEnv m) p, m)"

end
