(* ===== verification/Handlers_Sound.thy ===== *)
theory Handlers_Sound
  imports Patch_Sound Handlers
begin

text \<open>
  Every handler's operations apply to the submitted pod. The builders are sound one by one; the
  contract \<open>mutation\<close> is what the dispatcher relies on, and it is interpreted on the fluxion, the
  quantum and the gang handler. The roles of a coordinated gang are read off the patched pod.
\<close>

section \<open>Builders\<close>

lemma then_ops_simps [simp]:
  "fst (then_ops r f) = fst r @ fst (f (snd r))"
  "snd (then_ops r f) = snd (f (snd r))"
  by (simp_all add: then_ops_def split_beta)

lemma gdel_absent: "map_of m k = None \<Longrightarrow> gdel m k = m"
  by (simp add: gdel_def AList.delete_notin_dom map_of_eq_None_iff)

lemma sound_annotateOps: "sound (annotateOps ann)"
proof (rule soundI)
  fix p
  have step: "sound_result p (map (\<lambda>(k, v). AddAnnotation k v) ann, p\<lparr>p_annotations := Some (gcopy m ann)\<rparr>)"
    if "p_annotations p = Some m" for p m
    using that
  proof (induction ann arbitrary: p m)
    case Nil
    then have "p\<lparr>p_annotations := Some m\<rparr> = p" by (cases p) simp
    then show ?case by (simp add: gcopy_def)
  next
    case (Cons kv ann)
    obtain k v where kv: "kv = (k, v)" by fastforce
    let ?p = "p\<lparr>p_annotations := Some (gput m k v)\<rparr>"
    have "sound_result ?p (map (\<lambda>(k, v). AddAnnotation k v) ann,
        ?p\<lparr>p_annotations := Some (gcopy (gput m k v) ann)\<rparr>)"
      by (rule Cons.IH) simp
    with Cons.prems sound_mirrored(2) [of p k v "gput m k v"] show ?case
      by (auto simp: kv gcopy_def intro: sound_Cons)
  qed
  show "sound_result p (annotateOps ann p)"
    by (auto simp: annotateOps_def step sound_mirrored split: option.split)
qed

lemma sound_admissionOps: "sound (admissionOps key cores)"
  using sound_annotateOps by (simp add: sound_def admissionOps_def)

lemma sound_silent_list:
  assumes "\<And>o'. o' \<in> set os \<Longrightarrow> sound_result p ([o'], p)"
  shows "sound_result p (os, p)"
  using assms by (induction os) (auto intro: sound_Cons)

lemma sound_silentI:
  assumes "\<And>p o'. o' \<in> set (f p) \<Longrightarrow> sound_result p ([o'], p)"
  shows "sound (silent f)"
  by (rule soundI) (simp add: silent_def sound_silent_list assms)

lemma sound_applyOps: "sound (silent (applyOps d))"
  by (rule sound_silentI)
    (auto simp: applyOps_def gateWithName_def annotateOp_def sound_silent split: if_splits)

lemma sound_links:
  "sound (silent (\<lambda>p. linkGroupOps p g))"
  "sound (silent (\<lambda>p. schedulingGroupOps p (h p)))"
  by (rule sound_silentI,
      auto simp: linkGroupOps_def schedulingGroupOps_def sound_silent split: if_splits)+

lemma sound_sidecarContainerOps: "sound (silent (\<lambda>p. sidecarContainerOps ov m p obs env))"
proof (rule sound_silentI)
  fix p o' assume "o' \<in> set (sidecarContainerOps ov m p obs env)"
  moreover have "sound_result p ([AddContainers cs], p)" if "p_containers p = []" for cs
    using that by (auto simp: sound_result_def ahead_def)
  ultimately show "sound_result p ([o'], p)"
    by (auto simp: sidecarContainerOps_def Let_def sound_silent split: if_splits)
qed

lemma sound_setContainerEnvOps: "sound (setContainerEnvOps e)"
  unfolding setContainerEnvOps_def by (rule sound_each) (simp add: set_container_env_def)

lemma sound_dropQuantumResourceOps: "sound dropQuantumResourceOps"
  unfolding dropQuantumResourceOps_def
  by (rule sound_each) (auto simp: drop_quantum_def gdel_absent)

lemma sound_workerEnvOps: "sound workerEnvOps"
  unfolding workerEnvOps_def roleEnvOps_def
  by (rule soundI) (intro sound_then soundD [OF sound_setContainerEnvOps] sound_setContainerEnvOps)

lemma sound_roleEnvOps: "sound (roleEnvOps role)"
  unfolding roleEnvOps_def by (rule sound_setContainerEnvOps)

lemma sound_rehearsalOps: "sound (rehearsalOps env)"
proof (rule soundI)
  fix p
  have "sound_result p (foldl (\<lambda>r e. then_ops r (setContainerEnvOps e)) r env)"
    if "sound_result p r" for r
    using that
  proof (induction env arbitrary: r)
    case (Cons e env)
    from Cons.prems have "sound_result p (then_ops r (setContainerEnvOps e))"
      by (rule sound_then) (rule sound_setContainerEnvOps)
    from Cons.IH [OF this] show ?case by simp
  qed simp
  then show "sound_result p (rehearsalOps env p)" by (simp add: rehearsalOps_def)
qed

lemma sound_volume_ops: "sound (volume_ops v)"
  by (rule soundI) (auto simp: volume_ops_def sound_mirrored)

lemma sound_init_ops: "sound (init_ops c)"
  by (rule soundI) (auto simp: init_ops_def sound_silent)

lemma HasEnv_nonempty: "HasEnv c n \<Longrightarrow> c_env c \<noteq> []"
  by (auto simp: HasEnv_def)

lemma stage_container_applies:
  "apply_container_ops (fst (stage_container c)) c = Some (snd (stage_container c))"
  by (auto simp: stage_container_def mount_ops_def Let_def dest: HasEnv_nonempty)

lemma sound_interceptorOps: "sound (interceptorOps ov)"
  unfolding interceptorOps_def
  by (rule soundI)
    (intro sound_then soundD [OF sound_volume_ops] sound_init_ops sound_each stage_container_applies)

lemma sound_handoffOps: "sound handoffOps"
proof (rule soundI)
  fix p
  have "sound (each_container handoff_container)"
    by (rule sound_each) (auto simp: handoff_container_def mount_ops_def)
  then have "sound_result p (then_ops (then_ops (volume_ops HandoffVolumeName p)
      (each_container handoff_container)) (setContainerEnvOps (ValueEnv HandoffDirEnv HandoffMountPath)))"
    by (intro sound_then soundD [OF sound_volume_ops] sound_setContainerEnvOps)
  then show "sound_result p (handoffOps p)" by (simp add: handoffOps_def)
qed

lemmas sound_builders =
  sound_admissionOps sound_applyOps sound_links sound_sidecarContainerOps sound_dropQuantumResourceOps
  sound_workerEnvOps sound_roleEnvOps sound_rehearsalOps sound_interceptorOps sound_handoffOps

section \<open>The contract of a handler\<close>

text \<open>
  What a mutation keeps: the pod's identity, labels and gates as the handlers read them, and the
  cluster's PodGroups, of which none goes away or changes its gang size.
\<close>

definition same_identity :: "pod \<Rightarrow> pod \<Rightarrow> bool" where
  "same_identity p p' \<longleftrightarrow> p_name p' = p_name p \<and> p_namespace p' = p_namespace p \<and>
     p_labels p' = p_labels p \<and> p_owners p' = p_owners p \<and> p_scheduler p' = p_scheduler p \<and>
     p_gates p' = p_gates p \<and> p_group p' = p_group p"

definition gangs :: "kube_store \<Rightarrow> (string \<times> string \<times> int) list" where
  "gangs s = map (\<lambda>pg. (pg_namespace pg, pg_name pg, pg_min_count pg)) (ks_groups s)"

definition extends :: "mutator \<Rightarrow> mutator \<Rightarrow> bool" where
  "extends m m' \<longleftrightarrow>
     (case (mu_client m, mu_client m') of
        (None, None) \<Rightarrow> True
      | (Some s, Some s') \<Rightarrow>
          (\<exists>new. gangs s' = gangs s @ new) \<and> ks_pods s' = ks_pods s \<and> ks_nodes s' = ks_nodes s \<and>
          ks_jobs s' = ks_jobs s \<and> ks_replicasets s' = ks_replicasets s \<and> ks_down s' = ks_down s
      | _ \<Rightarrow> False)"

locale mutation =
  fixes mutate :: "mutator \<Rightarrow> pod \<Rightarrow> (op list \<times> pod) \<times> mutator"
  assumes mutate_sound: "sound_result p (fst (mutate m p))"
    and mutate_identity: "same_identity p (snd (fst (mutate m p)))"
    and mutate_extends: "extends m (snd (mutate m p))"
begin

lemma applies: "\<exists>q. apply_ops (fst (fst (mutate m p))) p = Some q"
  using mutate_sound [of p m] sound_result_applies [of p "fst (fst (mutate m p))" "snd (fst (mutate m p))"]
  by auto

end

lemma same_identity_refl [simp]: "same_identity p p"
  by (simp add: same_identity_def)

lemma same_identity_trans: "same_identity p p1 \<Longrightarrow> same_identity p1 p2 \<Longrightarrow> same_identity p p2"
  by (simp add: same_identity_def)

lemma extends_refl [simp]: "extends m m"
  by (auto simp: extends_def split: option.split)

lemma extends_trans: "extends m m1 \<Longrightarrow> extends m1 m2 \<Longrightarrow> extends m m2"
  by (auto simp: extends_def split: option.splits)

text \<open>The builders keep the identity.\<close>

definition keeps :: "pod_builder \<Rightarrow> bool" where
  "keeps f \<longleftrightarrow> (\<forall>p. same_identity p (snd (f p)))"

lemma keeps_then: "same_identity p (snd r) \<Longrightarrow> keeps f \<Longrightarrow> same_identity p (snd (then_ops r f))"
  by (auto simp: keeps_def intro: same_identity_trans)

lemma keeps_each [simp, intro]: "keeps (each_container f)"
  by (auto simp: keeps_def same_identity_def each_container_def split: prod.split)

lemma keeps_silent [simp, intro]: "keeps (silent f)"
  by (simp add: keeps_def silent_def)

lemma keeps_annotate [simp, intro]: "keeps (annotateOps ann)"
  by (auto simp: keeps_def same_identity_def annotateOps_def split: option.split)

lemma keeps_set [simp, intro]: "keeps (setContainerEnvOps e)" "keeps (roleEnvOps role)"
  "keeps dropQuantumResourceOps" "keeps (admissionOps k c)"
  by (simp_all add: setContainerEnvOps_def roleEnvOps_def dropQuantumResourceOps_def
      admissionOps_def [abs_def])

lemma keepsD: "keeps f \<Longrightarrow> same_identity p (snd (f p))"
  by (simp add: keeps_def)

lemma keeps_worker [simp, intro]: "keeps workerEnvOps"
  unfolding keeps_def workerEnvOps_def by (blast intro: keeps_then keepsD)

lemma keeps_volume [simp, intro]: "keeps (volume_ops v)" "keeps (init_ops c)"
  by (simp_all add: keeps_def same_identity_def volume_ops_def init_ops_def)

lemma keeps_interceptor [simp, intro]: "keeps (interceptorOps ov)"
  unfolding keeps_def interceptorOps_def by (blast intro: keeps_then keepsD)

lemma keeps_handoff [simp, intro]: "keeps handoffOps"
proof -
  have "same_identity p (snd (then_ops (then_ops (volume_ops HandoffVolumeName p)
      (each_container handoff_container)) (setContainerEnvOps (ValueEnv HandoffDirEnv HandoffMountPath))))" for p
    by (blast intro: keeps_then keepsD)
  then show ?thesis by (simp add: keeps_def handoffOps_def)
qed

lemma keeps_rehearsal [simp, intro]: "keeps (rehearsalOps env)"
proof -
  have "same_identity p (snd (foldl (\<lambda>r e. then_ops r (setContainerEnvOps e)) r env))"
    if "same_identity p (snd r)" for p r
    using that
  proof (induction env arbitrary: r)
    case (Cons e env)
    from keeps_then [OF Cons.prems keeps_set(1)]
    have "same_identity p (snd (then_ops r (setContainerEnvOps e)))" .
    from Cons.IH [OF this] show ?case by simp
  qed simp
  then show ?thesis by (simp add: keeps_def rehearsalOps_def)
qed

text \<open>The calls on the cluster extend it.\<close>

lemma extends_store:
  assumes "mu_client m = Some s" "gangs s' = gangs s @ new"
    "ks_pods s' = ks_pods s" "ks_nodes s' = ks_nodes s" "ks_jobs s' = ks_jobs s"
    "ks_replicasets s' = ks_replicasets s" "ks_down s' = ks_down s"
  shows "extends m (m\<lparr>mu_client := Some s'\<rparr>)"
  using assms by (simp add: extends_def)

lemma gangs_create: "\<exists>new. gangs (create_group s pg) = gangs s @ new"
  by (simp add: create_group_def gangs_def)

lemma gangs_patch: "gangs (patch_group s ns g k v) = gangs s"
  by (simp add: patch_group_def gangs_def)

lemma extends_EnsurePodGroup: "extends m (EnsurePodGroup m ns g n)"
proof (cases "mu_client m")
  case (Some s)
  then show ?thesis
    unfolding EnsurePodGroup_def Let_def using gangs_create [of s]
    by (auto intro!: extends_store simp: create_group_def gangs_def)
qed (simp add: EnsurePodGroup_def)

lemma extends_RecordAdmission: "extends m (RecordAdmission m ns g n)"
proof (cases "mu_client m")
  case (Some s)
  then show ?thesis
    unfolding RecordAdmission_def
    by (auto intro!: extends_store [where new = "[]"] simp: gangs_patch split: option.split)
       (simp_all add: patch_group_def)
qed (simp add: RecordAdmission_def)

lemma ensure_object_rest:
  "gangs (ensure_object k ns s) = gangs s" "ks_pods (ensure_object k ns s) = ks_pods s"
  "ks_nodes (ensure_object k ns s) = ks_nodes s" "ks_jobs (ensure_object k ns s) = ks_jobs s"
  "ks_replicasets (ensure_object k ns s) = ks_replicasets s"
  "ks_down (ensure_object k ns s) = ks_down s" "ks_groups (ensure_object k ns s) = ks_groups s"
  by (simp_all add: ensure_object_def gangs_def)

lemma extends_RBAC: "extends m (ensureSidecarRBAC m ns)"
  by (cases "mu_client m")
    (auto simp: ensureSidecarRBAC_def ensure_object_rest intro!: extends_store [where new = "[]"])

section \<open>The handlers meet it\<close>

interpretation fluxion: mutation fluxion_mutate
proof
  fix m p
  show "sound_result p (fst (fluxion_mutate m p))"
    by (simp add: fluxion_mutate_def soundD [OF sound_InjectEnvOps])
  show "same_identity p (snd (fst (fluxion_mutate m p)))"
    by (simp add: fluxion_mutate_def InjectEnvOps_def keepsD [OF keeps_each])
  show "extends m (snd (fluxion_mutate m p))"
    by (simp add: fluxion_mutate_def)
qed

interpretation gang: mutation gang_mutate
proof
  fix m p
  have "sound (silent (\<lambda>p. schedulingGroupOps p (GroupName p)))" by (rule sound_links)
  from soundD [OF this, of p] show "sound_result p (fst (gang_mutate m p))"
    by (simp add: gang_mutate_def silent_def)
  show "same_identity p (snd (fst (gang_mutate m p)))" by (simp add: gang_mutate_def)
  show "extends m (snd (gang_mutate m p))" by (simp add: gang_mutate_def extends_EnsurePodGroup)
qed

text \<open>The paths of the quantum handler, as a builder and the mutator they leave.\<close>

definition scout_builder :: "string \<Rightarrow> mutator \<Rightarrow> string \<Rightarrow> env_var list \<Rightarrow> pod_builder" where
  "scout_builder override m g rehearsal p =
     then_ops (then_ops (then_ops (then_ops (silent (\<lambda>p. linkGroupOps p (g @ ScoutGroupSuffix)) p)
       (interceptorOps override)) handoffOps) (roleEnvOps RoleScout))
       (silent (\<lambda>p. sidecarContainerOps override m p False (ValueEnv GangGroupEnv g # rehearsal)))"

definition worker_builder :: "string \<Rightarrow> pod_builder" where
  "worker_builder g p =
     then_ops (then_ops (then_ops (silent (\<lambda>p. linkGroupOps p g) p)
       (silent (applyOps \<lparr>dp_kind = DependencyKindQuantumSubmit, dp_scout = g @ ScoutGroupSuffix,
          dp_gate = QuantumGate\<rparr>))) workerEnvOps) dropQuantumResourceOps"

definition lone_builder :: "string \<Rightarrow> mutator \<Rightarrow> pod_builder" where
  "lone_builder override m p0 =
     then_ops (then_ops (then_ops
       (then_ops (admissionOps (object_key (p_namespace p0) (p_name p0)) (PodCores p0) p0)
         (interceptorOps override)) handoffOps) (rehearsalOps (rehearsalEnv p0)))
       (if Label p0 ObserveLabel = ''true''
        then silent (\<lambda>p. sidecarContainerOps override m p True (rehearsalEnv p0)) else (\<lambda>p. ([], p)))"

lemma mutateScout_eq:
  "mutateScout override m p g rehearsal =
     (let m' = ensureSidecarRBAC (EnsurePodGroup m (p_namespace p) (g @ ScoutGroupSuffix) 1) (p_namespace p)
      in (scout_builder override m' g rehearsal p, m'))"
  by (simp add: mutateScout_def scout_builder_def Let_def)

lemma mutateWorker_eq:
  "mutateWorker m p g n = (worker_builder g p, EnsurePodGroup m (p_namespace p) g (i32 (n - 1)))"
  by (simp add: mutateWorker_def worker_builder_def Let_def)

lemma prefix_ops_then: "prefix_ops os (f p, m) = (then_ops (os, p) f, m)"
  by (simp add: prefix_ops_def then_ops_def split: prod.split)

definition pair_store :: "mutator \<Rightarrow> pod \<Rightarrow> mutator" where
  "pair_store m p =
     (let g = resolveGroup p; n = resolveGangSize m p g
      in RecordAdmission (EnsurePodGroup m (p_namespace p) g (i32 (n - 1))) (p_namespace p) g
           (i64 (PodCores p * n)))"

definition stamp_builder :: pod_builder where
  "stamp_builder p =
     then_ops (admissionOps (object_key (p_namespace p) (resolveGroup p)) 0 p) (rehearsalOps (rehearsalEnv p))"

lemma sound_paths:
  "sound (scout_builder override m g rehearsal)" "sound (worker_builder g)"
  "sound (lone_builder override m)" "sound stamp_builder"
proof -
  show "sound (scout_builder override m g rehearsal)"
    unfolding scout_builder_def
    by (rule soundI) (intro sound_then sound_builders soundD [OF sound_links(1)])
  show "sound (worker_builder g)"
    unfolding worker_builder_def
    by (rule soundI) (intro sound_then sound_builders soundD [OF sound_links(1)])
  have observed: "sound (if b then silent (\<lambda>p. sidecarContainerOps override m p True env) else Pair [])"
    for b env
    by (cases b) (simp_all add: sound_sidecarContainerOps, simp add: sound_def)
  show "sound (lone_builder override m)"
    unfolding lone_builder_def
    by (rule soundI) (intro sound_then sound_builders observed soundD [OF sound_admissionOps])
  show "sound stamp_builder"
    unfolding stamp_builder_def
    by (rule soundI) (intro sound_then sound_builders soundD [OF sound_admissionOps])
qed

lemma keeps_paths:
  "keeps (scout_builder override m g rehearsal)" "keeps (worker_builder g)"
  "keeps (lone_builder override m)" "keeps stamp_builder"
proof -
  show "keeps (scout_builder override m g rehearsal)" "keeps (worker_builder g)" "keeps stamp_builder"
    unfolding keeps_def scout_builder_def worker_builder_def stamp_builder_def
    by (blast intro: keeps_then keepsD)+
  have observed: "keeps (if b then silent f else Pair [])" for b f
    by (cases b) (simp_all, simp add: keeps_def)
  have "same_identity p (snd (lone_builder override m p))" for p
    unfolding lone_builder_def by (blast intro: keeps_then keepsD observed)
  then show "keeps (lone_builder override m)" by (simp add: keeps_def)
qed

lemma quantum_mutate_eq:
  "quantum_mutate override m p =
     (let g = resolveGroup p; n = resolveGangSize m p g; ns = p_namespace p
      in if \<not> shared_gang m p then
           let m' = (if Label p ObserveLabel = ''true'' then ensureSidecarRBAC m ns else m)
           in (lone_builder override m' p, m')
         else
           let m1 = pair_store m p; p1 = snd (stamp_builder p)
           in if isScout m1 p1 g then
                let m2 = ensureSidecarRBAC (EnsurePodGroup m1 (p_namespace p1) (g @ ScoutGroupSuffix) 1)
                      (p_namespace p1)
                in (then_ops (stamp_builder p) (scout_builder override m2 g (rehearsalEnv p)), m2)
              else (then_ops (stamp_builder p) (worker_builder g),
                    EnsurePodGroup m1 (p_namespace p1) g (i32 (n - 1))))"
proof -
  have lone: "lone_builder override m p =
      (let r = then_ops (then_ops (then_ops (admissionOps (object_key (p_namespace p) (p_name p)) (PodCores p) p)
           (interceptorOps override)) handoffOps) (rehearsalOps (rehearsalEnv p))
       in if Label p ObserveLabel = ''true''
          then then_ops r (silent (\<lambda>q. sidecarContainerOps override m q True (rehearsalEnv p))) else r)" for m p
    by (simp add: lone_builder_def Let_def prod_eq_iff)
  obtain os p1 where "stamp_builder p = (os, p1)" by fastforce
  then show ?thesis
    by (simp add: quantum_mutate_def lone mutateScout_eq mutateWorker_eq
        prefix_ops_then pair_store_def stamp_builder_def Let_def del: then_ops_simps)
qed

lemma extends_pair_store: "extends m (pair_store m p)"
  unfolding pair_store_def Let_def
  by (rule extends_trans [OF extends_EnsurePodGroup extends_RecordAdmission])

interpretation quantum: mutation "quantum_mutate override" for override
proof
  fix m p
  have scout: "extends m (ensureSidecarRBAC (EnsurePodGroup (pair_store m p) ns g n) ns')" for ns g n ns'
    by (rule extends_trans [OF extends_trans [OF extends_pair_store extends_EnsurePodGroup] extends_RBAC])
  have worker: "extends m (EnsurePodGroup (pair_store m p) ns g n)" for ns g n
    by (rule extends_trans [OF extends_pair_store extends_EnsurePodGroup])
  note sounds = soundD [OF sound_paths(3)] sound_then [OF soundD [OF sound_paths(4)] sound_paths(1)]
    sound_then [OF soundD [OF sound_paths(4)] sound_paths(2)]
  note keep = keepsD [OF keeps_paths(3)] keeps_then [OF keepsD [OF keeps_paths(4)] keeps_paths(1)]
    keeps_then [OF keepsD [OF keeps_paths(4)] keeps_paths(2)]
  show "sound_result p (fst (quantum_mutate override m p))"
    unfolding quantum_mutate_eq Let_def using sounds by (simp del: then_ops_simps)
  show "same_identity p (snd (fst (quantum_mutate override m p)))"
    unfolding quantum_mutate_eq Let_def using keep by (simp del: then_ops_simps)
  show "extends m (snd (quantum_mutate override m p))"
    unfolding quantum_mutate_eq Let_def using scout worker by (simp add: extends_RBAC)
qed

end
