(* ===== verification/Handlers_Roles.thy ===== *)
theory Handlers_Roles
  imports Handlers_Sound
begin

text \<open>
  What the quantum handler makes of a coordinated gang: the patched pods of the scout and of the
  workers, and who is the scout.
\<close>

section \<open>Reading the patched pod\<close>

text \<open>A part of a pod that an operation changes as a function of that part alone.\<close>

lemma apply_ops_part:
  assumes "\<And>o' p q. apply_op o' p = Some q \<Longrightarrow> part q = step (part p) o'"
  shows "apply_ops os p = Some q \<Longrightarrow> part q = foldl step (part p) os"
proof (induction os arbitrary: p)
  case (Cons o' os)
  then show ?case by (auto split: option.splits dest: assms)
qed simp

fun gates_step :: "string list \<Rightarrow> op \<Rightarrow> string list" where
  "gates_step gs (AddGates x) = x"
| "gates_step gs (AddGate g) = gs @ [g]"
| "gates_step gs _ = gs"

fun group_step :: "scheduling_group option \<Rightarrow> op \<Rightarrow> scheduling_group option" where
  "group_step sg (AddSchedulingGroup g) = Some \<lparr>sg_name = Some g\<rparr>"
| "group_step sg _ = sg"

fun labels_step :: "(string, string) gomap option \<Rightarrow> op \<Rightarrow> (string, string) gomap option" where
  "labels_step l (AddLabels m) = Some m"
| "labels_step l (AddLabel k v) = map_option (\<lambda>m. gput m k v) l"
| "labels_step l _ = l"

fun annotations_step :: "(string, string) gomap option \<Rightarrow> op \<Rightarrow> (string, string) gomap option" where
  "annotations_step l (AddAnnotations m) = Some m"
| "annotations_step l (AddAnnotation k v) = map_option (\<lambda>m. gput m k v) l"
| "annotations_step l _ = l"

fun count_step :: "nat \<Rightarrow> op \<Rightarrow> nat" where
  "count_step n (AddContainers cs) = length cs"
| "count_step n (AddContainer _) = Suc n"
| "count_step n _ = n"

lemma apply_op_steps:
  "apply_op o' p = Some q \<Longrightarrow> p_gates q = gates_step (p_gates p) o'"
  "apply_op o' p = Some q \<Longrightarrow> p_group q = group_step (p_group p) o'"
  "apply_op o' p = Some q \<Longrightarrow> p_labels q = labels_step (p_labels p) o'"
  "apply_op o' p = Some q \<Longrightarrow> p_annotations q = annotations_step (p_annotations p) o'"
  "apply_op o' p = Some q \<Longrightarrow> length (p_containers q) = count_step (length (p_containers p)) o'"
  by (cases o'; auto split: if_splits option.splits)+

lemma apply_ops_steps:
  assumes "apply_ops os p = Some q"
  shows "p_gates q = foldl gates_step (p_gates p) os"
    "p_group q = foldl group_step (p_group p) os"
    "p_labels q = foldl labels_step (p_labels p) os"
    "p_annotations q = foldl annotations_step (p_annotations p) os"
    "length (p_containers q) = foldl count_step (length (p_containers p)) os"
  by (rule apply_ops_part [OF _ assms], erule apply_op_steps)+

text \<open>Operations that leave a part alone.\<close>

lemma foldl_idle: "(\<And>o'. o' \<in> set os \<Longrightarrow> step a o' = a) \<Longrightarrow> foldl step a os = a"
  by (induction os) auto

fun on_containers :: "op \<Rightarrow> bool" where
  "on_containers (InContainer _ _) = True"
| "on_containers _ = False"

lemma each_container_ops: "o' \<in> set (fst (each_container f p)) \<Longrightarrow> on_containers o'"
proof -
  have "o' \<in> set (fst (container_loop f i cs)) \<Longrightarrow> on_containers o'" for i cs
  proof (induction cs arbitrary: i)
    case (Cons c cs)
    then show ?case using Cons.IH [of "Suc i"] by (auto simp: split_beta)
  qed simp
  then show "o' \<in> set (fst (each_container f p)) \<Longrightarrow> on_containers o'"
    by (simp add: each_container_def split_beta)
qed

lemma on_containers_idle:
  assumes "on_containers o'"
  shows "gates_step gs o' = gs" "group_step sg o' = sg" "labels_step l o' = l"
    "annotations_step l o' = l" "count_step n o' = n"
  using assms by (cases o'; simp)+

lemma each_idle [simp]:
  "foldl gates_step gs (fst (each_container f p)) = gs"
  "foldl group_step sg (fst (each_container f p)) = sg"
  "foldl labels_step l (fst (each_container f p)) = l"
  "foldl annotations_step l (fst (each_container f p)) = l"
  "foldl count_step n (fst (each_container f p)) = n"
  by (intro foldl_idle on_containers_idle each_container_ops; assumption)+

lemma rehearsal_ops: "o' \<in> set (fst (rehearsalOps env p)) \<Longrightarrow> on_containers o'"
proof -
  have "o' \<in> set (fst (foldl (\<lambda>r e. then_ops r (setContainerEnvOps e)) r env)) \<Longrightarrow>
      \<forall>o' \<in> set (fst r). on_containers o' \<Longrightarrow> on_containers o'" for r
  proof (induction env arbitrary: r)
    case (Cons e env)
    have "\<forall>o' \<in> set (fst (then_ops r (setContainerEnvOps e))). on_containers o'"
      using Cons.prems by (auto simp: setContainerEnvOps_def dest: each_container_ops)
    with Cons show ?case by simp
  qed simp
  then show "o' \<in> set (fst (rehearsalOps env p)) \<Longrightarrow> on_containers o'"
    by (simp add: rehearsalOps_def)
qed

lemma rehearsal_idle [simp]:
  "foldl gates_step gs (fst (rehearsalOps env p)) = gs"
  "foldl group_step sg (fst (rehearsalOps env p)) = sg"
  "foldl labels_step l (fst (rehearsalOps env p)) = l"
  "foldl annotations_step l (fst (rehearsalOps env p)) = l"
  "foldl count_step n (fst (rehearsalOps env p)) = n"
  by (intro foldl_idle on_containers_idle rehearsal_ops; assumption)+

lemma annotate_idle [simp]:
  "foldl gates_step gs (fst (annotateOps ann p)) = gs"
  "foldl group_step sg (fst (annotateOps ann p)) = sg"
  "foldl labels_step l (fst (annotateOps ann p)) = l"
  "foldl count_step n (fst (annotateOps ann p)) = n"
  by (auto simp: annotateOps_def intro!: foldl_idle split: option.split)

text \<open>The annotations of the document follow those of the pod.\<close>

lemma gcopy_fresh:
  "distinct (map fst (acc @ ann)) \<Longrightarrow> gcopy acc ann = acc @ ann"
proof (induction ann arbitrary: acc)
  case Nil
  then show ?case by (simp add: gcopy_def)
next
  case (Cons kv ann)
  obtain k v where kv: "kv = (k, v)" by fastforce
  from Cons.prems have "gput acc k v = acc @ [(k, v)]"
    by (simp add: kv gput_def update_absent)
  moreover have "gcopy (acc @ [(k, v)]) ann = (acc @ [(k, v)]) @ ann"
    using Cons.prems by (intro Cons.IH) (simp add: kv)
  ultimately show ?case by (simp add: kv gcopy_def)
qed

lemma gcopy_empty: "gomap_ok ann \<Longrightarrow> gcopy [] ann = ann"
  by (simp add: gcopy_fresh gomap_ok_def)

lemma annotateOps_follow:
  assumes "gomap_ok ann"
  shows "foldl annotations_step (p_annotations p) (fst (annotateOps ann p)) = p_annotations (snd (annotateOps ann p))"
proof (cases "p_annotations p")
  case (Some m)
  have "foldl annotations_step (Some m) (map (\<lambda>(k, v). AddAnnotation k v) ann) = Some (gcopy m ann)" for m
  proof (induction ann arbitrary: m)
    case (Cons kv ann)
    then show ?case by (cases kv) (simp add: gcopy_def)
  qed (simp add: gcopy_def)
  with Some show ?thesis by (simp add: annotateOps_def)
qed (simp add: annotateOps_def gcopy_empty assms)

lemma annotateOps_some: "p_annotations (snd (annotateOps ann p)) \<noteq> None"
  by (simp add: annotateOps_def split: option.split)

section \<open>The parts a path changes\<close>

lemma each_container_rest [simp]:
  "p_annotations (snd (each_container f p)) = p_annotations p"
  "p_gates (snd (each_container f p)) = p_gates p"
  "p_group (snd (each_container f p)) = p_group p"
  "p_labels (snd (each_container f p)) = p_labels p"
  "p_namespace (snd (each_container f p)) = p_namespace p"
  by (simp_all add: each_container_def split_beta)

lemma silent_simps [simp]: "fst (silent f p) = f p" "snd (silent f p) = p"
  by (simp_all add: silent_def)

lemma rehearsal_annotations [simp]: "p_annotations (snd (rehearsalOps env p)) = p_annotations p"
proof -
  have "p_annotations (snd (foldl (\<lambda>r e. then_ops r (setContainerEnvOps e)) r env)) = p_annotations (snd r)"
    for r
  proof (induction env arbitrary: r)
    case (Cons e env)
    from Cons.IH [of "then_ops r (setContainerEnvOps e)"] show ?case
      by (simp add: setContainerEnvOps_def)
  qed simp
  then show ?thesis by (simp add: rehearsalOps_def)
qed

lemma link_idle [simp]:
  "foldl gates_step gs (linkGroupOps p g) = gs"
  "foldl annotations_step ann (linkGroupOps p g) = ann"
  "foldl count_step n (linkGroupOps p g) = n"
  by (auto simp: linkGroupOps_def)

lemma link_group: "foldl group_step (p_group p) (linkGroupOps p g) = Some \<lparr>sg_name = Some g\<rparr>"
  by (auto simp: linkGroupOps_def linked_to_def split: option.splits)

lemma link_label:
  "g \<noteq> [] \<Longrightarrow> nstr (foldl labels_step (p_labels p) (linkGroupOps p g)) GroupLabel = g"
  by (auto simp: linkGroupOps_def GroupName_def Label_def nstr_def gstr_def split: option.splits)

lemma apply_idle [simp]:
  "foldl group_step sg (applyOps d p) = sg"
  "foldl labels_step l (applyOps d p) = l"
  "foldl count_step n (applyOps d p) = n"
  by (auto simp: applyOps_def gateWithName_def annotateOp_def)

lemma apply_gates: "dp_gate d \<in> set (foldl gates_step (p_gates p) (applyOps d p))"
  by (auto simp: applyOps_def gateWithName_def annotateOp_def)

lemma apply_annotations:
  assumes "p_annotations p = Some m" "dp_kind d \<noteq> []" "dp_scout d \<noteq> []" "dp_gate d \<noteq> []"
  shows "foldl annotations_step (p_annotations p) (applyOps d p) =
    Some (gput (gput (gput m DependsOnKindAnnotation (dp_kind d)) DependsOnScoutAnnotation (dp_scout d))
      DependsOnGateAnnotation (dp_gate d))"
  using assms by (auto simp: applyOps_def gateWithName_def annotateOp_def)

lemma sidecar_idle [simp]:
  "foldl gates_step gs (sidecarContainerOps ov m p obs env) = gs"
  "foldl group_step sg (sidecarContainerOps ov m p obs env) = sg"
  "foldl labels_step l (sidecarContainerOps ov m p obs env) = l"
  "foldl annotations_step ann (sidecarContainerOps ov m p obs env) = ann"
  "foldl count_step (length (p_containers p)) (sidecarContainerOps ov m p obs env) = Suc (length (p_containers p))"
  by (auto simp: sidecarContainerOps_def Let_def)

lemma volume_idle [simp]:
  "foldl gates_step gs (fst (volume_ops v p)) = gs" "foldl gates_step gs (fst (init_ops c p)) = gs"
  "foldl group_step sg (fst (volume_ops v p)) = sg" "foldl group_step sg (fst (init_ops c p)) = sg"
  "foldl labels_step l (fst (volume_ops v p)) = l" "foldl labels_step l (fst (init_ops c p)) = l"
  "foldl annotations_step ann (fst (volume_ops v p)) = ann"
  "foldl annotations_step ann (fst (init_ops c p)) = ann"
  "foldl count_step n (fst (volume_ops v p)) = n" "foldl count_step n (fst (init_ops c p)) = n"
  by (simp_all add: volume_ops_def init_ops_def)

lemma worker_env_idle [simp]:
  "foldl gates_step gs (fst (workerEnvOps p)) = gs"
  "foldl group_step sg (fst (workerEnvOps p)) = sg"
  "foldl labels_step l (fst (workerEnvOps p)) = l"
  "foldl annotations_step ann (fst (workerEnvOps p)) = ann"
  "foldl count_step n (fst (workerEnvOps p)) = n"
  by (simp_all add: workerEnvOps_def roleEnvOps_def setContainerEnvOps_def)

lemma staging_idle [simp]:
  "foldl gates_step gs (fst (interceptorOps ov p)) = gs" "foldl gates_step gs (fst (handoffOps p)) = gs"
  "foldl group_step sg (fst (interceptorOps ov p)) = sg" "foldl group_step sg (fst (handoffOps p)) = sg"
  "foldl labels_step l (fst (interceptorOps ov p)) = l" "foldl labels_step l (fst (handoffOps p)) = l"
  "foldl count_step n (fst (interceptorOps ov p)) = n" "foldl count_step n (fst (handoffOps p)) = n"
  by (simp_all add: interceptorOps_def handoffOps_def setContainerEnvOps_def)

lemma stamp_idle [simp]:
  "foldl gates_step gs (fst (stamp_builder p)) = gs"
  "foldl group_step sg (fst (stamp_builder p)) = sg"
  "foldl labels_step l (fst (stamp_builder p)) = l"
  "foldl count_step n (fst (stamp_builder p)) = n"
  by (simp_all add: stamp_builder_def admissionOps_def)

text \<open>The stamp: the pod is protected, and belongs to the admission of its gang.\<close>

definition stamped :: "pod \<Rightarrow> (string, string) gomap" where
  "stamped p = gcopy (pod_annotations p)
     [(ProtectedAnnotation, ProtectedValue),
      (AdmittedGroupAnnotation, object_key (p_namespace p) (resolveGroup p))]"

lemma stamp_annotations:
  "foldl annotations_step (p_annotations p) (fst (stamp_builder p)) = Some (stamped p)"
  "p_annotations (snd (stamp_builder p)) = Some (stamped p)"
proof -
  let ?ann = "[(ProtectedAnnotation, ProtectedValue),
    (AdmittedGroupAnnotation, object_key (p_namespace p) (resolveGroup p))]"
  have ok: "gomap_ok ?ann" by (simp add: gomap_ok_def ProtectedAnnotation_def AdmittedGroupAnnotation_def)
  have "p_annotations (snd (annotateOps ?ann p)) = Some (stamped p)"
    by (simp add: annotateOps_def stamped_def pod_annotations_def split: option.split)
  with annotateOps_follow [OF ok, of p]
  show "foldl annotations_step (p_annotations p) (fst (stamp_builder p)) = Some (stamped p)"
    "p_annotations (snd (stamp_builder p)) = Some (stamped p)"
    by (simp_all add: stamp_builder_def admissionOps_def)
qed

lemma stamped_at:
  "map_of (stamped p) ProtectedAnnotation = Some ProtectedValue"
  "map_of (stamped p) AdmittedGroupAnnotation = Some (object_key (p_namespace p) (resolveGroup p))"
  "map_of (stamped p) CompletionIndexAnnotation = map_of (pod_annotations p) CompletionIndexAnnotation"
proof -
  have "gomap_ok [(ProtectedAnnotation, ProtectedValue),
      (AdmittedGroupAnnotation, object_key (p_namespace p) (resolveGroup p))]"
    by (simp add: gomap_ok_def ProtectedAnnotation_def AdmittedGroupAnnotation_def)
  from map_of_gcopy [OF this, of "pod_annotations p"]
  show "map_of (stamped p) ProtectedAnnotation = Some ProtectedValue"
    "map_of (stamped p) AdmittedGroupAnnotation = Some (object_key (p_namespace p) (resolveGroup p))"
    "map_of (stamped p) CompletionIndexAnnotation = map_of (pod_annotations p) CompletionIndexAnnotation"
    by (simp_all add: stamped_def ProtectedAnnotation_def AdmittedGroupAnnotation_def
        CompletionIndexAnnotation_def map_add_def)
qed

section \<open>Who is the scout\<close>

definition absent :: "mutator \<Rightarrow> string \<Rightarrow> string \<Rightarrow> bool" where
  "absent m ns g \<longleftrightarrow> (case mu_client m of None \<Rightarrow> True | Some s \<Rightarrow> get_group s ns g = None)"

lemma isScout_absent:
  "isScout m p g =
     (case map_of (pod_annotations p) CompletionIndexAnnotation of
        Some idx \<Rightarrow> idx = ScoutIndex
      | None \<Rightarrow> absent m (p_namespace p) (g @ ScoutGroupSuffix))"
  by (simp add: isScout_def absent_def split: option.split)

lemma get_group_None:
  "get_group s ns g = None \<longleftrightarrow>
     ks_down s ''get podgroups'' \<or> (\<forall>n. (ns, g, n) \<notin> set (gangs s))"
  by (auto simp: get_group_def find_None_iff is_group_def gangs_def)

lemma absent_Ensure:
  assumes "(ns', g') \<noteq> (ns, g)"
  shows "absent (EnsurePodGroup m ns' g' n) ns g = absent m ns g"
  using assms
  by (auto simp: absent_def EnsurePodGroup_def Let_def get_group_None create_group_def gangs_def
      split: option.splits)

lemma patch_down: "ks_down (patch_group s ns g k v) = ks_down s"
  by (simp add: patch_group_def)

lemma absent_Record: "absent (RecordAdmission m ns' g' n) ns g = absent m ns g"
  by (auto simp: absent_def RecordAdmission_def get_group_None gangs_patch patch_down split: option.splits)

lemma absent_RBAC: "absent (ensureSidecarRBAC m ns') ns g = absent m ns g"
  by (simp add: absent_def ensureSidecarRBAC_def get_group_None ensure_object_rest split: option.split)

lemma suffix_nonempty [simp]: "ScoutGroupSuffix \<noteq> []"
  by (simp add: ScoutGroupSuffix_def)

text \<open>Stamping the pod and recording its gang do not change its role.\<close>

lemma role_stable:
  "isScout (pair_store m p) (snd (stamp_builder p)) g = isScout m p g"
  if "g = resolveGroup p" for m p
proof -
  have "p_namespace (snd (stamp_builder p)) = p_namespace p"
    using keepsD [OF keeps_paths(4)] by (simp add: same_identity_def)
  moreover have "map_of (pod_annotations (snd (stamp_builder p))) CompletionIndexAnnotation
      = map_of (pod_annotations p) CompletionIndexAnnotation"
    using stamp_annotations(2) [of p] by (simp add: pod_annotations_def stamped_at [unfolded pod_annotations_def])
  moreover have "absent (pair_store m p) ns (g @ ScoutGroupSuffix) = absent m ns (g @ ScoutGroupSuffix)" for ns
    using that by (simp add: pair_store_def Let_def absent_Record absent_Ensure)
  ultimately show ?thesis by (simp add: isScout_absent split: option.split)
qed

lemma quantum_roles:
  assumes "shared_gang m p"
  shows "isScout m p (resolveGroup p) \<Longrightarrow>
      quantum_mutate ov m p =
        (let m2 = ensureSidecarRBAC (EnsurePodGroup (pair_store m p) (p_namespace p)
                    (resolveGroup p @ ScoutGroupSuffix) 1) (p_namespace p)
         in (then_ops (stamp_builder p) (scout_builder ov m2 (resolveGroup p) (rehearsalEnv p)), m2))"
    and "\<not> isScout m p (resolveGroup p) \<Longrightarrow>
      quantum_mutate ov m p =
        (then_ops (stamp_builder p) (worker_builder (resolveGroup p)),
         EnsurePodGroup (pair_store m p) (p_namespace p) (resolveGroup p)
           (i32 (resolveGangSize m p (resolveGroup p) - 1)))"
proof -
  have ns: "p_namespace (snd (stamp_builder p)) = p_namespace p"
    using keepsD [OF keeps_paths(4)] by (simp add: same_identity_def)
  show "isScout m p (resolveGroup p) \<Longrightarrow>
      quantum_mutate ov m p =
        (let m2 = ensureSidecarRBAC (EnsurePodGroup (pair_store m p) (p_namespace p)
                    (resolveGroup p @ ScoutGroupSuffix) 1) (p_namespace p)
         in (then_ops (stamp_builder p) (scout_builder ov m2 (resolveGroup p) (rehearsalEnv p)), m2))"
    by (simp add: quantum_mutate_eq assms role_stable ns Let_def)
  show "\<not> isScout m p (resolveGroup p) \<Longrightarrow>
      quantum_mutate ov m p =
        (then_ops (stamp_builder p) (worker_builder (resolveGroup p)),
         EnsurePodGroup (pair_store m p) (p_namespace p) (resolveGroup p)
           (i32 (resolveGangSize m p (resolveGroup p) - 1)))"
    by (simp add: quantum_mutate_eq assms role_stable ns Let_def)
qed

section \<open>The worker\<close>

lemma drop_quantum_gone:
  "c_name (snd (drop_quantum c)) \<noteq> SidecarContainerName \<Longrightarrow>
     map_of (c_requests (snd (drop_quantum c))) QuantumResource = None \<and>
     map_of (c_limits (snd (drop_quantum c))) QuantumResource = None"
  by (simp add: drop_quantum_def split: if_splits)

lemma worker_containers:
  "c \<in> set (p_containers (snd (worker_builder g p))) \<Longrightarrow> c_name c \<noteq> SidecarContainerName \<Longrightarrow>
     map_of (c_requests c) QuantumResource = None \<and> map_of (c_limits c) QuantumResource = None"
  using drop_quantum_gone
  by (auto simp: worker_builder_def dropQuantumResourceOps_def each_container_containers)

lemma workerEnvOps_count [simp]:
  "length (p_containers (snd (workerEnvOps p))) = length (p_containers p)"
  by (simp add: workerEnvOps_def roleEnvOps_def setContainerEnvOps_def each_container_containers)

lemma rehearsal_count [simp]:
  "length (p_containers (snd (rehearsalOps env p))) = length (p_containers p)"
proof -
  have "length (p_containers (snd (foldl (\<lambda>r e. then_ops r (setContainerEnvOps e)) r env)))
      = length (p_containers (snd r))" for r
  proof (induction env arbitrary: r)
    case (Cons e env)
    from Cons.IH [of "then_ops r (setContainerEnvOps e)"] show ?case
      by (simp add: setContainerEnvOps_def each_container_containers)
  qed simp
  then show ?thesis by (simp add: rehearsalOps_def)
qed

lemma stamp_count [simp]: "length (p_containers (snd (stamp_builder p))) = length (p_containers p)"
  by (simp add: stamp_builder_def admissionOps_def annotateOps_def split: option.split)

lemma stamp_rest:
  "p_gates (snd (stamp_builder p)) = p_gates p" "p_group (snd (stamp_builder p)) = p_group p"
  "p_labels (snd (stamp_builder p)) = p_labels p" "p_namespace (snd (stamp_builder p)) = p_namespace p"
  using keepsD [OF keeps_paths(4)] by (simp_all add: same_identity_def)

text \<open>
  What a worker must be: in the gang's group by label and by scheduling group, gated until the
  scout has submitted, with the dependency on the scout as \<open>DependencyOf\<close> reads it back and the
  admission key of its gang, and with no container, a sidecar apart, that still asks for the
  quantum device.
\<close>

definition worker_of :: "pod \<Rightarrow> pod \<Rightarrow> bool" where
  "worker_of p q \<longleftrightarrow>
    GroupName q = resolveGroup p \<and> linked_to q (resolveGroup p) \<and>
    QuantumGate \<in> set (p_gates q) \<and>
    DependencyOf q = Some \<lparr>dp_kind = DependencyKindQuantumSubmit,
      dp_scout = resolveGroup p @ ScoutGroupSuffix, dp_gate = QuantumGate\<rparr> \<and>
    Annotation q AdmittedGroupAnnotation = object_key (p_namespace p) (resolveGroup p) \<and>
    length (p_containers q) = length (p_containers p) \<and>
    (\<forall>c \<in> set (p_containers q). c_name c \<noteq> SidecarContainerName \<longrightarrow>
       map_of (c_requests c) QuantumResource = None \<and> map_of (c_limits c) QuantumResource = None)"

lemma worker_builds:
  assumes g: "resolveGroup p \<noteq> []"
  shows "\<exists>q. apply_ops (fst (then_ops (stamp_builder p) (worker_builder (resolveGroup p)))) p = Some q \<and>
    worker_of p q"
proof -
  let ?g = "resolveGroup p"
  let ?d = "\<lparr>dp_kind = DependencyKindQuantumSubmit, dp_scout = ?g @ ScoutGroupSuffix, dp_gate = QuantumGate\<rparr>"
  let ?p1 = "snd (stamp_builder p)"
  let ?r = "then_ops (stamp_builder p) (worker_builder ?g)"
  from sound_then [OF soundD [OF sound_paths(4)] sound_paths(2)] obtain q where
    q: "apply_ops (fst ?r) p = Some q" and ahead: "ahead q (snd ?r)"
    using sound_result_applies [of p "fst ?r" "snd ?r"] by (metis prod.collapse)
  have fst_r: "fst ?r = fst (stamp_builder p) @ linkGroupOps ?p1 ?g @ applyOps ?d ?p1
      @ fst (workerEnvOps ?p1) @ fst (dropQuantumResourceOps (snd (workerEnvOps ?p1)))"
    by (simp add: worker_builder_def)
  note parts = apply_ops_steps [OF q, unfolded fst_r]
  have group: "p_group q = Some \<lparr>sg_name = Some ?g\<rparr>"
    using parts(2) link_group [of ?p1 ?g] by (simp add: dropQuantumResourceOps_def stamp_rest)
  have label: "nstr (p_labels q) GroupLabel = ?g"
    using parts(3) link_label [OF g, of ?p1] by (simp add: dropQuantumResourceOps_def stamp_rest)
  have gate: "QuantumGate \<in> set (p_gates q)"
    using parts(1) apply_gates [of ?d ?p1] by (simp add: dropQuantumResourceOps_def stamp_rest)
  have ann: "p_annotations q = Some (gput (gput (gput (stamped p) DependsOnKindAnnotation (dp_kind ?d))
      DependsOnScoutAnnotation (dp_scout ?d)) DependsOnGateAnnotation (dp_gate ?d))"
    using parts(4) apply_annotations [OF stamp_annotations(2), where d = ?d]
    by (simp add: dropQuantumResourceOps_def stamp_annotations DependencyKindQuantumSubmit_def
        QuantumGate_def)
  have count: "length (p_containers q) = length (p_containers p)"
    using parts(5) by (simp add: dropQuantumResourceOps_def)
  have "length (p_containers (snd ?r)) = length (p_containers p)"
    by (simp add: worker_builder_def dropQuantumResourceOps_def each_container_containers)
  with ahead count have same: "p_containers q = p_containers (snd ?r)"
    by (auto simp: ahead_def)
  have dep: "DependencyOf q = Some ?d" "Annotation q AdmittedGroupAnnotation = object_key (p_namespace p) ?g"
    using stamped_at(2) [of p]
    by (simp_all add: DependencyOf_def Annotation_def ann nstr_def Let_def DependsOnKindAnnotation_def
        DependsOnScoutAnnotation_def DependsOnGateAnnotation_def DependencyKindQuantumSubmit_def
        AdmittedGroupAnnotation_def gstr_def)
  have "\<forall>c \<in> set (p_containers q). c_name c \<noteq> SidecarContainerName \<longrightarrow>
       map_of (c_requests c) QuantumResource = None \<and> map_of (c_limits c) QuantumResource = None"
    unfolding same using worker_containers [where g = ?g and p = ?p1] by auto
  with q group label gate dep count show ?thesis
    by (auto simp: worker_of_def GroupName_def Label_def linked_to_def)
qed

lemma worker_shape:
  assumes "shared_gang m p" "\<not> isScout m p (resolveGroup p)"
  shows "\<exists>q. apply_ops (fst (fst (quantum_mutate ov m p))) p = Some q \<and> worker_of p q"
proof -
  have "fst (quantum_mutate ov m p) = then_ops (stamp_builder p) (worker_builder (resolveGroup p))"
    by (simp add: quantum_roles(2) [OF assms] del: then_ops_simps)
  with worker_builds [of p] assms(1) show ?thesis by (simp add: shared_gang_def del: then_ops_simps)
qed

section \<open>The scout\<close>

lemma set_container_env_keeps:
  "c_requests (snd (set_container_env e c)) = c_requests c" "c_name (snd (set_container_env e c)) = c_name c"
  by (simp_all add: set_container_env_def)

lemma stage_container_keeps:
  "c_requests (snd (stage_container c)) = c_requests c" "c_name (snd (stage_container c)) = c_name c"
  by (auto simp: stage_container_def mount_ops_def Let_def)

lemma handoff_container_keeps:
  "c_requests (snd (handoff_container c)) = c_requests c" "c_name (snd (handoff_container c)) = c_name c"
  by (simp_all add: handoff_container_def mount_ops_def)

text \<open>What the containers ask for, by name.\<close>

definition asks :: "pod \<Rightarrow> (string \<times> (string, quantity) gomap) list" where
  "asks p = map (\<lambda>c. (c_name c, c_requests c)) (p_containers p)"

lemma asks_setContainerEnv [simp]: "asks (snd (setContainerEnvOps e p)) = asks p"
  by (simp add: asks_def setContainerEnvOps_def each_container_containers set_container_env_keeps comp_def)

lemma asks_interceptor [simp]: "asks (snd (interceptorOps ov p)) = asks p"
  by (simp add: asks_def interceptorOps_def each_container_containers stage_container_keeps
      volume_ops_def init_ops_def comp_def)

lemma asks_handoff [simp]: "asks (snd (handoffOps p)) = asks p"
proof -
  have "asks (snd (each_container handoff_container q)) = asks q" for q
    by (simp add: asks_def each_container_containers handoff_container_keeps comp_def)
  moreover have "asks (snd (volume_ops v p)) = asks p" for v
    by (simp add: asks_def volume_ops_def)
  ultimately show ?thesis by (simp add: handoffOps_def)
qed

lemma asks_rehearsal [simp]: "asks (snd (rehearsalOps env p)) = asks p"
proof -
  have "asks (snd (foldl (\<lambda>r e. then_ops r (setContainerEnvOps e)) r env)) = asks (snd r)" for r
  proof (induction env arbitrary: r)
    case (Cons e env)
    from Cons.IH [of "then_ops r (setContainerEnvOps e)"] show ?case by simp
  qed simp
  then show ?thesis by (simp add: rehearsalOps_def)
qed

lemma asks_stamp [simp]: "asks (snd (stamp_builder p)) = asks p"
proof -
  have "asks (snd (annotateOps ann p)) = asks p" for ann
    by (simp add: asks_def annotateOps_def split: option.split)
  then show ?thesis by (simp add: stamp_builder_def admissionOps_def)
qed

lemma asks_scout [simp]: "asks (snd (scout_builder ov m g rh p)) = asks p"
  by (simp add: scout_builder_def roleEnvOps_def)

lemma quantum_scout_asks:
  assumes "shared_gang m p" "isScout m p (resolveGroup p)"
  shows "asks (snd (fst (quantum_mutate ov m p))) = asks p"
  by (simp add: quantum_roles(1) [OF assms] Let_def)

lemma asks_length: "asks p = asks q \<Longrightarrow> length (p_containers p) = length (p_containers q)"
  unfolding asks_def by (metis length_map)

text \<open>The last container of a document, after the operations that add the sidecar.\<close>

lemma sidecar_last:
  assumes "apply_ops (sidecarContainerOps ov m p obs env) d = Some q" "p_containers p \<noteq> []"
  shows "last (p_containers q) = sidecar_container ov m p obs env"
  using assms by (auto simp: sidecarContainerOps_def Let_def split: if_splits)

text \<open>
  What the scout must be: a pod of its own group, the gang's name with the scout suffix, gated
  no more than it was; its containers ask for what they asked for, and after them comes one
  sidecar that knows the gang it has to ungate.
\<close>

definition scout_of :: "pod \<Rightarrow> pod \<Rightarrow> bool" where
  "scout_of p q \<longleftrightarrow>
    GroupName q = resolveGroup p @ ScoutGroupSuffix \<and> linked_to q (resolveGroup p @ ScoutGroupSuffix) \<and>
    p_gates q = p_gates p \<and>
    map (\<lambda>c. (c_name c, c_requests c)) (butlast (p_containers q)) =
      map (\<lambda>c. (c_name c, c_requests c)) (p_containers p) \<and>
    c_name (last (p_containers q)) = SidecarContainerName \<and>
    ValueEnv GangGroupEnv (resolveGroup p) \<in> set (c_env (last (p_containers q)))"

lemma scout_builds:
  assumes "p_containers p \<noteq> []"
  shows "\<exists>q. apply_ops (fst (then_ops (stamp_builder p) (scout_builder ov m2 (resolveGroup p) (rehearsalEnv p)))) p
      = Some q \<and> scout_of p q"
proof -
  let ?g = "resolveGroup p" let ?p1 = "snd (stamp_builder p)"
  let ?r = "then_ops (stamp_builder p) (scout_builder ov m2 ?g (rehearsalEnv p))"
  from sound_then [OF soundD [OF sound_paths(4)] sound_paths(1)] obtain q where
    q: "apply_ops (fst ?r) p = Some q" and ahead: "ahead q (snd ?r)"
    using sound_result_applies [of p "fst ?r" "snd ?r"] by (metis prod.collapse)
  let ?pre = "then_ops (then_ops (then_ops (silent (\<lambda>p. linkGroupOps p (?g @ ScoutGroupSuffix)) ?p1)
       (interceptorOps ov)) handoffOps) (roleEnvOps RoleScout)"
  let ?side = "sidecarContainerOps ov m2 (snd ?pre) False (ValueEnv GangGroupEnv ?g # rehearsalEnv p)"
  have fst_r: "fst ?r = fst (stamp_builder p) @ fst ?pre @ ?side"
    by (simp add: scout_builder_def)
  have asks: "asks (snd ?pre) = asks p" "asks (snd ?r) = asks p"
    by (simp_all add: roleEnvOps_def)
  have count: "length (p_containers (snd ?pre)) = length (p_containers p)"
    by (rule asks_length [OF asks(1)])
  with assms have nonempty: "p_containers (snd ?pre) \<noteq> []" by auto
  note parts = apply_ops_steps [OF q, unfolded fst_r]
  have group: "p_group q = Some \<lparr>sg_name = Some (?g @ ScoutGroupSuffix)\<rparr>"
    using parts(2) link_group [of ?p1 "?g @ ScoutGroupSuffix"]
    by (simp add: stamp_rest roleEnvOps_def setContainerEnvOps_def)
  have label: "nstr (p_labels q) GroupLabel = ?g @ ScoutGroupSuffix"
    using parts(3) link_label [of "?g @ ScoutGroupSuffix" ?p1]
    by (simp add: stamp_rest roleEnvOps_def setContainerEnvOps_def)
  have gates: "p_gates q = p_gates p"
    using parts(1) by (simp add: roleEnvOps_def setContainerEnvOps_def)
  have "length (p_containers q) = foldl count_step (length (p_containers p)) ?side"
    using parts(5) by (simp add: roleEnvOps_def setContainerEnvOps_def del: sidecar_idle)
  then have length_q: "length (p_containers q) = Suc (length (p_containers p))"
    unfolding count [symmetric] by (simp only: sidecar_idle)
  obtain d where "apply_ops ?side d = Some q"
    using q unfolding fst_r by (auto simp: apply_ops_append split: option.splits)
  from sidecar_last [OF this nonempty]
  have last_q: "last (p_containers q)
      = sidecar_container ov m2 (snd ?pre) False (ValueEnv GangGroupEnv ?g # rehearsalEnv p)" .
  from ahead obtain extra where extra: "p_containers q = p_containers (snd ?r) @ extra"
    by (auto simp: ahead_def)
  with length_q asks_length [OF asks(2)] have "length extra = 1" by simp
  with extra have "butlast (p_containers q) = p_containers (snd ?r)"
    by (simp add: butlast_append length_Suc_conv) (metis butlast_snoc append_Nil2 butlast.simps(2))
  with asks(2) have "map (\<lambda>c. (c_name c, c_requests c)) (butlast (p_containers q)) =
      map (\<lambda>c. (c_name c, c_requests c)) (p_containers p)"
    by (simp add: asks_def)
  moreover have "c_name (last (p_containers q)) = SidecarContainerName"
    "ValueEnv GangGroupEnv ?g \<in> set (c_env (last (p_containers q)))"
    by (simp_all add: last_q sidecar_container_def Let_def)
  ultimately show ?thesis using q group label gates
    by (auto simp: scout_of_def asks_def GroupName_def Label_def linked_to_def)
qed

lemma scout_shape:
  assumes "shared_gang m p" "isScout m p (resolveGroup p)" "p_containers p \<noteq> []"
  shows "\<exists>q. apply_ops (fst (fst (quantum_mutate ov m p))) p = Some q \<and> scout_of p q"
proof -
  obtain m2 where "fst (quantum_mutate ov m p)
      = then_ops (stamp_builder p) (scout_builder ov m2 (resolveGroup p) (rehearsalEnv p))"
    using quantum_roles(1) [OF assms(1,2), of ov] by (metis fst_conv)
  with scout_builds [OF assms(3)] show ?thesis by (simp del: then_ops_simps)
qed

section \<open>One scout\<close>

lemma absent_grows:
  assumes "extends m m'" "mu_client m = Some s" "\<not> ks_down s ''get podgroups''" "\<not> absent m ns g"
  shows "\<not> absent m' ns g"
  using assms by (auto simp: extends_def absent_def get_group_None split: option.splits)

lemma EnsurePodGroup_present:
  assumes "mu_client m = Some s" "\<not> ks_down s ''get podgroups''" "\<not> ks_down s ''create podgroups''"
  shows "\<not> absent (EnsurePodGroup m ns g n) ns g"
  using assms
  by (auto simp: absent_def EnsurePodGroup_def Let_def get_group_None create_group_def gangs_def
      list_ex_iff is_group_def split: option.splits)

lemma extends_client:
  "extends m m' \<Longrightarrow> mu_client m = Some s \<Longrightarrow> \<exists>s'. mu_client m' = Some s' \<and> ks_down s' = ks_down s"
  by (auto simp: extends_def split: option.splits)

text \<open>
  C15: a coordinated gang has one scout. While the API answers, once one of its pods without a
  completion index has been mutated, as the scout or as a worker, no later pod of the gang
  without an index is taken for the scout, whatever else the webhook admits in between.
\<close>
theorem one_scout:
  assumes "shared_gang m p" "map_of (pod_annotations p) CompletionIndexAnnotation = None"
    and up: "mu_client m = Some s" "\<not> ks_down s ''get podgroups''" "\<not> ks_down s ''create podgroups''"
    and later: "extends (snd (quantum_mutate ov m p)) m'"
    and gang: "p_namespace p' = p_namespace p" "resolveGroup p' = resolveGroup p"
      "map_of (pod_annotations p') CompletionIndexAnnotation = None"
  shows "\<not> isScout m' p' (resolveGroup p')"
proof -
  let ?sg = "resolveGroup p @ ScoutGroupSuffix" let ?m' = "snd (quantum_mutate ov m p)"
  obtain s1 where s1: "mu_client (pair_store m p) = Some s1" "ks_down s1 = ks_down s"
    using extends_client [OF extends_pair_store up(1)] by blast
  have "\<not> absent ?m' (p_namespace p) ?sg"
  proof (cases "isScout m p (resolveGroup p)")
    case True
    with s1 up show ?thesis
      by (simp add: quantum_roles(1) [OF assms(1) True] Let_def absent_RBAC EnsurePodGroup_present)
  next
    case False
    with assms(2) have "\<not> absent m (p_namespace p) ?sg" by (simp add: isScout_absent)
    from absent_grows [OF quantum.mutate_extends up(1,2) this] show ?thesis .
  qed
  moreover obtain s2 where "mu_client ?m' = Some s2" "ks_down s2 = ks_down s"
    using extends_client [OF quantum.mutate_extends up(1)] by blast
  ultimately have "\<not> absent m' (p_namespace p) ?sg"
    using absent_grows [OF later] up(2) by metis
  with gang show ?thesis by (simp add: isScout_absent)
qed

section \<open>A gang of three\<close>

text \<open>Two members of a coordinated gang, without and with a completion index.\<close>

definition pair_member :: "(string, string) gomap \<Rightarrow> pod" where
  "pair_member ann = blank_pod\<lparr>p_name := ''p'', p_namespace := ''ns'', p_scheduler := SchedulerName,
     p_labels := Some [(GroupLabel, ''vqe'')],
     p_annotations := Some ([(CoordinationAnnotation, CoordinationShared), (GroupSizeAnnotation, ''3'')] @ ann),
     p_containers := [blank_container\<lparr>c_name := ''main'',
       c_requests := [(''cpu'', units 2), (QuantumResource, units 1)]\<rparr>]\<rparr>"

abbreviation pair_scout :: pod where "pair_scout \<equiv> pair_member []"

abbreviation pair_worker :: pod where "pair_worker \<equiv> pair_member [(CompletionIndexAnnotation, ''1'')]"

abbreviation empty_cluster :: mutator where "empty_cluster \<equiv> mutator_with (store_with [] []) 0"

lemma pair_facts:
  "shared_gang empty_cluster pair_scout" "shared_gang empty_cluster pair_worker"
  "isScout empty_cluster pair_scout ''vqe''" "\<not> isScout empty_cluster pair_worker ''vqe''"
  "resolveGroup pair_scout = ''vqe''" "resolveGroup pair_worker = ''vqe''"
  "p_containers pair_scout \<noteq> []" "p_namespace pair_scout = ''ns''"
  "map_of (pod_annotations pair_scout) CompletionIndexAnnotation = None"
  by code_simp+

theorem one_scout_witness:
  "\<not> isScout (snd (quantum_mutate [] empty_cluster pair_scout)) pair_scout ''vqe''"
  using one_scout [of empty_cluster pair_scout "store_with [] []" "[]"
      "snd (quantum_mutate [] empty_cluster pair_scout)" pair_scout] pair_facts
  by (simp add: mutator_with_def store_with_def)

end
