(* ===== verification/Webhook.thy ===== *)
theory Webhook
  imports Handlers_Roles
begin

text \<open>
  \<open>pkg/webhook/handler.go\<close> and the dispatcher and HTTP entry point of \<open>webhook.go\<close>: the
  registry of handlers, the order they run in, and the answer to an admission review. The
  package-level variables are the record \<open>registry\<close>. Certificates are a library matter.
\<close>

section \<open>Handlers and their registry\<close>

text \<open>A handler that is not an \<open>Admitter\<close> has no \<open>hd_admit\<close>.\<close>

record handler =
  hd_name :: string
  hd_applies :: "mutator \<Rightarrow> pod \<Rightarrow> bool"
  hd_admit :: "(mutator \<Rightarrow> pod \<Rightarrow> string option) option"
  hd_mutate :: "mutator \<Rightarrow> pod \<Rightarrow> (op list \<times> pod) \<times> mutator"

record registry =
  rg_available :: "(string, handler) gomap"
  rg_order :: "string list"

definition DefaultHandlerOrder :: "string list" where
  "DefaultHandlerOrder = [''fluxion'', ''quantum'', ''gang'']"

text \<open>The state at package initialisation.\<close>

definition initial_registry :: registry where
  "initial_registry = \<lparr>rg_available = [], rg_order = DefaultHandlerOrder\<rparr>"

definition Register :: "registry \<Rightarrow> handler \<Rightarrow> registry" where
  "Register rg h = rg\<lparr>rg_available := gput (rg_available rg) (hd_name h) h\<rparr>"

text \<open>The active names and the unknown ones are returned with the new registry.\<close>

definition SetActiveHandlers :: "registry \<Rightarrow> string list \<Rightarrow> registry \<times> string list \<times> string list" where
  "SetActiveHandlers rg names =
     (if names = [] then (rg\<lparr>rg_order := DefaultHandlerOrder\<rparr>, DefaultHandlerOrder, [])
      else
        let ordered = filter (\<lambda>n. map_of (rg_available rg) n \<noteq> None) names;
            unknown = filter (\<lambda>n. map_of (rg_available rg) n = None) names
        in (rg\<lparr>rg_order := ordered\<rparr>, ordered, unknown))"

definition ActiveHandlerNames :: "registry \<Rightarrow> string list" where
  "ActiveHandlerNames rg = rg_order rg"

definition registered :: "registry \<Rightarrow> handler list" where
  "registered rg = List.map_filter (map_of (rg_available rg)) (rg_order rg)"

section \<open>The handlers the package registers\<close>

definition fluxion_handler :: handler where
  "fluxion_handler = \<lparr>hd_name = ''fluxion'', hd_applies = fluxion_applies, hd_admit = None,
     hd_mutate = fluxion_mutate\<rparr>"

definition gang_handler :: handler where
  "gang_handler = \<lparr>hd_name = ''gang'', hd_applies = gang_applies, hd_admit = None,
     hd_mutate = gang_mutate\<rparr>"

definition quantum_handler :: "string \<Rightarrow> handler" where
  "quantum_handler override = \<lparr>hd_name = ''quantum'', hd_applies = quantum_applies,
     hd_admit = Some quantum_admit, hd_mutate = quantum_mutate override\<rparr>"

text \<open>The \<open>init\<close> functions of the package run in the order of its files.\<close>

definition builtin_registry :: "string \<Rightarrow> registry" where
  "builtin_registry override =
     foldl Register initial_registry [fluxion_handler, gang_handler, quantum_handler override]"

section \<open>Dispatch\<close>

fun run_handlers :: "handler list \<Rightarrow> mutator \<Rightarrow> pod \<Rightarrow> (string + op list \<times> pod) \<times> mutator" where
  "run_handlers [] m p = (Inr ([], p), m)"
| "run_handlers (h # hs) m p =
     (if \<not> hd_applies h m p then run_handlers hs m p
      else case (case hd_admit h of None \<Rightarrow> None | Some admit \<Rightarrow> admit m p) of
             Some err \<Rightarrow> (Inl err, m)
           | None \<Rightarrow>
               (case hd_mutate h m p of ((os, p'), m') \<Rightarrow>
                  case run_handlers hs m' p' of
                    (Inl err, m'') \<Rightarrow> (Inl err, m'')
                  | (Inr (os', p''), m'') \<Rightarrow> (Inr (os @ os', p''), m'')))"

definition MutateOrDeny :: "registry \<Rightarrow> mutator \<Rightarrow> pod \<Rightarrow> (string + op list \<times> pod) \<times> mutator" where
  "MutateOrDeny rg m p =
     (if p_scheduler p \<noteq> SchedulerName then (Inr ([], p), m) else run_handlers (registered rg) m p)"

definition Mutate :: "registry \<Rightarrow> mutator \<Rightarrow> pod \<Rightarrow> op list \<times> mutator" where
  "Mutate rg m p =
     (case MutateOrDeny rg m p of (Inl _, m') \<Rightarrow> ([], m') | (Inr (os, _), m') \<Rightarrow> (os, m'))"

section \<open>The HTTP entry point\<close>

record review_request =
  rr_uid :: string
  rr_object :: string

record admission_status =
  st_status :: string
  st_reason :: string
  st_code :: int
  st_message :: string

record admission_response =
  ar_uid :: string
  ar_allowed :: bool
  ar_result :: "admission_status option"
  ar_patch :: "string option"

datatype http_reply = BadRequest string | Reviewed admission_response

text \<open>
  The body is what reading the request gave (the error text on the left), \<open>decode_review\<close> gives
  the request of a review (None when it does not parse or has none), \<open>decode_pod\<close> the pod of the
  raw object, and \<open>marshal\<close> the encoded patch.
\<close>

definition Handler ::
    "(string \<Rightarrow> review_request option) \<Rightarrow> (string \<Rightarrow> pod option) \<Rightarrow> (op list \<Rightarrow> string option)
     \<Rightarrow> registry \<Rightarrow> mutator \<Rightarrow> (string + string) \<Rightarrow> http_reply \<times> mutator" where
  "Handler decode_review decode_pod marshal rg m body =
     (case body of
        Inl err \<Rightarrow> (BadRequest err, m)
      | Inr text \<Rightarrow>
          (case decode_review text of
             None \<Rightarrow> (BadRequest ''bad admission review'', m)
           | Some req \<Rightarrow>
               let resp = \<lparr>ar_uid = rr_uid req, ar_allowed = True, ar_result = None, ar_patch = None\<rparr>
               in case decode_pod (rr_object req) of
                    None \<Rightarrow> (Reviewed resp, m)
                  | Some p \<Rightarrow>
                      (case MutateOrDeny rg m p of
                         (Inl err, m') \<Rightarrow>
                           (Reviewed (resp\<lparr>ar_allowed := False,
                              ar_result := Some \<lparr>st_status = ''Failure'', st_reason = ''Forbidden'', st_code = 403,
                                st_message = err\<rparr>\<rparr>), m')
                       | (Inr (os, _), m') \<Rightarrow>
                           (Reviewed (if os = [] then resp else resp\<lparr>ar_patch := marshal os\<rparr>), m'))))"

end
