(* ===== verification/Webhook_Dispatch.thy ===== *)
theory Webhook_Dispatch
  imports Webhook
begin

text \<open>
  What the dispatcher promises for handlers that meet their contract (\<open>mutation\<close>), and hence for
  every list of the built-in handlers: the whole patch applies, gangs are never lost or resized,
  and a refusal leaves the cluster alone.
\<close>

section \<open>The contract of the dispatcher\<close>

definition kept :: "mutator \<Rightarrow> pod \<Rightarrow> (string + op list \<times> pod) \<times> mutator \<Rightarrow> bool" where
  "kept m p r \<longleftrightarrow> extends m (snd r) \<and>
     (case fst r of Inl _ \<Rightarrow> True | Inr r' \<Rightarrow> sound_result p r' \<and> same_identity p (snd r'))"

locale dispatcher =
  fixes hs :: "handler list"
  assumes handlers: "h \<in> set hs \<Longrightarrow> mutation (hd_mutate h)"
begin

lemma run_kept: "set gs \<subseteq> set hs \<Longrightarrow> kept m p (run_handlers gs m p)"
proof (induction gs arbitrary: m p)
  case (Cons h gs)
  then have "mutation (hd_mutate h)" by (simp add: handlers)
  note law = mutation.mutate_sound [OF this] mutation.mutate_identity [OF this]
    mutation.mutate_extends [OF this]
  show ?case
  proof (cases "hd_applies h m p \<and> (case hd_admit h of None \<Rightarrow> None | Some admit \<Rightarrow> admit m p) = None")
    case False
    with Cons show ?thesis by (auto simp: kept_def split: option.splits)
  next
    case True
    obtain os p' m' where h: "hd_mutate h m p = ((os, p'), m')" by (metis prod.collapse)
    with law(1,2) [of p m] law(3) [of m p] have step: "sound_result p (os, p')" "same_identity p p'" "extends m m'"
      by simp_all
    obtain r m'' where rest: "run_handlers gs m' p' = (r, m'')" by fastforce
    with Cons have "kept m' p' (r, m'')" by (metis set_subset_Cons subset_trans)
    with step True h rest show ?thesis
      by (cases r) (auto simp: kept_def intro: extends_trans sound_append same_identity_trans)
  qed
qed (simp add: kept_def)

lemma run_applies:
  "fst (run_handlers hs m p) = Inr (os, p') \<Longrightarrow> \<exists>q. apply_ops os p = Some q \<and> ahead q p'"
  using run_kept [OF subset_refl, of m p] by (auto simp: kept_def sound_result_applies)

lemma run_extends: "extends m (snd (run_handlers hs m p))"
  using run_kept [OF subset_refl, of m p] by (simp add: kept_def)

end

section \<open>The built-in handlers\<close>

text \<open>Whatever list of names is configured, the handlers that run are built-in ones.\<close>

definition configured :: "string \<Rightarrow> string list \<Rightarrow> registry" where
  "configured override names = fst (SetActiveHandlers (builtin_registry override) names)"

lemma builtin_available:
  "map_of (rg_available (builtin_registry ov)) n =
     (if n = ''quantum'' then Some (quantum_handler ov)
      else if n = ''gang'' then Some gang_handler
      else if n = ''fluxion'' then Some fluxion_handler else None)"
  by (simp add: builtin_registry_def Register_def initial_registry_def fluxion_handler_def
      gang_handler_def quantum_handler_def)

lemma configured_available [simp]: "rg_available (configured ov names) = rg_available (builtin_registry ov)"
  by (simp add: configured_def SetActiveHandlers_def Let_def)

lemma registered_builtin:
  "h \<in> set (registered (configured ov names)) \<Longrightarrow> h \<in> {fluxion_handler, gang_handler, quantum_handler ov}"
  by (auto simp: registered_def map_filter_def builtin_available split: if_splits)

lemma builtin_mutation:
  "h \<in> {fluxion_handler, gang_handler, quantum_handler ov} \<Longrightarrow> mutation (hd_mutate h)"
  by (auto simp: fluxion_handler_def gang_handler_def quantum_handler_def
      fluxion.mutation_axioms gang.mutation_axioms quantum.mutation_axioms)

interpretation builtin: dispatcher "registered (configured ov names)" for ov names
  by (rule dispatcher.intro) (rule builtin_mutation [OF registered_builtin])

lemma dispatched_applies:
  "fst (MutateOrDeny (configured ov names) m p) = Inr (os, p') \<Longrightarrow> \<exists>q. apply_ops os p = Some q"
  using builtin.run_applies [of ov names m p os p'] by (auto simp: MutateOrDeny_def split: if_splits)

text \<open>
  For every configured list of handlers, every state of the cluster and every pod, the
  operations of all handlers together apply to the submitted pod, although each handler only
  sees the pod as the handlers before it updated it in place; a pod of another scheduler is not
  touched.
\<close>
lemma dispatch_patch_applies:
  "(case fst (MutateOrDeny (configured ov names) m p) of
      Inl _ \<Rightarrow> fst (Mutate (configured ov names) m p) = []
    | Inr (os, _) \<Rightarrow> fst (Mutate (configured ov names) m p) = os \<and> (\<exists>q. apply_ops os p = Some q) \<and>
        (if p_scheduler p \<noteq> SchedulerName
         then os = [] \<and> snd (MutateOrDeny (configured ov names) m p) = m else True))"
proof (cases "MutateOrDeny (configured ov names) m p")
  case (Pair r m')
  show ?thesis
  proof (cases r)
    case (Inr a)
    with Pair dispatched_applies [of ov names m p "fst a" "snd a"] show ?thesis
      by (auto simp: MutateOrDeny_def Mutate_def split: if_splits)
  qed (simp add: Pair Mutate_def)
qed

text \<open>
  C27: whatever handlers are configured and whatever the webhook answers, it never removes a
  PodGroup and never changes the gang size of one that exists: the PodGroups, in their order and
  with their sizes, are those there were followed by new ones, and the cluster's pods, nodes, jobs
  and replica sets are as they were. Mutate has the same effect as MutateOrDeny.
\<close>
theorem webhook_only_adds:
  "extends m (snd (MutateOrDeny (configured ov names) m p)) \<and>
   snd (Mutate (configured ov names) m p) = snd (MutateOrDeny (configured ov names) m p)"
  using builtin.run_extends [of m ov names p]
  by (simp add: MutateOrDeny_def Mutate_def split: prod.split sum.split)

section \<open>The default order\<close>

lemma default_handlers:
  "registered (configured ov []) = [fluxion_handler, quantum_handler ov, gang_handler]"
  by (simp add: registered_def configured_def SetActiveHandlers_def DefaultHandlerOrder_def
      builtin_available)

text \<open>
  Before the quantum handler only the environment of containers has changed, which neither its
  trigger nor its admission reads.
\<close>

definition re_env :: "pod \<Rightarrow> pod \<Rightarrow> bool" where
  "re_env p p' \<longleftrightarrow> (\<exists>cs. p' = p\<lparr>p_containers := cs\<rparr> \<and> asks p' = asks p \<and>
     map c_limits cs = map c_limits (p_containers p))"

lemma re_env_refl [simp]: "re_env p p"
  unfolding re_env_def by (rule exI [of _ "p_containers p"]) simp

lemma re_env_inject: "re_env p (snd (InjectEnvOps envs p))"
proof -
  let ?f = "\<lambda>c. if RequestsFluxionResource c then inject_envs c c envs else ([], c)"
  have "snd (each_container ?f p) = p\<lparr>p_containers := map (\<lambda>c. snd (?f c)) (p_containers p)\<rparr>"
    using each_container_containers [of ?f p] by (simp add: each_container_def split_beta)
  moreover have "map c_limits (map (\<lambda>c. snd (?f c)) (p_containers p)) = map c_limits (p_containers p)"
    by (simp add: inject_envs_env)
  moreover have "asks (p\<lparr>p_containers := map (\<lambda>c. snd (?f c)) (p_containers p)\<rparr>) = asks p"
    by (simp add: asks_def inject_envs_env)
  ultimately show ?thesis unfolding re_env_def InjectEnvOps_def
    by (intro exI [of _ "map (\<lambda>c. snd (?f c)) (p_containers p)"]) simp
qed

lemma requests_asks: "PodRequestsResource p r = list_ex (\<lambda>(_, rs). list_ex (\<lambda>(k, _). k = r) rs) (asks p)"
  by (simp add: PodRequestsResource_def asks_def list_ex_iff split_beta)

lemma PodCores_asks:
  assumes "asks p' = asks p"
  shows "PodCores p' = PodCores p"
proof -
  have "foldl (\<lambda>counts c. foldl count_request counts (c_requests c)) acc (p_containers q)
      = foldl (\<lambda>counts a. foldl count_request counts (snd a)) acc (asks q)" for acc q
    by (simp add: asks_def foldl_map)
  with assms show ?thesis by (simp add: PodCores_def podResources_def)
qed

lemma re_env_reads:
  assumes "re_env p p'"
  shows "quantum_applies m p' = quantum_applies m p" "quantum_admit m p' = quantum_admit m p"
    "shared_gang m p' = shared_gang m p" "isScout m p' g = isScout m p g"
    "resolveGroup p' = resolveGroup p" "p_namespace p' = p_namespace p" "GroupName p' = GroupName p"
    "p_gates p' = p_gates p" "asks p' = asks p" "length (p_containers p') = length (p_containers p)"
proof -
  from assms obtain cs where p': "p' = p\<lparr>p_containers := cs\<rparr>" and asks: "asks p' = asks p"
    by (auto simp: re_env_def)
  have parts: "p_annotations p' = p_annotations p" "p_labels p' = p_labels p" "p_owners p' = p_owners p"
    "p_namespace p' = p_namespace p" "p_name p' = p_name p"
    by (simp_all add: p')
  have label: "Annotation p' = Annotation p" "Label p' = Label p" "pod_annotations p' = pod_annotations p"
    by (simp_all add: fun_eq_iff Annotation_def Label_def pod_annotations_def parts)
  have group: "GroupName p' = GroupName p" "resolveGroup p' = resolveGroup p"
    by (simp_all add: GroupName_def resolveGroup_def label parts)
  have size: "resolveGangSize m p' = resolveGangSize m p"
    unfolding fun_eq_iff resolveGangSize_def group_size_def ownerJobN_def ownerReplicaSetN_def parts by simp
  have same: "shared_gang m p' = shared_gang m p"
    by (simp add: shared_gang_def coordinationMode_def label group size)
  note same = same label group size
  then show "shared_gang m p' = shared_gang m p" "resolveGroup p' = resolveGroup p"
    "GroupName p' = GroupName p" by simp_all
  show "quantum_applies m p' = quantum_applies m p"
    by (simp add: quantum_applies_def requests_asks asks)
  show "quantum_admit m p' = quantum_admit m p"
    using same PodCores_asks [OF asks] by (simp add: quantum_admit_def Let_def p')
  show "isScout m p' g = isScout m p g"
    unfolding isScout_def label parts by simp
  show "p_namespace p' = p_namespace p" "p_gates p' = p_gates p"
    by (simp_all add: p')
  show "asks p' = asks p" by (rule asks)
  show "length (p_containers p') = length (p_containers p)" using asks_length [OF asks] .
qed

text \<open>What the fluxion handler does first.\<close>

definition fluxion_step :: "mutator \<Rightarrow> pod \<Rightarrow> op list \<times> pod" where
  "fluxion_step m p = (if fluxion_applies m p then InjectEnvOps (InjectedEnv m) p else ([], p))"

lemma fluxion_step_exact:
  "apply_ops (fst (fluxion_step m p)) p = Some (snd (fluxion_step m p))" "re_env p (snd (fluxion_step m p))"
  using InjectEnvOps_applies [of "InjectedEnv m" p] by (simp_all add: fluxion_step_def re_env_inject)

lemma default_run:
  assumes "p_scheduler p = SchedulerName"
  shows "MutateOrDeny (configured ov []) m p =
    (let r = fluxion_step m p; p1 = snd r
     in if \<not> quantum_applies m p then
          (if gang_applies m p1 then
             (Inr (fst r @ fst (fst (gang_mutate m p1)), p1), snd (gang_mutate m p1))
           else (Inr r, m))
        else case quantum_admit m p of
          Some err \<Rightarrow> (Inl err, m)
        | None \<Rightarrow>
            (let rq = quantum_mutate ov m p1; p2 = snd (fst rq); m2 = snd rq
             in if gang_applies m2 p2 then
                  (Inr (fst r @ fst (fst rq) @ fst (fst (gang_mutate m2 p2)), p2), snd (gang_mutate m2 p2))
                else (Inr (fst r @ fst (fst rq), p2), m2)))"
proof -
  obtain os1 p1 where f: "fluxion_step m p = (os1, p1)" by fastforce
  then have "re_env p p1" using fluxion_step_exact(2) [of p m] by simp
  note reads = re_env_reads [OF this]
  have first: "run_handlers (fluxion_handler # hs) m p =
      (case run_handlers hs m p1 of (Inl err, m') \<Rightarrow> (Inl err, m')
         | (Inr (os, p'), m') \<Rightarrow> (Inr (os1 @ os, p'), m'))" for hs
    using f by (auto simp: fluxion_handler_def fluxion_step_def fluxion_mutate_def
        split: if_splits prod.splits sum.splits)
  have gang: "run_handlers [gang_handler] m' p' =
      (if gang_applies m' p' then (Inr (fst (gang_mutate m' p')), snd (gang_mutate m' p')) else (Inr ([], p'), m'))"
    for m' p'
    by (simp add: gang_handler_def split: prod.split)
  have kept: "snd (fst (gang_mutate m' p')) = p'" for m' p' by (simp add: gang_mutate_def)
  have quantum: "run_handlers [quantum_handler ov, gang_handler] m p1 =
      (if \<not> quantum_applies m p1 then run_handlers [gang_handler] m p1
       else case quantum_admit m p1 of Some err \<Rightarrow> (Inl err, m)
        | None \<Rightarrow>
            (case quantum_mutate ov m p1 of ((os, p'), m') \<Rightarrow>
               case run_handlers [gang_handler] m' p' of (Inl err, m'') \<Rightarrow> (Inl err, m'')
                 | (Inr (os', p''), m'') \<Rightarrow> (Inr (os @ os', p''), m'')))"
    by (cases "quantum_admit m p1") (simp_all add: quantum_handler_def)
  note run = MutateOrDeny_def default_handlers first quantum gang f Let_def kept
  show ?thesis
  proof (cases "quantum_applies m p \<and> quantum_admit m p = None")
    case True
    obtain os2 p2 m2 where q: "quantum_mutate ov m p1 = ((os2, p2), m2)" by (metis prod.collapse)
    obtain os3 p3 where g: "fst (gang_mutate m2 p2) = (os3, p3)" by fastforce
    with kept [of m2 p2] have "p3 = p2" by simp
    with True q g assms show ?thesis
      by (simp add: run reads del: run_handlers.simps)
  next
    case False
    obtain os3 p3 where g: "fst (gang_mutate m p1) = (os3, p3)" by fastforce
    with kept [of m p1] have "p3 = p1" by simp
    with False g assms show ?thesis
      by (cases "quantum_applies m p"; cases "quantum_admit m p")
        (simp_all add: run reads del: run_handlers.simps)
  qed
qed

end
