(* ===== verification/Webhook_Roles.thy ===== *)
theory Webhook_Roles
  imports Webhook_Dispatch
begin

text \<open>
  The webhook end to end: who is refused, what the members of a coordinated gang become, which
  handlers a configuration runs, and what the API server is answered.
\<close>

section \<open>Refusals\<close>

text \<open>
  C25: with the default handlers a pod is refused exactly when it is Fluence's, asks for the
  quantum device and the quantum handler does not admit the pod as submitted; the message is that
  handler's, and the refusal leaves the cluster as it was.
\<close>
theorem default_refusal:
  "MutateOrDeny (configured ov []) m p = (Inl err, m') \<longleftrightarrow>
     p_scheduler p = SchedulerName \<and> PodRequestsResource p QuantumResource \<and>
     quantum_admit m p = Some err \<and> m' = m"
proof (cases "p_scheduler p = SchedulerName")
  case True
  then show ?thesis
    by (auto simp: default_run quantum_applies_def Let_def split: option.splits if_splits)
qed (simp add: MutateOrDeny_def)

section \<open>The members of a coordinated gang\<close>

lemma apply_then:
  "apply_ops os p = Some p1 \<Longrightarrow> apply_ops os' p1 = Some q \<Longrightarrow> apply_ops (os @ os') p = Some q"
  by (simp add: apply_ops_append)

text \<open>The gang handler after the quantum one only links a pod to the group of its label.\<close>

lemma gang_after:
  assumes "GroupName p2 = [] \<or> GroupName p2 = g" "linked_to q g" "gang_applies m p2"
  shows "\<exists>sg. apply_ops (fst (fst (gang_mutate m' p2))) q = Some (q\<lparr>p_group := sg\<rparr>) \<and>
    linked_to (q\<lparr>p_group := sg\<rparr>) g"
proof -
  have g: "GroupName p2 = g" using assms by (auto simp: gang_applies_def)
  show ?thesis
  proof (cases "linked_to p2 g")
    case True
    with assms g show ?thesis
      by (intro exI [of _ "p_group q"]) (simp add: gang_mutate_def schedulingGroupOps_def)
  next
    case False
    with g have "fst (fst (gang_mutate m' p2)) = [AddSchedulingGroup g]"
      by (simp add: gang_mutate_def schedulingGroupOps_def)
    then show ?thesis
      by (intro exI [of _ "Some \<lparr>sg_name = Some g\<rparr>"]) (simp add: linked_to_def)
  qed
qed

lemma quantum_identity: "GroupName (snd (fst (quantum_mutate ov m p))) = GroupName p"
  using quantum.mutate_identity [of p ov m] by (simp add: same_identity_def GroupName_def Label_def)

lemma resolveGroup_label: "GroupName p = [] \<or> GroupName p = resolveGroup p"
  by (simp add: resolveGroup_def)

lemma read_group_update:
  "GroupName (q\<lparr>p_group := sg\<rparr>) = GroupName q" "Annotation (q\<lparr>p_group := sg\<rparr>) = Annotation q"
  "DependencyOf (q\<lparr>p_group := sg\<rparr>) = DependencyOf q"
proof -
  show ann: "Annotation (q\<lparr>p_group := sg\<rparr>) = Annotation q" by (simp add: Annotation_def fun_eq_iff)
  show "GroupName (q\<lparr>p_group := sg\<rparr>) = GroupName q" by (simp add: GroupName_def Label_def)
  show "DependencyOf (q\<lparr>p_group := sg\<rparr>) = DependencyOf q" unfolding DependencyOf_def ann ..
qed

lemma worker_of_group:
  "worker_of p q \<Longrightarrow> linked_to (q\<lparr>p_group := sg\<rparr>) (resolveGroup p) \<Longrightarrow> worker_of p (q\<lparr>p_group := sg\<rparr>)"
  by (simp add: worker_of_def read_group_update)

text \<open>An admitted quantum pod under the default handlers.\<close>

lemma quantum_run:
  assumes "p_scheduler p = SchedulerName" "PodRequestsResource p QuantumResource" "quantum_admit m p = None"
  shows "MutateOrDeny (configured ov []) m p =
     (let r = fluxion_step m p; rq = quantum_mutate ov m (snd r); p2 = snd (fst rq)
      in if gang_applies (snd rq) p2
         then (Inr (fst r @ fst (fst rq) @ fst (fst (gang_mutate (snd rq) p2)), p2), snd (gang_mutate (snd rq) p2))
         else (Inr (fst r @ fst (fst rq), p2), snd rq))"
  using assms by (simp add: default_run Let_def quantum_applies_def)

lemma worker_admitted:
  assumes "p_scheduler p = SchedulerName" "PodRequestsResource p QuantumResource"
    "quantum_admit m p = None" "shared_gang m p" "\<not> isScout m p (resolveGroup p)"
  shows "\<exists>os p' m' q. MutateOrDeny (configured ov []) m p = (Inr (os, p'), m') \<and>
    apply_ops os p = Some q \<and> worker_of p q"
proof -
  let ?p1 = "snd (fluxion_step m p)" let ?rq = "quantum_mutate ov m ?p1" let ?p2 = "snd (fst ?rq)"
  note reads = re_env_reads [OF fluxion_step_exact(2) [where p = p and m = m]]
  have "shared_gang m ?p1" "\<not> isScout m ?p1 (resolveGroup ?p1)"
    using assms(4,5) by (simp_all add: reads)
  from worker_shape [OF this, of ov] obtain q where
    q: "apply_ops (fst (fst ?rq)) ?p1 = Some q" and "worker_of ?p1 q" by blast
  then have w: "worker_of p q" by (simp add: worker_of_def reads)
  note patched = apply_then [OF fluxion_step_exact(1) q]
  have group: "GroupName ?p2 = [] \<or> GroupName ?p2 = resolveGroup p"
    using resolveGroup_label [of p] by (simp add: quantum_identity reads)
  show ?thesis
  proof (cases "gang_applies (snd ?rq) ?p2")
    case True
    from w have "linked_to q (resolveGroup p)" by (simp add: worker_of_def)
    from gang_after [OF group this True] obtain sg where
      sg: "apply_ops (fst (fst (gang_mutate (snd ?rq) ?p2))) q = Some (q\<lparr>p_group := sg\<rparr>)"
        "linked_to (q\<lparr>p_group := sg\<rparr>) (resolveGroup p)"
      by blast
    with True w apply_then [OF patched sg(1)] show ?thesis
      using worker_of_group [OF w sg(2)] by (auto simp: quantum_run [OF assms(1-3)] Let_def)
  qed (use patched w in \<open>auto simp: quantum_run [OF assms(1-3)] Let_def\<close>)
qed

text \<open>
  C5: a member of a coordinated gang that is not its scout and is admitted leaves the webhook
  with a patch that makes it a worker, whatever the other handlers do before and after: in the
  gang's group, gated until the scout has submitted, with a dependency on the scout that reads
  back, and with no container, a sidecar apart, that still asks for the quantum device.
\<close>
theorem worker_pod:
  assumes "p_scheduler p = SchedulerName" "PodRequestsResource p QuantumResource"
    "quantum_admit m p = None" "shared_gang m p" "\<not> isScout m p (resolveGroup p)"
  shows "\<exists>os p' m' q. MutateOrDeny (configured ov []) m p = (Inr (os, p'), m') \<and>
    apply_ops os p = Some q \<and> worker_of p q"
  using assms by (rule worker_admitted)

theorem worker_pod_witness:
  "\<exists>os p' m' q. MutateOrDeny (configured [] []) empty_cluster pair_worker = (Inr (os, p'), m') \<and>
     apply_ops os pair_worker = Some q \<and> worker_of pair_worker q"
proof (rule worker_pod)
  show "p_scheduler pair_worker = SchedulerName" "PodRequestsResource pair_worker QuantumResource"
    "quantum_admit empty_cluster pair_worker = None"
    by code_simp+
  show "shared_gang empty_cluster pair_worker" "\<not> isScout empty_cluster pair_worker (resolveGroup pair_worker)"
    using pair_facts by simp_all
qed

lemma scout_admitted:
  assumes "p_scheduler p = SchedulerName" "PodRequestsResource p QuantumResource"
    "quantum_admit m p = None" "shared_gang m p" "isScout m p (resolveGroup p)"
  shows "\<exists>os p' m' q. MutateOrDeny (configured ov []) m p = (Inr (os, p'), m') \<and>
    apply_ops os p = Some q \<and> scout_of p q"
proof -
  let ?p1 = "snd (fluxion_step m p)" let ?rq = "quantum_mutate ov m ?p1" let ?p2 = "snd (fst ?rq)"
  note reads = re_env_reads [OF fluxion_step_exact(2) [where p = p and m = m]]
  have "p_containers p \<noteq> []" using assms(2) by (auto simp: PodRequestsResource_def)
  then have shared: "shared_gang m ?p1" "isScout m ?p1 (resolveGroup ?p1)" "p_containers ?p1 \<noteq> []"
    using assms(4,5) reads(10) by (simp_all add: reads flip: length_greater_0_conv)
  from scout_shape [OF this, of ov] obtain q where
    q: "apply_ops (fst (fst ?rq)) ?p1 = Some q" and "scout_of ?p1 q" by blast
  then have "scout_of p q" by (simp add: scout_of_def reads asks_def [symmetric])
  moreover note apply_then [OF fluxion_step_exact(1) q]
  moreover have "\<not> gang_applies (snd ?rq) ?p2"
    using assms(2) quantum_scout_asks [OF shared(1,2), of ov] reads(9)
    by (simp add: gang_applies_def requests_asks)
  ultimately show ?thesis by (auto simp: quantum_run [OF assms(1-3)] Let_def)
qed

text \<open>
  C20: the scout of a coordinated gang that is admitted leaves the webhook with a patch that
  makes it a pod of its own group, not gated, whose containers still ask for what they asked
  for, the quantum device included, followed by the sidecar that knows which gang to ungate.
\<close>
theorem scout_pod:
  assumes "p_scheduler p = SchedulerName" "PodRequestsResource p QuantumResource"
    "quantum_admit m p = None" "shared_gang m p" "isScout m p (resolveGroup p)"
  shows "\<exists>os p' m' q. MutateOrDeny (configured ov []) m p = (Inr (os, p'), m') \<and>
    apply_ops os p = Some q \<and> scout_of p q"
  using assms by (rule scout_admitted)

theorem scout_pod_witness:
  "\<exists>os p' m' q. MutateOrDeny (configured [] []) empty_cluster pair_scout = (Inr (os, p'), m') \<and>
     apply_ops os pair_scout = Some q \<and> scout_of pair_scout q"
proof (rule scout_pod)
  show "p_scheduler pair_scout = SchedulerName" "PodRequestsResource pair_scout QuantumResource"
    "quantum_admit empty_cluster pair_scout = None"
    by code_simp+
  show "shared_gang empty_cluster pair_scout" "isScout empty_cluster pair_scout (resolveGroup pair_scout)"
    using pair_facts by simp_all
qed

section \<open>The groups of a gang\<close>

lemma gangs_Ensure:
  assumes "mu_client m = Some s" "\<not> ks_down s ''get podgroups''" "\<not> ks_down s ''create podgroups''"
  obtains s' where "mu_client (EnsurePodGroup m ns g n) = Some s'" "ks_down s' = ks_down s"
    "gangs s' = gangs s @ (if absent m ns g then [(ns, g, if n \<le> 0 then 1 else n)] else [])"
proof (cases "get_group s ns g")
  case None
  then have "\<not> list_ex (is_group ns g) (ks_groups s)"
    using assms(2) by (auto simp: get_group_def find_None_iff list_ex_iff)
  with None assms that show ?thesis
    by (simp add: EnsurePodGroup_def Let_def absent_def create_group_def gangs_def)
next
  case (Some pg)
  with assms that show ?thesis by (simp add: EnsurePodGroup_def Let_def absent_def)
qed

lemma gangs_Record:
  assumes "mu_client m = Some s"
  obtains s' where "mu_client (RecordAdmission m ns g n) = Some s'" "ks_down s' = ks_down s"
    "gangs s' = gangs s"
proof -
  have "\<exists>s'. mu_client (RecordAdmission m ns g n) = Some s' \<and> ks_down s' = ks_down s \<and> gangs s' = gangs s"
    using assms by (simp add: RecordAdmission_def gangs_patch patch_down split: option.split)
  with that show ?thesis by blast
qed

lemma gangs_RBAC:
  assumes "mu_client m = Some s"
  obtains s' where "mu_client (ensureSidecarRBAC m ns) = Some s'" "ks_down s' = ks_down s"
    "gangs s' = gangs s"
  using assms that by (simp add: ensureSidecarRBAC_def ensure_object_rest)

lemma absent_gangs:
  "mu_client m = Some s \<Longrightarrow> \<not> ks_down s ''get podgroups'' \<Longrightarrow>
     absent m ns g \<longleftrightarrow> (\<forall>n. (ns, g, n) \<notin> set (gangs s))"
  by (simp add: absent_def get_group_None)

text \<open>
  C26: while the API answers, the first admitted pod of a coordinated gang of n whose groups do
  not exist yet provisions them: a PodGroup of the gang with the n - 1 workers as its gang size
  and, when the pod is the scout, the scout's own PodGroup of one; nothing else is created.
\<close>
theorem gang_provisioned:
  assumes "shared_gang m p" "mu_client m = Some s"
    "\<not> ks_down s ''get podgroups''" "\<not> ks_down s ''create podgroups''"
    and fresh: "absent m (p_namespace p) (resolveGroup p)"
      "absent m (p_namespace p) (resolveGroup p @ ScoutGroupSuffix)"
  shows "\<exists>s'. mu_client (snd (quantum_mutate ov m p)) = Some s' \<and>
    gangs s' = gangs s
      @ [(p_namespace p, resolveGroup p, max 1 (i32 (resolveGangSize m p (resolveGroup p) - 1)))]
      @ (if isScout m p (resolveGroup p) then [(p_namespace p, resolveGroup p @ ScoutGroupSuffix, 1)] else [])"
proof -
  let ?ns = "p_namespace p" let ?g = "resolveGroup p" let ?n = "i32 (resolveGangSize m p ?g - 1)"
  let ?size = "if ?n \<le> 0 then 1 else ?n"
  obtain s1 where s1: "mu_client (EnsurePodGroup m ?ns ?g ?n) = Some s1" "ks_down s1 = ks_down s"
    "gangs s1 = gangs s @ [(?ns, ?g, ?size)]"
    using gangs_Ensure [OF assms(2-4), where ns = ?ns and g = ?g and n = ?n] fresh(1) by auto
  obtain s2 where "mu_client (RecordAdmission (EnsurePodGroup m ?ns ?g ?n) ?ns ?g (i64 (PodCores p
      * resolveGangSize m p ?g))) = Some s2" "ks_down s2 = ks_down s1" "gangs s2 = gangs s1"
    using gangs_Record [OF s1(1)] .
  then have s2: "mu_client (pair_store m p) = Some s2" "ks_down s2 = ks_down s"
    "gangs s2 = gangs s @ [(?ns, ?g, ?size)]"
    using s1 by (simp_all add: pair_store_def Let_def)
  have size: "?size = max 1 ?n" by (simp add: max_def)
  show ?thesis
  proof (cases "isScout m p ?g")
    case True
    have "absent (pair_store m p) ?ns (?g @ ScoutGroupSuffix)"
      using fresh(2) by (simp add: pair_store_def Let_def absent_Record absent_Ensure)
    then obtain s3 where s3: "mu_client (EnsurePodGroup (pair_store m p) ?ns (?g @ ScoutGroupSuffix) 1) = Some s3"
      "gangs s3 = gangs s2 @ [(?ns, ?g @ ScoutGroupSuffix, 1)]"
      using gangs_Ensure [OF s2(1), where ns = ?ns and g = "?g @ ScoutGroupSuffix" and n = 1] assms(3,4) s2(2)
      by auto
    obtain s4 where "mu_client (ensureSidecarRBAC (EnsurePodGroup (pair_store m p) ?ns
        (?g @ ScoutGroupSuffix) 1) ?ns) = Some s4" "gangs s4 = gangs s3"
      using gangs_RBAC [OF s3(1)] .
    with True s2 s3 size show ?thesis by (simp add: quantum_roles(1) [OF assms(1)] Let_def)
  next
    case False
    have "\<not> absent (pair_store m p) ?ns ?g"
      using s2 assms(3) by (auto simp: absent_gangs)
    then obtain s3 where "mu_client (EnsurePodGroup (pair_store m p) ?ns ?g ?n) = Some s3" "gangs s3 = gangs s2"
      using gangs_Ensure [OF s2(1), where ns = ?ns and g = ?g and n = ?n] assms(3,4) s2(2) by auto
    with False s2 size show ?thesis by (simp add: quantum_roles(2) [OF assms(1)])
  qed
qed

theorem gang_provisioned_witness:
  "\<exists>s'. mu_client (snd (quantum_mutate [] empty_cluster pair_scout)) = Some s' \<and>
     gangs s' = [(''ns'', ''vqe'', 2), (''ns'', ''vqe-scout'', 1)]"
proof -
  have size: "resolveGangSize empty_cluster pair_scout ''vqe'' = 3" "i32 (3 - 1) = 2" by code_simp+
  have "absent empty_cluster ns g" for ns g
    by (simp add: absent_def mutator_with_def store_with_def get_group_def)
  then have "\<exists>s'. mu_client (snd (quantum_mutate [] empty_cluster pair_scout)) = Some s' \<and>
      gangs s' = gangs (store_with [] []) @ [(''ns'', ''vqe'', max 1 (i32 (3 - 1)))] @ [(''ns'', ''vqe'' @ ScoutGroupSuffix, 1)]"
    using gang_provisioned [of empty_cluster pair_scout "store_with [] []" "[]"] pair_facts size
    by (simp add: mutator_with_def store_with_def)
  moreover have "gangs (store_with [] []) = []" by (simp add: gangs_def store_with_def)
  moreover have "max 1 (i32 (3 - 1)) = 2" by (simp only: size)
  ultimately show ?thesis by (simp only: append_Nil append.simps ScoutGroupSuffix_def)
qed

section \<open>Which handlers run\<close>

text \<open>
  The handlers that run are the configured names the package knows, in the configured
  order and as often as they are named, or the default ones for an empty list; the other names
  are reported.
\<close>
lemma configured_handlers:
  "map hd_name (registered (configured ov names)) =
     (if names = [] then [''fluxion'', ''quantum'', ''gang'']
      else filter (\<lambda>n. n \<in> {''fluxion'', ''quantum'', ''gang''}) names) \<and>
   ActiveHandlerNames (configured ov names) = map hd_name (registered (configured ov names)) \<and>
   snd (snd (SetActiveHandlers (builtin_registry ov) names)) =
     filter (\<lambda>n. n \<notin> {''fluxion'', ''quantum'', ''gang''}) names"
proof -
  have known: "map_of (rg_available (builtin_registry ov)) n \<noteq> None \<longleftrightarrow>
      n \<in> {''fluxion'', ''quantum'', ''gang''}" for n
    by (simp add: builtin_available)
  have names_of: "map hd_name (List.map_filter (map_of (rg_available (builtin_registry ov))) ns) =
      filter (\<lambda>n. n \<in> {''fluxion'', ''quantum'', ''gang''}) ns" for ns
    by (induction ns)
      (auto simp: builtin_available fluxion_handler_def gang_handler_def quantum_handler_def)
  have order: "rg_order (configured ov names) =
      (if names = [] then [''fluxion'', ''quantum'', ''gang'']
       else filter (\<lambda>n. n \<in> {''fluxion'', ''quantum'', ''gang''}) names)"
    by (simp add: configured_def SetActiveHandlers_def DefaultHandlerOrder_def Let_def known [simplified])
  have "snd (snd (SetActiveHandlers (builtin_registry ov) names)) =
      filter (\<lambda>n. n \<notin> {''fluxion'', ''quantum'', ''gang''}) names"
  proof (cases "names = []")
    case False
    then have "snd (snd (SetActiveHandlers (builtin_registry ov) names)) =
        filter (\<lambda>n. map_of (rg_available (builtin_registry ov)) n = None) names"
      by (simp add: SetActiveHandlers_def Let_def)
    also have "\<dots> = filter (\<lambda>n. n \<notin> {''fluxion'', ''quantum'', ''gang''}) names"
      by (rule filter_cong [OF refl]) (use known in blast)
    finally show ?thesis .
  qed (simp add: SetActiveHandlers_def)
  then show ?thesis
    by (simp add: ActiveHandlerNames_def registered_def order names_of)
qed

text \<open>A pod on its own that asks for the quantum device.\<close>

definition lone_member :: pod where
  "lone_member = blank_pod\<lparr>p_name := ''p'', p_namespace := ''ns'', p_scheduler := SchedulerName,
     p_containers := [blank_container\<lparr>c_name := ''main'',
       c_requests := [(''cpu'', units 2), (QuantumResource, units 1)]\<rparr>]\<rparr>"

text \<open>
  Naming the quantum handler twice in the configuration runs it twice, and its second run
  refuses the pod its first run stamped: a pod that is admitted under the one list is denied
  under the other, with the reproach that it carries an annotation only the webhook sets.
\<close>
lemma repeated_handler_refuses:
  "\<not> is_err (fst (MutateOrDeny (configured [] [''quantum'']) empty_cluster lone_member)) \<and>
   is_err (fst (MutateOrDeny (configured [] [''quantum'', ''quantum'']) empty_cluster lone_member)) \<and>
   p_annotations lone_member = None"
  by code_simp

section \<open>What the API server is answered\<close>

text \<open>
  The answer to a request. A request that cannot be read as a review is a bad request and
  changes nothing. Any other is answered under its own identity: an object that is not a pod is
  allowed unchanged, a pod the dispatcher refuses is denied with the refusal as a forbidden
  status and no patch, and any other pod is allowed with operations that apply to it, sent as
  the patch when there are any.
\<close>
lemma Handler_answers:
  "case Handler decode_review decode_pod marshal (configured ov names) m body of
     (BadRequest _, m') \<Rightarrow> m' = m
   | (Reviewed r, m') \<Rightarrow> \<exists>t req. body = Inr t \<and> decode_review t = Some req \<and> ar_uid r = rr_uid req \<and>
       (case decode_pod (rr_object req) of
          None \<Rightarrow> m' = m \<and> ar_allowed r \<and> ar_result r = None \<and> ar_patch r = None
        | Some p \<Rightarrow>
            (case fst (MutateOrDeny (configured ov names) m p) of
               Inl e \<Rightarrow> \<not> ar_allowed r \<and> ar_patch r = None \<and>
                 ar_result r = Some \<lparr>st_status = ''Failure'', st_reason = ''Forbidden'', st_code = 403, st_message = e\<rparr>
             | Inr (os, _) \<Rightarrow> ar_allowed r \<and> ar_result r = None \<and> (\<exists>q. apply_ops os p = Some q) \<and>
                 ar_patch r = (if os = [] then None else marshal os)))"
proof (cases "\<exists>t req p. body = Inr t \<and> decode_review t = Some req \<and> decode_pod (rr_object req) = Some p")
  case True
  then obtain t req p where
    "body = Inr t" "decode_review t = Some req" "decode_pod (rr_object req) = Some p" by blast
  moreover obtain r m' where "MutateOrDeny (configured ov names) m p = (r, m')" by fastforce
  ultimately show ?thesis
    using dispatched_applies [of ov names m p] by (cases r) (auto simp: Handler_def Let_def)
next
  case False
  then show ?thesis
    by (auto simp: Handler_def Let_def split: sum.split option.split)
qed

end
