(* ===== verification/Commands.thy ===== *)
theory Commands
  imports Device_Served Webhook_Roles
begin

text \<open>
  The commands under \<open>cmd\<close>: how the webhook is configured from its flag and environment
  (\<open>cmd/webhook/main.go\<close>), and the restart-recovery probe (\<open>cmd/recovery-probe/main.go\<close>). The
  device plugin's command is in \<open>Device_Plugin\<close>; \<open>cmd/fluence\<close> only registers the plugin.
\<close>

section \<open>The webhook server\<close>

definition env :: "(string \<Rightarrow> string) \<Rightarrow> string \<Rightarrow> string \<Rightarrow> string" where
  "env getenv key def = (if getenv key \<noteq> [] then getenv key else def)"

definition parse_handlers :: "string \<Rightarrow> string list" where
  "parse_handlers flag =
     (if flag = [] then [] else filter (\<lambda>n. n \<noteq> []) (map trim_space (split_on (CHR '','') flag)))"

datatype webhook_error =
    Setup string
  | BadResources string config_error
  | BadReserve string

definition attribute_keys ::
    "(string \<Rightarrow> string + resources_config) \<Rightarrow> (string \<Rightarrow> string + string option) \<Rightarrow> string
     \<Rightarrow> webhook_error + string list" where
  "attribute_keys unmarshal read_file path =
     (if path = [] then Inr []
      else case read_file path of
             Inr (Some data) \<Rightarrow>
               (case LoadResourcesConfig unmarshal data of
                  Inl e \<Rightarrow> Inl (BadResources path e)
                | Inr rc \<Rightarrow> Inr (AttributeKeys (rc_resources rc)))
           | _ \<Rightarrow> Inr [])"

text \<open>
  \<open>main\<close> up to serving: \<open>flag\<close> is the value of \<open>--handlers\<close> when it is given, \<open>platform\<close> what
  the certificates, the client and the patch of the CA bundle came to. The result is the fatal
  error, or the registry, the unknown names it warned about and the mutator.
\<close>

definition webhook_main ::
    "(string \<Rightarrow> string + resources_config) \<Rightarrow> (string \<Rightarrow> string + string option) \<Rightarrow> (string \<Rightarrow> string)
     \<Rightarrow> string option \<Rightarrow> string + kube_store \<Rightarrow> webhook_error + registry \<times> string list \<times> mutator" where
  "webhook_main unmarshal read_file getenv flag platform =
     (let handlers = (case flag of None \<Rightarrow> env getenv ''FLUENCE_HANDLERS'' [] | Some v \<Rightarrow> v)
      in case SetActiveHandlers (builtin_registry (getenv ''FLUENCE_SIDECAR_IMAGE'')) (parse_handlers handlers) of
           (rg, active, unknown) \<Rightarrow>
             (case platform of
                Inl e \<Rightarrow> Inl (Setup e)
              | Inr client \<Rightarrow>
                  (case attribute_keys unmarshal read_file (getenv ''FLUENCE_RESOURCES'') of
                     Inl e \<Rightarrow> Inl e
                   | Inr keys \<Rightarrow>
                       (case atoi (env getenv ''FLUENCE_RESERVE_CORES'' ''0'') of
                          None \<Rightarrow> Inl (BadReserve (getenv ''FLUENCE_RESERVE_CORES''))
                        | Some reserve \<Rightarrow>
                            if reserve < 0 then Inl (BadReserve (getenv ''FLUENCE_RESERVE_CORES''))
                            else Inr (rg, unknown,
                              \<lparr>mu_keys = keys, mu_client = Some client,
                               mu_control = (env getenv ''FLUENCE_ADMISSION'' ''on'' \<noteq> ''off''),
                               mu_reserve = reserve\<rparr>)))))"

definition EnvVarNames :: "mutator \<Rightarrow> string list" where
  "EnvVarNames m = map ev_name (InjectedEnv m)"

text \<open>The paths that are served: a review, the health check, and nothing else.\<close>

datatype http_answer = Mutated http_reply | Healthy | NotFound

definition mux ::
    "(string \<Rightarrow> review_request option) \<Rightarrow> (string \<Rightarrow> pod option) \<Rightarrow> (op list \<Rightarrow> string option)
     \<Rightarrow> registry \<Rightarrow> mutator \<Rightarrow> string \<Rightarrow> string + string \<Rightarrow> http_answer \<times> mutator" where
  "mux decode_review decode_pod marshal rg m path body =
     (if path = ''/mutate'' then
        (case Handler decode_review decode_pod marshal rg m body of (reply, m') \<Rightarrow> (Mutated reply, m'))
      else if path = ''/healthz'' then (Healthy, m)
      else (NotFound, m))"

section \<open>The recovery probe\<close>

datatype probe_outcome =
    Usage
  | NoMatch string
  | ReplayFailed string
  | ReplayHeld
  | Rematched uint64

definition exit_code :: "probe_outcome \<Rightarrow> int" where
  "exit_code r = (case r of Usage \<Rightarrow> 2 | NoMatch _ \<Rightarrow> 1 | ReplayFailed _ \<Rightarrow> 1 | _ \<Rightarrow> 0)"

text \<open>\<open>newGraph\<close>: a new wrapper with its own client, asking for the \<open>rv1\<close> format.\<close>

definition newGraph ::
    "'c \<Rightarrow> (string \<Rightarrow> string + string) \<Rightarrow> ('c \<Rightarrow> string \<Rightarrow> string \<Rightarrow> 'c \<times> string option)
     \<Rightarrow> (string \<Rightarrow> string) \<Rightarrow> string \<Rightarrow> 'c fluxion_graph" where
  "newGraph new_client read_file init_context getenv graphFile =
     Init new_client read_file init_context \<lparr>fg_cli = new_client, fg_format = ''rv1''\<rparr> graphFile
       (getenv ''FLUENCE_MATCH_POLICY'')"

definition probe ::
    "'c \<Rightarrow> (string \<Rightarrow> string + string) \<Rightarrow> ('c \<Rightarrow> string \<Rightarrow> string \<Rightarrow> 'c \<times> string option)
     \<Rightarrow> ('c \<Rightarrow> bool \<Rightarrow> string \<Rightarrow> 'c \<times> (string + reply))
     \<Rightarrow> ('c \<Rightarrow> int \<Rightarrow> string \<Rightarrow> 'c \<times> (string + int \<times> string))
     \<Rightarrow> (string \<Rightarrow> string) \<Rightarrow> string \<Rightarrow> string \<Rightarrow> probe_outcome" where
  "probe new_client read_file init_context cli_match cli_update getenv graphFile specFile =
     (if graphFile = [] \<or> specFile = [] then Usage
      else
        let pre = newGraph new_client read_file init_context getenv graphFile
        in case MatchAllocate read_file cli_match pre specFile of
             (_, Inl e) \<Rightarrow> NoMatch e
           | (_, Inr req) \<Rightarrow>
               let post = newGraph new_client read_file init_context getenv graphFile
               in case UpdateAllocate cli_update post (mr_number req) (mr_allocation req) of
                    (_, Some e) \<Rightarrow> ReplayFailed e
                  | (post, None) \<Rightarrow>
                      (case MatchAllocate read_file cli_match post specFile of
                         (_, Inl _) \<Rightarrow> ReplayHeld
                       | (_, Inr req2) \<Rightarrow> Rematched (mr_number req2)))"

section \<open>Configurations agree\<close>

text \<open>
  C32: the device plugin advertises what the scheduler knows. Started with the same
  environment, one that names a configuration, the plugin never fails where the scheduler
  starts, and it then advertises exactly the device types the scheduler was built to match,
  under the resource prefix.
\<close>
theorem advertised_is_known:
  assumes "getenv ''FLUENCE_RESOURCES'' \<noteq> []"
    and "New unmarshal read_file stage init getenv node_list = Inr f"
  shows "\<exists>names. plugin_main unmarshal read_file getenv = Inr (names, plugin_capacity getenv) \<and>
    fl_known f = Some (map (\<lambda>n. trim_prefix n FluxionResourcePrefix) names) \<and>
    (\<forall>n \<in> set names. has_prefix n FluxionResourcePrefix) \<and> 0 < plugin_capacity getenv"
proof -
  obtain nodes where nodes: "node_list = Inr nodes"
    using assms(2) by (cases node_list) (simp_all add: New_def)
  obtain resources known where load:
    "load_resources unmarshal read_file (getenv ''FLUENCE_RESOURCES'') = Inr (resources, known)"
    "fl_known f = Some known"
    using assms(2) by (auto simp: New_def nodes split: sum.splits)
  have cap: "0 < plugin_capacity getenv"
    by (simp add: plugin_capacity_def Let_def split: option.split)
  show ?thesis
  proof (cases "read_file (getenv ''FLUENCE_RESOURCES'')")
    case (Inr content)
    show ?thesis
    proof (cases content)
      case None
      with Inr load cap show ?thesis
        using assms(1) by (simp add: load_resources_def plugin_main_def config_path_def)
    next
      case (Some raw)
      with Inr load assms(1) obtain rc where rc: "LoadResourcesConfig unmarshal raw = Inr rc"
        "known = map (\<lambda>n. trim_prefix n FluxionResourcePrefix) (FluxionResourceNames (rc_resources rc))"
        by (auto simp: load_resources_def split: sum.splits)
      have "\<forall>n \<in> set (FluxionResourceNames (rc_resources rc)). has_prefix n FluxionResourcePrefix"
        by (auto simp: FluxionResourceNames_def)
      with Some Inr load rc cap show ?thesis
        using assms(1) by (simp add: plugin_main_def config_path_def)
    qed
  qed (use load assms(1) in \<open>simp add: load_resources_def\<close>)
qed

text \<open>The sample configuration, at one path; the environment names it or is empty.\<close>

definition sample_files :: "string \<Rightarrow> string \<Rightarrow> string + string option" where
  "sample_files there path = (if path = there then Inr (Some ''x'') else Inr None)"

definition named_env :: "string \<Rightarrow> string" where
  "named_env key = (if key = ''FLUENCE_RESOURCES'' then ''/r.yaml'' else [])"

definition sample_new :: "(string \<Rightarrow> string + string option) \<Rightarrow> (string \<Rightarrow> string) \<Rightarrow> new_error + string fluence" where
  "sample_new files getenv =
     New (\<lambda>_. Inr sample_config) files Inr (\<lambda>tmp policy. policy) getenv (Inr [])"

lemma New_starts_with:
  assumes "load_resources um files (getenv ''FLUENCE_RESOURCES'') = Inr (rs, known)"
    and "\<not> is_err (build_builder [] \<lparr>go_cluster = [], go_gpu = [], go_resources = rs, go_unschedulable = False\<rparr>)"
  obtains f where "New um files Inr init getenv (Inr []) = Inr f" "fl_known f = Some known"
proof (cases "build_builder [] \<lparr>go_cluster = [], go_gpu = [], go_resources = rs, go_unschedulable = False\<rparr>")
  case (Inr b)
  with assms(1) that show ?thesis
    by (cases b) (simp add: New_def schedulableNodes_def BuildGraph_def builder_JSON_def)
qed (use assms in simp)

lemma sample_new_known:
  obtains f where "sample_new (sample_files ''/r.yaml'') named_env = Inr f" "fl_known f = Some [''qdevice'', ''qpu'']"
proof (rule New_starts_with)
  show "load_resources (\<lambda>_. Inr sample_config) (sample_files ''/r.yaml'') (named_env ''FLUENCE_RESOURCES'') =
      Inr (rc_resources sample_loaded, [''qdevice'', ''qpu''])"
    by code_simp
  show "\<not> is_err (build_builder [] \<lparr>go_cluster = [], go_gpu = [], go_resources = rc_resources sample_loaded,
      go_unschedulable = False\<rparr>)"
    by code_simp
qed (rule that, unfold sample_new_def)

theorem advertised_is_known_witness:
  "\<exists>f names. sample_new (sample_files ''/r.yaml'') named_env = Inr f \<and>
     plugin_main (\<lambda>_. Inr sample_config) (sample_files ''/r.yaml'') named_env = Inr (names, 1000) \<and>
     map (\<lambda>n. trim_prefix n FluxionResourcePrefix) names = [''qdevice'', ''qpu'']"
proof -
  obtain f where f: "sample_new (sample_files ''/r.yaml'') named_env = Inr f" "fl_known f = Some [''qdevice'', ''qpu'']"
    by (rule sample_new_known)
  have "named_env ''FLUENCE_RESOURCES'' \<noteq> []" "plugin_capacity named_env = 1000"
    by (simp_all add: named_env_def plugin_capacity_def)
  with advertised_is_known [OF _ f(1) [unfolded sample_new_def]] f show ?thesis by fastforce
qed

text \<open>
  Without the variable the two drift apart: the device plugin falls back to its default
  path and advertises what it finds there, while the scheduler, which has no default, models no
  device at all.
\<close>
lemma default_path_drifts:
  "\<exists>f names. sample_new (sample_files ''/etc/fluence/resources.yaml'') (\<lambda>_. []) = Inr f \<and> fl_known f = Some [] \<and>
     plugin_main (\<lambda>_. Inr sample_config) (sample_files ''/etc/fluence/resources.yaml'') (\<lambda>_. []) = Inr (names, 1000) \<and>
     names = [''fluxion.flux-framework.org/qdevice'', ''fluxion.flux-framework.org/qpu'']"
proof -
  have "load_resources (\<lambda>_. Inr sample_config) (sample_files ''/etc/fluence/resources.yaml'') [] = Inr ([], [])"
    "\<not> is_err (build_builder [] \<lparr>go_cluster = [], go_gpu = [], go_resources = [], go_unschedulable = False\<rparr>)"
    "plugin_main (\<lambda>_. Inr sample_config) (sample_files ''/etc/fluence/resources.yaml'') (\<lambda>_. []) =
       Inr ([''fluxion.flux-framework.org/qdevice'', ''fluxion.flux-framework.org/qpu''], 1000)"
    by code_simp+
  from New_starts_with [where getenv = "\<lambda>_. []", OF this(1,2)] this(3) show ?thesis
    unfolding sample_new_def by metis
qed

text \<open>
  The webhook starts exactly when its platform is set up, its configuration, if there is
  one, loads, and the reserve is a number that is not negative; it then runs the handlers its
  flag names and injects a variable for the backend and for each attribute key of the
  configuration, and controls admission unless that is switched off.
\<close>
lemma webhook_starts:
  "case webhook_main unmarshal read_file getenv flag platform of
     Inl (Setup e) \<Rightarrow> platform = Inl e
   | Inl (BadResources path e) \<Rightarrow> \<exists>raw. path = getenv ''FLUENCE_RESOURCES'' \<and>
       read_file path = Inr (Some raw) \<and> LoadResourcesConfig unmarshal raw = Inl e
   | Inl (BadReserve _) \<Rightarrow> (case atoi (env getenv ''FLUENCE_RESERVE_CORES'' ''0'') of None \<Rightarrow> True | Some n \<Rightarrow> n < 0)
   | Inr (rg, unknown, m) \<Rightarrow>
       rg = configured (getenv ''FLUENCE_SIDECAR_IMAGE'')
         (parse_handlers (case flag of None \<Rightarrow> env getenv ''FLUENCE_HANDLERS'' [] | Some v \<Rightarrow> v)) \<and>
       platform = Inr (the (mu_client m)) \<and> mu_client m \<noteq> None \<and> 0 \<le> mu_reserve m \<and>
       atoi (env getenv ''FLUENCE_RESERVE_CORES'' ''0'') = Some (mu_reserve m) \<and>
       attribute_keys unmarshal read_file (getenv ''FLUENCE_RESOURCES'') = Inr (mu_keys m) \<and>
       EnvVarNames m = ''FLUXION_BACKEND'' # map EnvVarName (mu_keys m) \<and>
       (mu_control m \<longleftrightarrow> getenv ''FLUENCE_ADMISSION'' \<noteq> ''off'')"
proof -
  have bad: "\<exists>raw. path = p \<and> read_file p = Inr (Some raw) \<and> LoadResourcesConfig unmarshal raw = Inl e"
    if "attribute_keys unmarshal read_file p = Inl (BadResources path e)" for p path e
    using that by (auto simp: attribute_keys_def split: if_splits sum.splits option.splits)
  have kinds: "\<exists>path e'. e = BadResources path e'" if "attribute_keys unmarshal read_file p = Inl e" for p e
    using that by (auto simp: attribute_keys_def split: if_splits sum.splits option.splits)
  have names: "EnvVarNames m = ''FLUXION_BACKEND'' # map EnvVarName (mu_keys m)" for m
    by (simp add: EnvVarNames_def InjectedEnv_def AnnotationEnv_def FieldEnv_def comp_def EnvVarPrefix_def)
  obtain rg active unknown where set: "SetActiveHandlers (builtin_registry (getenv ''FLUENCE_SIDECAR_IMAGE''))
      (parse_handlers (case flag of None \<Rightarrow> env getenv ''FLUENCE_HANDLERS'' [] | Some v \<Rightarrow> v)) = (rg, active, unknown)"
    by (metis prod.collapse)
  then have rg: "configured (getenv ''FLUENCE_SIDECAR_IMAGE'')
      (parse_handlers (case flag of None \<Rightarrow> env getenv ''FLUENCE_HANDLERS'' [] | Some v \<Rightarrow> v)) = rg"
    by (simp add: configured_def)
  have switch: "env getenv ''FLUENCE_ADMISSION'' ''on'' \<noteq> ''off'' \<longleftrightarrow> getenv ''FLUENCE_ADMISSION'' \<noteq> ''off''"
    by (simp add: env_def)
  note main = webhook_main_def Let_def set names switch
  show ?thesis
  proof (cases platform)
    case (Inr client)
    show ?thesis
    proof (cases "attribute_keys unmarshal read_file (getenv ''FLUENCE_RESOURCES'')")
      case (Inl e)
      then obtain path e' where "e = BadResources path e'" using kinds by blast
      with Inl Inr bad [of "getenv ''FLUENCE_RESOURCES''" path e'] show ?thesis by (simp add: main)
    next
      case (Inr keys)
      with \<open>platform = Inr client\<close> rg show ?thesis
        by (cases "atoi (env getenv ''FLUENCE_RESERVE_CORES'' ''0'')") (simp_all add: main)
    qed
  qed (simp add: main)
qed

end
