(* ===== verification/Webhook_Tls.thy ===== *)
theory Webhook_Tls
  imports Commands
begin

text \<open>
  The TLS of the webhook: \<open>GenerateCerts\<close> and \<open>EnsureCABundle\<close> of \<open>webhook.go\<close>, and the part of
  \<open>cmd/webhook/main.go\<close> that sets the certificates, the client and the CA bundle up. Base64 and
  PEM are the standard library's and are written out; keys and X.509 certificates are a
  parameter. What the API server reads back from the bundle is the authority that signed the
  certificate the webhook serves with.
\<close>

section \<open>Base64\<close>

definition b64_alphabet :: string where
  "b64_alphabet = ''ABCDEFGHIJKLMNOPQRSTUVWXYZabcdefghijklmnopqrstuvwxyz0123456789+/''"

definition b64_digit :: "nat \<Rightarrow> char" where
  "b64_digit n = b64_alphabet ! n"

text \<open>\<open>base64.StdEncoding\<close>: three bytes are four digits, a shorter rest is padded.\<close>

fun b64_encode :: "string \<Rightarrow> string" where
  "b64_encode [] = []"
| "b64_encode [a] =
     (let x = of_char a :: nat
      in [b64_digit (x div 4), b64_digit (x mod 4 * 16), CHR ''='', CHR ''=''])"
| "b64_encode [a, b] =
     (let x = of_char a :: nat; y = of_char b
      in [b64_digit (x div 4), b64_digit (x mod 4 * 16 + y div 16), b64_digit (y mod 16 * 4), CHR ''=''])"
| "b64_encode (a # b # c # s) =
     (let x = of_char a :: nat; y = of_char b; z = of_char c
      in b64_digit (x div 4) # b64_digit (x mod 4 * 16 + y div 16) # b64_digit (y mod 16 * 4 + z div 64)
         # b64_digit (z mod 64) # b64_encode s)"

definition b64_value :: "char \<Rightarrow> nat option" where
  "b64_value c = (if c \<in> set b64_alphabet then Some (length (takeWhile (\<lambda>d. d \<noteq> c) b64_alphabet)) else None)"

text \<open>A group of four digits: padding is only allowed in the last one.\<close>

fun b64_group :: "char \<Rightarrow> char \<Rightarrow> char \<Rightarrow> char \<Rightarrow> string option" where
  "b64_group a b c d =
     (case (b64_value a, b64_value b) of
        (Some p, Some q) \<Rightarrow>
          (case (b64_value c, b64_value d) of
             (Some r, Some t) \<Rightarrow> Some [char_of (p * 4 + q div 16), char_of (q mod 16 * 16 + r div 4), char_of (r mod 4 * 64 + t)]
           | (Some r, None) \<Rightarrow> if d = CHR ''='' then Some [char_of (p * 4 + q div 16), char_of (q mod 16 * 16 + r div 4)] else None
           | (None, _) \<Rightarrow> if c = CHR ''='' \<and> d = CHR ''='' then Some [char_of (p * 4 + q div 16)] else None)
      | _ \<Rightarrow> None)"

fun b64_decode :: "string \<Rightarrow> string option" where
  "b64_decode [] = Some []"
| "b64_decode (a # b # c # d # s) =
     (case b64_group a b c d of
        None \<Rightarrow> None
      | Some bs \<Rightarrow>
          if length bs < 3 then (if s = [] then Some bs else None)
          else map_option (append bs) (b64_decode s))"
| "b64_decode _ = None"

lemma b64_value_digit: "n < 64 \<Longrightarrow> b64_value (b64_digit n) = Some n"
proof -
  have "list_all (\<lambda>n. b64_value (b64_digit n) = Some n) [0 ..< 64]" by code_simp
  moreover assume "n < 64"
  ultimately show ?thesis by (simp add: list_all_iff)
qed

lemma b64_value_pad [simp]: "b64_value (CHR ''='') = None"
  by code_simp

lemma byte_bound: "(of_char c :: nat) < 256"
  by simp

text \<open>The digits of three bytes, and the bytes they stand for.\<close>

lemma b64_parts:
  fixes x :: nat
  assumes "x < 256"
  shows "x div 4 < 64" "x div 16 < 16" "x div 64 < 4"
  using assms by (simp_all add: less_mult_imp_div_less)

lemma b64_digits:
  fixes x y z :: nat
  assumes "x < 256" "y < 256" "z < 256"
  shows "x div 4 < 64" "x mod 4 * 16 + y div 16 < 64" "y mod 16 * 4 + z div 64 < 64" "z mod 64 < 64"
    "x mod 4 * 16 < 64" "y mod 16 * 4 < 64"
proof -
  have "x mod 4 < 4" "y mod 16 < 16" by simp_all
  with b64_parts [OF assms(1)] b64_parts [OF assms(2)] b64_parts [OF assms(3)]
  show "x div 4 < 64" "x mod 4 * 16 + y div 16 < 64" "y mod 16 * 4 + z div 64 < 64" "z mod 64 < 64"
    "x mod 4 * 16 < 64" "y mod 16 * 4 < 64"
    by (linarith | simp)+
qed

lemma b64_bytes:
  fixes x y z :: nat
  assumes "y < 256" "z < 256"
  shows "x div 4 * 4 + (x mod 4 * 16 + y div 16) div 16 = x"
    "(x mod 4 * 16 + y div 16) mod 16 * 16 + (y mod 16 * 4 + z div 64) div 4 = y"
    "(y mod 16 * 4 + z div 64) mod 4 * 64 + z mod 64 = z"
    "x div 4 * 4 + (x mod 4 * 16) div 16 = x"
    "(x mod 4 * 16 + y div 16) mod 16 * 16 + (y mod 16 * 4) div 4 = y"
proof -
  note parts = b64_parts [OF assms(1)] b64_parts [OF assms(2)]
  have "(x mod 4 * 16 + y div 16) div 16 = x mod 4" "(y mod 16 * 4 + z div 64) div 4 = y mod 16"
    "(x mod 4 * 16 + y div 16) mod 16 = y div 16" "(y mod 16 * 4 + z div 64) mod 4 = z div 64"
    using parts by (simp_all add: div_add1_eq mod_add_eq [symmetric])
  then show "x div 4 * 4 + (x mod 4 * 16 + y div 16) div 16 = x"
    "(x mod 4 * 16 + y div 16) mod 16 * 16 + (y mod 16 * 4 + z div 64) div 4 = y"
    "(y mod 16 * 4 + z div 64) mod 4 * 64 + z mod 64 = z"
    "x div 4 * 4 + (x mod 4 * 16) div 16 = x"
    "(x mod 4 * 16 + y div 16) mod 16 * 16 + (y mod 16 * 4) div 4 = y"
    by simp_all
qed

lemma b64_group_digits:
  fixes x y z :: nat
  assumes "x < 256" "y < 256" "z < 256"
  shows "b64_group (b64_digit (x div 4)) (b64_digit (x mod 4 * 16 + y div 16))
      (b64_digit (y mod 16 * 4 + z div 64)) (b64_digit (z mod 64)) = Some [char_of x, char_of y, char_of z]"
    "b64_group (b64_digit (x div 4)) (b64_digit (x mod 4 * 16 + y div 16)) (b64_digit (y mod 16 * 4)) (CHR ''='') =
      Some [char_of x, char_of y]"
    "b64_group (b64_digit (x div 4)) (b64_digit (x mod 4 * 16)) (CHR ''='') (CHR ''='') = Some [char_of x]"
  by (simp_all only: b64_bytes [OF assms(2,3)] b64_group.simps b64_value_digit [OF b64_digits(1) [OF assms]] b64_value_digit [OF b64_digits(2) [OF assms]]
      b64_value_digit [OF b64_digits(3) [OF assms]] b64_value_digit [OF b64_digits(4) [OF assms]]
      b64_value_digit [OF b64_digits(5) [OF assms]] b64_value_digit [OF b64_digits(6) [OF assms]] b64_value_pad
      prod.case option.case if_True simp_thms)

lemma b64_roundtrip: "b64_decode (b64_encode s) = Some s"
  by (induction s rule: b64_encode.induct)
    (simp_all add: Let_def b64_group_digits [OF byte_bound byte_bound byte_bound] del: b64_group.simps)

text \<open>What base64 writes are digits of the alphabet and padding.\<close>

definition b64_char :: "char \<Rightarrow> bool" where
  "b64_char c \<longleftrightarrow> c \<in> set b64_alphabet \<or> c = CHR ''=''"

lemma b64_char_digit: "n < 64 \<Longrightarrow> b64_char (b64_digit n)"
  using b64_value_digit [of n] by (auto simp: b64_char_def b64_value_def split: if_splits)

lemma b64_encode_chars: "list_all b64_char (b64_encode s)"
proof (induction s rule: b64_encode.induct)
  case (2 a)
  then show ?case
    using b64_digits [OF byte_bound [of a] byte_bound [of a] byte_bound [of a]]
    by (simp add: Let_def b64_char_digit) (simp add: b64_char_def)
next
  case (3 a b)
  then show ?case
    using b64_digits [OF byte_bound [of a] byte_bound [of b] byte_bound [of b]]
    by (simp add: Let_def b64_char_digit) (simp add: b64_char_def)
next
  case (4 a b c s)
  then show ?case
    using b64_digits [OF byte_bound [of a] byte_bound [of b] byte_bound [of c]]
    by (simp add: Let_def b64_char_digit)
qed simp

lemma b64_char_plain:
  assumes "b64_char c"
  shows "43 \<le> (of_char c :: nat)" "(of_char c :: nat) < 123" "(of_char c :: nat) \<notin> {45, 60, 62, 92}"
  using assms by (auto simp: b64_char_def b64_alphabet_def)

lemma b64_charD:
  assumes "b64_char c"
  shows "c \<noteq> newline" "c \<noteq> CHR ''-''" "escape_bytes (of_char c # bs) = c # escape_bytes bs"
proof -
  show "c \<noteq> newline" "c \<noteq> CHR ''-''" using b64_char_plain [OF assms] by (auto simp: newline_def)
  show "escape_bytes (of_char c # bs) = c # escape_bytes bs"
    using b64_char_plain [OF assms] by (simp add: decode_rune_def escape_rune_def)
qed

text \<open>So \<open>%q\<close> of it is its JSON string.\<close>

lemma json_string_b64: "list_all b64_char s \<Longrightarrow> json_string s = quoted s"
proof -
  assume "list_all b64_char s"
  then have "escape_bytes (map of_char s) = s"
    by (induction s) (simp_all add: b64_charD(3) del: escape_bytes.simps(2))
  then show ?thesis by (simp add: json_string_def quoted_def dquote_def)
qed

section \<open>PEM\<close>

function lines64 :: "string \<Rightarrow> string" where
  "lines64 s = (if s = [] then [] else take 64 s @ newline # lines64 (drop 64 s))"
  by auto

termination
  by (relation "measure length") auto

declare lines64.simps [simp del]

text \<open>\<open>pem.EncodeToMemory\<close> of a block without headers.\<close>

definition dashes :: string where
  "dashes = ''-----''"

definition pem_encode :: "string \<Rightarrow> string \<Rightarrow> string" where
  "pem_encode ty bytes =
     dashes @ ''BEGIN '' @ ty @ dashes @ newline # lines64 (b64_encode bytes)
     @ dashes @ ''END '' @ ty @ dashes @ [newline]"

text \<open>\<open>pem.Decode\<close> of such a text: the type and the bytes.\<close>

definition pem_decode :: "string \<Rightarrow> (string \<times> string) option" where
  "pem_decode s =
     (if \<not> has_prefix s (dashes @ ''BEGIN '') then None
      else
        let rest = trim_prefix s (dashes @ ''BEGIN '');
            ty = takeWhile (\<lambda>c. c \<noteq> CHR ''-'') rest;
            body = trim_prefix (dropWhile (\<lambda>c. c \<noteq> CHR ''-'') rest) (dashes @ [newline])
        in if dropWhile (\<lambda>c. c \<noteq> CHR ''-'') body \<noteq> dashes @ ''END '' @ ty @ dashes @ [newline] then None
           else map_option (Pair ty)
             (b64_decode (filter (\<lambda>c. c \<noteq> newline) (takeWhile (\<lambda>c. c \<noteq> CHR ''-'') body))))"

lemma lines64_filter: "newline \<notin> set s \<Longrightarrow> filter (\<lambda>c. c \<noteq> newline) (lines64 s) = s"
proof (induction s rule: lines64.induct)
  case (1 s)
  have "newline \<notin> set (take 64 s)" "newline \<notin> set (drop 64 s)"
    using 1(2) by (auto dest: in_set_takeD in_set_dropD)
  moreover from this(1) have "filter (\<lambda>c. c \<noteq> newline) (take 64 s) = take 64 s"
    by (auto simp: filter_id_conv)
  ultimately show ?case using 1(1) by (subst lines64.simps) simp
qed

lemma lines64_set: "set (lines64 s) \<subseteq> insert newline (set s)"
proof (induction s rule: lines64.induct)
  case (1 s)
  then show ?case by (subst lines64.simps) (auto dest: in_set_takeD in_set_dropD)
qed

lemma pem_roundtrip:
  assumes "CHR ''-'' \<notin> set ty"
  shows "pem_decode (pem_encode ty bytes) = Some (ty, bytes)"
proof -
  let ?b = "b64_encode bytes" and ?ne = "\<lambda>c. c \<noteq> CHR ''-''"
  have plain: "newline \<notin> set ?b" "CHR ''-'' \<notin> set (lines64 ?b)"
    using b64_encode_chars [of bytes] lines64_set [of ?b] b64_charD(1,2)
    by (auto simp: list_all_iff newline_def)
  have split: "takeWhile ?ne (xs @ CHR ''-'' # ys) = xs \<and> dropWhile ?ne (xs @ CHR ''-'' # ys) = CHR ''-'' # ys"
    if "CHR ''-'' \<notin> set xs" for xs ys
    using that by (induction xs) auto
  let ?tail = "dashes @ ''END '' @ ty @ dashes @ [newline]"
  have rest: "trim_prefix (pem_encode ty bytes) (dashes @ ''BEGIN '') = ty @ dashes @ newline # lines64 ?b @ ?tail"
    "has_prefix (pem_encode ty bytes) (dashes @ ''BEGIN '')"
    using trim_prefix_append [of "dashes @ ''BEGIN ''"] by (simp_all add: pem_encode_def has_prefix_def)
  have cut: "takeWhile ?ne (ty @ dashes @ zs) = ty" "dropWhile ?ne (ty @ dashes @ zs) = dashes @ zs"
    "takeWhile ?ne (lines64 ?b @ dashes @ zs) = lines64 ?b"
    "dropWhile ?ne (lines64 ?b @ dashes @ zs) = dashes @ zs" for zs
    using split [OF assms, of "''----'' @ zs"] split [OF plain(2), of "''----'' @ zs"] by (simp_all add: dashes_def)
  have body: "trim_prefix (dashes @ newline # lines64 ?b @ ?tail) (dashes @ [newline]) = lines64 ?b @ ?tail"
    using trim_prefix_append [of "dashes @ [newline]" "lines64 ?b @ ?tail"] by simp
  show ?thesis
    by (simp only: pem_decode_def rest not_True_eq_False if_False Let_def cut body lines64_filter [OF plain(1)]
        b64_roundtrip option.map simp_thms)
qed

section \<open>Certificates\<close>

datatype key_usage = CertSign | DigitalSignature | KeyEncipherment

datatype ext_usage = ServerAuth

text \<open>
  A certificate or, before it is signed, its template: Go has one type for both. The issuer and
  the public key are filled in by signing.
\<close>

record 'p x509_cert =
  xc_serial :: int
  xc_subject :: string
  xc_issuer :: string
  xc_from :: int
  xc_until :: int
  xc_ca :: bool
  xc_constraints :: bool
  xc_usage :: "key_usage list"
  xc_ext :: "ext_usage list"
  xc_dns :: "string list"
  xc_key :: "'p option"

text \<open>
  Keys, signing and the clock: the outcome of generating a key for the nth time, its public key
  and its PKCS#1 bytes, signing a template under a parent with a key, reading a certificate, the
  nth reading of the clock in seconds and the time ten years later.
\<close>

record ('k, 'p) pki =
  pk_generate :: "nat \<Rightarrow> string + 'k"
  pk_public :: "'k \<Rightarrow> 'p"
  pk_marshal :: "'k \<Rightarrow> string"
  pk_create :: "'p x509_cert \<Rightarrow> 'p x509_cert \<Rightarrow> 'p \<Rightarrow> 'k \<Rightarrow> string + string"
  pk_parse :: "string \<Rightarrow> string + 'p x509_cert"
  pk_now :: "nat \<Rightarrow> int"
  pk_ten_years :: "int \<Rightarrow> int"

definition ca_template :: "('k, 'p) pki \<Rightarrow> 'p x509_cert" where
  "ca_template pk =
     \<lparr>xc_serial = 1, xc_subject = ''fluence-webhook-ca'', xc_issuer = [],
      xc_from = pk_now pk 0 - 3600, xc_until = pk_ten_years pk (pk_now pk 1),
      xc_ca = True, xc_constraints = True, xc_usage = [CertSign, DigitalSignature], xc_ext = [],
      xc_dns = [], xc_key = None\<rparr>"

definition leaf_template :: "('k, 'p) pki \<Rightarrow> string \<Rightarrow> string list \<Rightarrow> 'p x509_cert" where
  "leaf_template pk subject dnsNames =
     \<lparr>xc_serial = 2, xc_subject = subject, xc_issuer = [],
      xc_from = pk_now pk 2 - 3600, xc_until = pk_ten_years pk (pk_now pk 3),
      xc_ca = False, xc_constraints = False, xc_usage = [DigitalSignature, KeyEncipherment],
      xc_ext = [ServerAuth], xc_dns = dnsNames, xc_key = None\<rparr>"

text \<open>\<open>GenerateCerts\<close>: the authority, the certificate and its key in PEM; without names it panics (None).\<close>

definition GenerateCerts ::
    "('k, 'p) pki \<Rightarrow> string list \<Rightarrow> (string + string \<times> string \<times> string) option" where
  "GenerateCerts pk dnsNames =
     (case pk_generate pk 0 of
        Inl e \<Rightarrow> Some (Inl e)
      | Inr caKey \<Rightarrow>
          (case pk_create pk (ca_template pk) (ca_template pk) (pk_public pk caKey) caKey of
             Inl e \<Rightarrow> Some (Inl e)
           | Inr caDER \<Rightarrow>
               (case pk_parse pk caDER of
                  Inl e \<Rightarrow> Some (Inl e)
                | Inr caCert \<Rightarrow>
                    (case pk_generate pk 1 of
                       Inl e \<Rightarrow> Some (Inl e)
                     | Inr leafKey \<Rightarrow>
                         (case dnsNames of
                            [] \<Rightarrow> None
                          | d # _ \<Rightarrow>
                              (case pk_create pk (leaf_template pk d dnsNames) caCert
                                      (pk_public pk leafKey) caKey of
                                 Inl e \<Rightarrow> Some (Inl e)
                               | Inr leafDER \<Rightarrow>
                                   Some (Inr (pem_encode ''CERTIFICATE'' caDER, pem_encode ''CERTIFICATE'' leafDER,
                                     pem_encode ''RSA PRIVATE KEY'' (pk_marshal pk leafKey)))))))))"

text \<open>\<open>EnsureCABundle\<close>: the patch of the webhook's configuration; \<open>patch\<close> gives its error.\<close>

definition ca_patch :: "string \<Rightarrow> string" where
  "ca_patch caPEM =
     ''[{\"op\":\"replace\",\"path\":\"/webhooks/0/clientConfig/caBundle\",\"value\":''
     @ quoted (b64_encode caPEM) @ ''}]''"

definition EnsureCABundle :: "(string \<Rightarrow> string \<Rightarrow> string option) \<Rightarrow> string \<Rightarrow> string \<Rightarrow> string option" where
  "EnsureCABundle patch configName caPEM = patch configName (ca_patch caPEM)"

text \<open>The patch written by hand is the JSON of one replacing operation.\<close>

definition bundle_patch :: "string \<Rightarrow> jval" where
  "bundle_patch v =
     JArr [JObj [(''op'', JStr ''replace''), (''path'', JStr ''/webhooks/0/clientConfig/caBundle''), (''value'', JStr v)]]"

lemma ca_patch_json: "ca_patch caPEM = json_compact (bundle_patch (b64_encode caPEM))"
proof -
  have texts: "json_string ''op'' = quoted ''op''" "json_string ''replace'' = quoted ''replace''"
    "json_string ''path'' = quoted ''path''" "json_string ''value'' = quoted ''value''"
    "json_string ''/webhooks/0/clientConfig/caBundle'' = quoted ''/webhooks/0/clientConfig/caBundle''"
    by (rule json_string_b64, simp add: b64_char_def b64_alphabet_def)+
  show ?thesis
    using json_string_b64 [OF b64_encode_chars]
    by (simp add: ca_patch_def bundle_patch_def texts quoted_def)
qed

text \<open>
  \<open>main\<close> from the names of the service to the patched bundle: the client and the certificate to
  serve with, or the fatal error.
\<close>

definition dns_names :: "(string \<Rightarrow> string) \<Rightarrow> string list" where
  "dns_names getenv =
     (let svc = env getenv ''WEBHOOK_SERVICE'' ''fluence-webhook'';
          ns = env getenv ''WEBHOOK_NAMESPACE'' ''kube-system''
      in [svc @ ''.'' @ ns @ ''.svc'', svc @ ''.'' @ ns @ ''.svc.cluster.local''])"

definition webhook_setup ::
    "('k, 'p) pki \<Rightarrow> (string \<Rightarrow> string \<Rightarrow> string + 't) \<Rightarrow> string + 'g \<Rightarrow> ('g \<Rightarrow> string + 'c)
     \<Rightarrow> ('c \<Rightarrow> string \<Rightarrow> string \<Rightarrow> string option) \<Rightarrow> (string \<Rightarrow> string) \<Rightarrow> (string + 'c \<times> 't) option" where
  "webhook_setup pk key_pair in_cluster new_client patch getenv =
     (let cfgName = env getenv ''WEBHOOK_CONFIG'' ''fluence-webhook''
      in case GenerateCerts pk (dns_names getenv) of
           None \<Rightarrow> None
         | Some (Inl e) \<Rightarrow> Some (Inl (''generate certs: '' @ e))
         | Some (Inr (caPEM, certPEM, keyPEM)) \<Rightarrow> Some
             (case key_pair certPEM keyPEM of
                Inl e \<Rightarrow> Inl (''load serving cert: '' @ e)
              | Inr cert \<Rightarrow>
                  (case in_cluster of
                     Inl e \<Rightarrow> Inl (''in-cluster config: '' @ e)
                   | Inr cfg \<Rightarrow>
                       (case new_client cfg of
                          Inl e \<Rightarrow> Inl (''client: '' @ e)
                        | Inr client \<Rightarrow>
                            (case EnsureCABundle (patch client) cfgName caPEM of
                               Some e \<Rightarrow> Inl (''patch caBundle on '' @ cfgName @ '': '' @ e)
                             | None \<Rightarrow> Inr (client, cert))))))"

text \<open>All of \<open>main\<close> up to serving: what it serves with.\<close>

definition webhook_process ::
    "(string \<Rightarrow> string + resources_config) \<Rightarrow> (string \<Rightarrow> string + string option) \<Rightarrow> ('k, 'p) pki
     \<Rightarrow> (string \<Rightarrow> string \<Rightarrow> string + 't) \<Rightarrow> string + 'g \<Rightarrow> ('g \<Rightarrow> string + kube_store)
     \<Rightarrow> (kube_store \<Rightarrow> string \<Rightarrow> string \<Rightarrow> string option) \<Rightarrow> (string \<Rightarrow> string) \<Rightarrow> string option
     \<Rightarrow> (webhook_error + (registry \<times> string list \<times> mutator) \<times> 't) option" where
  "webhook_process unmarshal read_file pk key_pair in_cluster new_client patch getenv flag =
     (case webhook_setup pk key_pair in_cluster new_client patch getenv of
        None \<Rightarrow> None
      | Some (Inl e) \<Rightarrow> Some (Inl (Setup e))
      | Some (Inr (client, cert)) \<Rightarrow> Some
          (case webhook_main unmarshal read_file getenv flag (Inr client) of
             Inl e \<Rightarrow> Inl e
           | Inr server \<Rightarrow> Inr (server, cert)))"

section \<open>Trust\<close>

text \<open>
  What \<open>crypto/x509\<close> documents: a certificate that was made can be read back as its template with
  the subject of its parent as issuer and the given public key, and verifies against a
  certificate of that issuer that may sign and has the public key of the signing key.
\<close>

definition reliable_pki :: "('k, 'p) pki \<Rightarrow> ('p x509_cert \<Rightarrow> 'p x509_cert \<Rightarrow> bool) \<Rightarrow> bool" where
  "reliable_pki pk verifies \<longleftrightarrow>
     (\<forall>t parent pub k der. pk_create pk t parent pub k = Inr der \<longrightarrow>
        pk_parse pk der = Inr (t\<lparr>xc_issuer := xc_subject parent, xc_key := Some pub\<rparr>) \<and>
        (\<forall>c. xc_subject c = xc_subject parent \<and> xc_key c = Some (pk_public pk k) \<and> xc_ca c \<and>
             xc_constraints c \<and> CertSign \<in> set (xc_usage c) \<longrightarrow>
           verifies (t\<lparr>xc_issuer := xc_subject parent, xc_key := Some pub\<rparr>) c))"

lemma reliable_pkiD:
  assumes "reliable_pki pk verifies" "pk_create pk t parent pub k = Inr der"
  shows "pk_parse pk der = Inr (t\<lparr>xc_issuer := xc_subject parent, xc_key := Some pub\<rparr>)"
    "xc_subject c = xc_subject parent \<Longrightarrow> xc_key c = Some (pk_public pk k) \<Longrightarrow> xc_ca c \<Longrightarrow> xc_constraints c \<Longrightarrow>
     CertSign \<in> set (xc_usage c) \<Longrightarrow> verifies (t\<lparr>xc_issuer := xc_subject parent, xc_key := Some pub\<rparr>) c"
  using assms unfolding reliable_pki_def by blast+

text \<open>
  The value of the bundle is the PEM of an authority that verifies itself and the certificate
  served, which is made out to the names and whose key is the one served with.
\<close>

definition trusted ::
    "('k, 'p) pki \<Rightarrow> ('p x509_cert \<Rightarrow> 'p x509_cert \<Rightarrow> bool) \<Rightarrow> string list \<Rightarrow> string \<Rightarrow> string \<Rightarrow> string \<Rightarrow> bool" where
  "trusted pk verifies names bundle certPEM keyPEM \<longleftrightarrow>
     (\<exists>caPEM rootDER root leafDER leaf k.
        b64_decode bundle = Some caPEM \<and>
        pem_decode caPEM = Some (''CERTIFICATE'', rootDER) \<and> pk_parse pk rootDER = Inr root \<and>
        pem_decode certPEM = Some (''CERTIFICATE'', leafDER) \<and> pk_parse pk leafDER = Inr leaf \<and>
        pem_decode keyPEM = Some (''RSA PRIVATE KEY'', pk_marshal pk k) \<and>
        xc_ca root \<and> verifies root root \<and> verifies leaf root \<and> \<not> xc_ca leaf \<and>
        xc_dns leaf = names \<and> ServerAuth \<in> set (xc_ext leaf) \<and> xc_key leaf = Some (pk_public pk k))"

lemma GenerateCerts_trusted:
  assumes "reliable_pki pk verifies" "GenerateCerts pk names = Some (Inr (caPEM, certPEM, keyPEM))"
  shows "trusted pk verifies names (b64_encode caPEM) certPEM keyPEM"
proof -
  from assms(2) obtain caKey caDER caCert leafKey d leafDER where
    made: "pk_create pk (ca_template pk) (ca_template pk) (pk_public pk caKey) caKey = Inr caDER"
      "pk_parse pk caDER = Inr caCert"
      "pk_create pk (leaf_template pk d names) caCert (pk_public pk leafKey) caKey = Inr leafDER"
    and pems: "caPEM = pem_encode ''CERTIFICATE'' caDER" "certPEM = pem_encode ''CERTIFICATE'' leafDER"
      "keyPEM = pem_encode ''RSA PRIVATE KEY'' (pk_marshal pk leafKey)"
    by (auto simp: GenerateCerts_def split: sum.splits list.splits)
  note root = reliable_pkiD [OF assms(1) made(1)] and leaf = reliable_pkiD [OF assms(1) made(3)]
  have root_is: "caCert = (ca_template pk)\<lparr>xc_issuer := ''fluence-webhook-ca'', xc_key := Some (pk_public pk caKey)\<rparr>"
    using made(2) root(1) by (simp add: ca_template_def)
  then have verified: "verifies caCert caCert"
    "verifies ((leaf_template pk d names)\<lparr>xc_issuer := xc_subject caCert, xc_key := Some (pk_public pk leafKey)\<rparr>) caCert"
    using root(2) [of caCert] leaf(2) [of caCert] by (simp_all add: ca_template_def)
  have "xc_ca caCert" by (simp add: root_is ca_template_def)
  with verified made(2) leaf(1) show ?thesis
    unfolding trusted_def pems
    by (intro exI [of _ caPEM] exI [of _ caDER] exI [of _ caCert] exI [of _ leafDER]
        exI [of _ "(leaf_template pk d names)\<lparr>xc_issuer := xc_subject caCert, xc_key := Some (pk_public pk leafKey)\<rparr>"]
        exI [of _ leafKey])
      (simp add: pems b64_roundtrip pem_roundtrip leaf_template_def)
qed

lemma GenerateCerts_names: "GenerateCerts pk (dns_names getenv) \<noteq> None"
  by (simp add: GenerateCerts_def dns_names_def Let_def split: sum.split)

lemma webhook_starts_client:
  "webhook_main unmarshal read_file getenv flag (Inr client) = Inr (rg, unknown, m) \<Longrightarrow> mu_client m = Some client"
  by (auto simp: webhook_main_def Let_def split: prod.splits sum.splits option.splits if_splits)

text \<open>
  C30: the API server trusts the webhook that has started. \<open>main\<close> never panics over its
  certificates, and when it gets to serving, its configuration was patched with one replacing
  operation whose value, decoded from base64 and PEM, is an authority that verifies the
  certificate the webhook serves with, which is for the names of its service and matches its key.
\<close>
theorem started_webhook_trusted:
  assumes "reliable_pki pk verifies"
    and "webhook_process unmarshal read_file pk key_pair in_cluster new_client patch getenv flag = r"
  shows "case r of
      None \<Rightarrow> False
    | Some (Inl _) \<Rightarrow> True
    | Some (Inr ((rg, unknown, m), cert)) \<Rightarrow> \<exists>client bundle certPEM keyPEM.
        mu_client m = Some client \<and> key_pair certPEM keyPEM = Inr cert \<and>
        patch client (env getenv ''WEBHOOK_CONFIG'' ''fluence-webhook'') (json_compact (bundle_patch bundle)) = None \<and>
        trusted pk verifies (dns_names getenv) bundle certPEM keyPEM"
proof -
  have never: "r \<noteq> None"
    using assms(2) GenerateCerts_names [of pk getenv]
    by (auto simp: webhook_process_def webhook_setup_def Let_def split: option.splits sum.splits prod.splits)
  show ?thesis
  proof (cases r)
    case (Some res)
    show ?thesis
    proof (cases res)
      case (Inr server)
      obtain rg unknown m cert where server: "server = ((rg, unknown, m), cert)" by (metis prod.collapse)
      with Some Inr assms(2) obtain client where
        ready: "webhook_setup pk key_pair in_cluster new_client patch getenv = Some (Inr (client, cert))"
        and main: "webhook_main unmarshal read_file getenv flag (Inr client) = Inr (rg, unknown, m)"
        by (auto simp: webhook_process_def split: option.splits sum.splits)
      from main have "mu_client m = Some client"
        using webhook_starts_client by blast
      from ready obtain caPEM certPEM keyPEM where
        gen: "GenerateCerts pk (dns_names getenv) = Some (Inr (caPEM, certPEM, keyPEM))"
        and "key_pair certPEM keyPEM = Inr cert"
        and "patch client (env getenv ''WEBHOOK_CONFIG'' ''fluence-webhook'') (ca_patch caPEM) = None"
        by (auto simp: webhook_setup_def EnsureCABundle_def Let_def split: option.splits sum.splits prod.splits)
      with GenerateCerts_trusted [OF assms(1) gen] \<open>mu_client m = Some client\<close> show ?thesis
        by (auto simp: Some Inr server ca_patch_json)
    qed (use Some in simp)
  qed (use never in simp)
qed

text \<open>An authority with numbers as keys that signs exactly the two certificates of the webhook.\<close>

definition clock_pki :: "(nat, nat) pki" where
  "clock_pki = \<lparr>pk_generate = Inr, pk_public = (\<lambda>k. k + 10), pk_marshal = show_nat,
     pk_create = (\<lambda>_ _ _ _. Inl ''unsupported''), pk_parse = (\<lambda>_. Inl ''malformed''),
     pk_now = (\<lambda>n. 1000000 + int n), pk_ten_years = (\<lambda>t. t + 315576000)\<rparr>"

definition small_pki :: "(nat, nat) pki" where
  "small_pki =
     (let ca = ca_template clock_pki;
          leaf = leaf_template clock_pki (hd (dns_names (\<lambda>_. []))) (dns_names (\<lambda>_. []));
          made = (\<lambda>t parent pub k t' pub'. t = t' \<and> pub = pub' \<and> k = 0 \<and> xc_subject parent = xc_subject ca)
      in clock_pki\<lparr>
           pk_create := (\<lambda>t parent pub k.
             if made t parent pub k ca 10 then Inr ''C''
             else if made t parent pub k leaf 11 then Inr ''L'' else Inl ''unsupported''),
           pk_parse := (\<lambda>der.
             if der = ''C'' then Inr (ca\<lparr>xc_issuer := xc_subject ca, xc_key := Some 10\<rparr>)
             else if der = ''L'' then Inr (leaf\<lparr>xc_issuer := xc_subject ca, xc_key := Some 11\<rparr>)
             else Inl ''malformed'')\<rparr>)"

definition small_verifies :: "nat x509_cert \<Rightarrow> nat x509_cert \<Rightarrow> bool" where
  "small_verifies c p \<longleftrightarrow> xc_issuer c = xc_subject p \<and> xc_key p = Some 10"

lemma small_pki_reliable: "reliable_pki small_pki small_verifies"
  unfolding reliable_pki_def
  by (auto simp: small_pki_def clock_pki_def small_verifies_def Let_def split: if_splits)

lemma small_pki_certs: "\<exists>ca cert key. GenerateCerts small_pki (dns_names (\<lambda>_. [])) = Some (Inr (ca, cert, key))"
  by (simp add: GenerateCerts_def small_pki_def clock_pki_def dns_names_def ca_template_def leaf_template_def Let_def)

definition small_process ::
    "(webhook_error + (registry \<times> string list \<times> mutator) \<times> string \<times> string) option" where
  "small_process = webhook_process (\<lambda>_. Inl []) (\<lambda>_. Inr None) small_pki (\<lambda>c k. Inr (c, k)) (Inr ())
     (\<lambda>_. Inr (store_with [] [])) (\<lambda>_ _ _. None) (\<lambda>_. []) None"

theorem started_webhook_trusted_witness:
  "\<exists>server cert key bundle. small_process = Some (Inr (server, cert, key)) \<and>
     trusted small_pki small_verifies [''fluence-webhook.kube-system.svc'', ''fluence-webhook.kube-system.svc.cluster.local'']
       bundle cert key"
proof -
  have names: "dns_names (\<lambda>_. []) = [''fluence-webhook.kube-system.svc'', ''fluence-webhook.kube-system.svc.cluster.local'']"
    by (simp add: dns_names_def env_def Let_def)
  obtain ca cert key where "GenerateCerts small_pki (dns_names (\<lambda>_. [])) = Some (Inr (ca, cert, key))"
    using small_pki_certs by blast
  moreover have "atoi ''0'' = Some 0" by code_simp
  ultimately obtain server where process: "small_process = Some (Inr (server, cert, key))"
    by (cases "SetActiveHandlers (builtin_registry []) (parse_handlers [])")
      (simp add: small_process_def webhook_process_def webhook_setup_def EnsureCABundle_def webhook_main_def
        attribute_keys_def env_def Let_def)
  from started_webhook_trusted [OF small_pki_reliable this [unfolded small_process_def]] process
  show ?thesis by (cases server) (simp add: names, blast)
qed

end
