(* ===== verification/Webhook_Calls.thy ===== *)
theory Webhook_Calls
  imports Webhook_Dispatch
begin

text \<open>
  The webhook call by call. The API server sends it requests concurrently, and between two calls
  of one of them anything may happen to the cluster, so the functions of the webhook that read
  or write the cluster are modelled a second time as the calls they make, each continued by the
  reply. Run without interruption they are the functions of \<open>Handlers\<close> and \<open>Webhook\<close>; how they
  interleave is the subject of \<open>Webhook_Concurrent\<close>.
\<close>

section \<open>Programs that call the API\<close>

datatype api_request =
    AskGroup string string
  | MakeGroup pod_group
  | AnnotateGroup string string string string
  | AskJob string string
  | AskReplicaSet string string
  | AskNodes
  | AskPods
  | AskGroups
  | AskGroupPods string string
  | AskObject string string
  | MakeObject string string

datatype api_reply =
    Done
  | Group "pod_group option"
  | Job "job option"
  | Replicas "int option option"
  | Nodes "node list option"
  | Pods "pod list option"
  | Groups "pod_group list option"
  | Found bool

text \<open>The server's side of a call; the time a PodGroup is created at is the server's.\<close>

definition listed :: "kube_store \<Rightarrow> string \<Rightarrow> 'x list \<Rightarrow> 'x list option" where
  "listed s what xs = (if ks_down s what then None else Some xs)"

fun perform :: "api_request \<Rightarrow> kube_store \<Rightarrow> api_reply \<times> kube_store" where
  "perform (AskGroup ns g) s = (Group (get_group s ns g), s)"
| "perform (MakeGroup pg) s = (Done, create_group s (pg\<lparr>pg_created := ks_now s\<rparr>))"
| "perform (AnnotateGroup ns g k v) s = (Done, patch_group s ns g k v)"
| "perform (AskJob ns n) s = (Job (get_job s ns n), s)"
| "perform (AskReplicaSet ns n) s = (Replicas (get_replicaset s ns n), s)"
| "perform AskNodes s = (Nodes (listed s ''list nodes'' (ks_nodes s)), s)"
| "perform AskPods s = (Pods (listed s ''list pods'' (ks_pods s)), s)"
| "perform AskGroups s = (Groups (listed s ''list podgroups'' (ks_groups s)), s)"
| "perform (AskGroupPods ns g) s =
     (Pods (listed s ''list pods'' (filter (\<lambda>q. p_namespace q = ns \<and> GroupName q = g) (ks_pods s))), s)"
| "perform (AskObject kind ns) s = (Found ((kind, ns) \<in> set (ks_rbac s) \<and> \<not> ks_down s (''get '' @ kind)), s)"
| "perform (MakeObject kind ns) s = (Done, ensure_object kind ns s)"

text \<open>Reading a reply; one of another kind reads as a failure.\<close>

fun reply_group :: "api_reply \<Rightarrow> pod_group option" where
  "reply_group (Group r) = r" | "reply_group _ = None"

fun reply_job :: "api_reply \<Rightarrow> job option" where
  "reply_job (Job r) = r" | "reply_job _ = None"

fun reply_replicas :: "api_reply \<Rightarrow> int option option" where
  "reply_replicas (Replicas r) = r" | "reply_replicas _ = None"

fun reply_nodes :: "api_reply \<Rightarrow> node list option" where
  "reply_nodes (Nodes r) = r" | "reply_nodes _ = None"

fun reply_pods :: "api_reply \<Rightarrow> pod list option" where
  "reply_pods (Pods r) = r" | "reply_pods _ = None"

fun reply_groups :: "api_reply \<Rightarrow> pod_group list option" where
  "reply_groups (Groups r) = r" | "reply_groups _ = None"

fun reply_found :: "api_reply \<Rightarrow> bool" where
  "reply_found (Found b) = b" | "reply_found _ = False"

datatype 'a calls = Return 'a | Call api_request "api_reply \<Rightarrow> 'a calls"

primrec bind :: "'a calls \<Rightarrow> ('a \<Rightarrow> 'b calls) \<Rightarrow> 'b calls" where
  "bind (Return x) f = f x"
| "bind (Call q k) f = Call q (\<lambda>r. bind (k r) f)"

text \<open>Running to the end with nothing in between.\<close>

primrec run :: "'a calls \<Rightarrow> kube_store \<Rightarrow> 'a \<times> kube_store" where
  "run (Return x) s = (x, s)"
| "run (Call q k) s = run (k (fst (perform q s))) (snd (perform q s))"

text \<open>One call.\<close>

fun advance :: "'a calls \<Rightarrow> kube_store \<Rightarrow> 'a calls \<times> kube_store" where
  "advance (Return x) s = (Return x, s)"
| "advance (Call q k) s = (k (fst (perform q s)), snd (perform q s))"

text \<open>
  What a program may return whatever it is answered, how many calls it may make, and what it may
  ask for.
\<close>

primrec outcomes :: "'a calls \<Rightarrow> 'a set" where
  "outcomes (Return x) = {x}"
| "outcomes (Call q k) = (\<Union>r. outcomes (k r))"

primrec within :: "'a calls \<Rightarrow> nat \<Rightarrow> bool" where
  "within (Return x) n \<longleftrightarrow> True"
| "within (Call q k) n \<longleftrightarrow> 0 < n \<and> (\<forall>r. within (k r) (n - 1))"

primrec asks_only :: "(api_request \<Rightarrow> bool) \<Rightarrow> 'a calls \<Rightarrow> bool" where
  "asks_only P (Return x) \<longleftrightarrow> True"
| "asks_only P (Call q k) \<longleftrightarrow> P q \<and> (\<forall>r. asks_only P (k r))"

lemma run_bind [simp]: "run (bind c f) s = run (f (fst (run c s))) (snd (run c s))"
  by (induction c arbitrary: s) simp_all

lemma outcomes_bind [simp]: "y \<in> outcomes (bind c f) \<longleftrightarrow> (\<exists>x \<in> outcomes c. y \<in> outcomes (f x))"
  by (induction c) auto

lemma asks_only_bind [simp]:
  "asks_only P (bind c f) \<longleftrightarrow> asks_only P c \<and> (\<forall>x \<in> outcomes c. asks_only P (f x))"
  by (induction c) auto

lemma within_mono: "within c n \<Longrightarrow> n \<le> k \<Longrightarrow> within c k"
proof (induction c arbitrary: n k)
  case (Call q c)
  then show ?case by (metis diff_le_mono less_le_trans rangeI within.simps(2))
qed simp

lemma within_bind:
  assumes "within c n" "\<And>x. x \<in> outcomes c \<Longrightarrow> within (f x) k"
  shows "within (bind c f) (n + k)"
  using assms
proof (induction c arbitrary: n)
  case (Return x)
  then show ?case by (auto intro: within_mono)
next
  case (Call q c)
  have "within (bind (c r) f) (n - 1 + k)" for r
    using Call.prems by (intro Call.IH) auto
  with Call.prems show ?case by simp
qed

section \<open>The webhook's functions as calls\<close>

text \<open>A mutator stands for its settings here: the store of its client is only reached by calls.\<close>

definition EnsurePodGroup_calls :: "string \<Rightarrow> string \<Rightarrow> int \<Rightarrow> unit calls" where
  "EnsurePodGroup_calls ns g minCount =
     (let minCount = (if minCount \<le> 0 then 1 else minCount)
      in Call (AskGroup ns g) (\<lambda>r.
           if reply_group r \<noteq> None then Return ()
           else Call (MakeGroup \<lparr>pg_name = g, pg_namespace = ns,
                  pg_labels = [(''app'', ''fluence''), (GroupLabel, g)],
                  pg_annotations = [(CreatedByAnnotation, CreatedByValue)],
                  pg_min_count = minCount, pg_created = 0\<rparr>) (\<lambda>_. Return ())))"

definition RecordAdmission_calls :: "string \<Rightarrow> string \<Rightarrow> int \<Rightarrow> unit calls" where
  "RecordAdmission_calls ns g cores =
     (if cores \<le> 0 then Return ()
      else Call (AskGroup ns g) (\<lambda>r.
        case reply_group r of
          None \<Rightarrow> Return ()
        | Some pg \<Rightarrow>
            if gstr (pg_annotations pg) AdmittedCoresAnnotation \<noteq> [] then Return ()
            else Call (AnnotateGroup ns g AdmittedCoresAnnotation (show_int cores)) (\<lambda>_. Return ())))"

definition Capacity_calls :: "mutator \<Rightarrow> (string + capacity) calls" where
  "Capacity_calls m =
     Call AskNodes (\<lambda>r. case reply_nodes r of
       None \<Rightarrow> Return (Inl ''list nodes'')
     | Some nodes \<Rightarrow> Call AskPods (\<lambda>r. case reply_pods r of
         None \<Rightarrow> Return (Inl ''list pods'')
       | Some pods \<Rightarrow> Call AskGroups (\<lambda>r. case reply_groups r of
           None \<Rightarrow> Return (Inl ''list podgroups'')
         | Some groups \<Rightarrow> Return (Inr (capacity_of (mu_reserve m) nodes pods groups)))))"

definition Admit_calls :: "mutator \<Rightarrow> string \<Rightarrow> int \<Rightarrow> string option calls" where
  "Admit_calls m key cores =
     (if \<not> mu_control m \<or> cores \<le> 0 then Return None
      else bind (Capacity_calls m) (\<lambda>c. case c of
             Inl _ \<Rightarrow> Return None
           | Inr c \<Rightarrow>
               if i64 (cores + ca_promised c) > Reachable c then Return (Some (refusal_text key cores c))
               else Return None))"

primrec owner_job_calls :: "string \<Rightarrow> owner_ref list \<Rightarrow> int calls" where
  "owner_job_calls ns [] = Return 0"
| "owner_job_calls ns (r # rs) =
     (if or_kind r \<noteq> ''Job'' then owner_job_calls ns rs
      else Call (AskJob ns (or_name r)) (\<lambda>reply. case reply_job reply of
             None \<Rightarrow> Return 0
           | Some j \<Rightarrow>
               (case positive (jb_parallelism j) of
                  Some n \<Rightarrow> Return n
                | None \<Rightarrow>
                    (case positive (jb_completions j) of
                       Some n \<Rightarrow> Return n
                     | None \<Rightarrow> owner_job_calls ns rs))))"

primrec owner_replicaset_calls :: "string \<Rightarrow> owner_ref list \<Rightarrow> int calls" where
  "owner_replicaset_calls ns [] = Return 0"
| "owner_replicaset_calls ns (r # rs) =
     (if or_kind r \<noteq> ''ReplicaSet'' then owner_replicaset_calls ns rs
      else Call (AskReplicaSet ns (or_name r)) (\<lambda>reply. case reply_replicas reply of
             None \<Rightarrow> Return 0
           | Some n \<Rightarrow> (case positive n of Some n \<Rightarrow> Return n | None \<Rightarrow> owner_replicaset_calls ns rs)))"

definition countGroupPods_calls :: "string \<Rightarrow> string \<Rightarrow> int calls" where
  "countGroupPods_calls ns g =
     Call (AskGroupPods ns g) (\<lambda>r. case reply_pods r of
       None \<Rightarrow> Return 0
     | Some ps \<Rightarrow> Return (i32 (int (length ps))))"

definition resolveGangSize_calls :: "pod \<Rightarrow> string \<Rightarrow> int calls" where
  "resolveGangSize_calls p g =
     (case group_size p of
        Some v \<Rightarrow> Return (i32 v)
      | None \<Rightarrow> bind (owner_job_calls (p_namespace p) (p_owners p)) (\<lambda>n.
          if n > 0 then Return n
          else bind (owner_replicaset_calls (p_namespace p) (p_owners p)) (\<lambda>n.
            if n > 0 then Return n
            else if g = [] then Return 1
            else bind (countGroupPods_calls (p_namespace p) g) (\<lambda>n. Return (if n > 0 then n else 1)))))"

definition resolveMinCount_calls :: "pod \<Rightarrow> int calls" where
  "resolveMinCount_calls p =
     (case group_size p of
        Some v \<Rightarrow> Return (i32 v)
      | None \<Rightarrow> bind (owner_job_calls (p_namespace p) (p_owners p)) (\<lambda>n. Return (if n > 0 then n else 1)))"

definition isScout_calls :: "pod \<Rightarrow> string \<Rightarrow> bool calls" where
  "isScout_calls p g =
     (case map_of (pod_annotations p) CompletionIndexAnnotation of
        Some idx \<Rightarrow> Return (idx = ScoutIndex)
      | None \<Rightarrow> Call (AskGroup (p_namespace p) (g @ ScoutGroupSuffix)) (\<lambda>r. Return (reply_group r = None)))"

definition ensure_object_calls :: "string \<Rightarrow> string \<Rightarrow> unit calls" where
  "ensure_object_calls kind ns =
     Call (AskObject kind ns) (\<lambda>r.
       if reply_found r then Return () else Call (MakeObject kind ns) (\<lambda>_. Return ()))"

definition ensureSidecarRBAC_calls :: "string \<Rightarrow> unit calls" where
  "ensureSidecarRBAC_calls ns =
     bind (ensure_object_calls ''serviceaccounts'' ns) (\<lambda>_.
     bind (ensure_object_calls ''roles'' ns) (\<lambda>_. ensure_object_calls ''rolebindings'' ns))"

definition groupAdmitted_calls :: "string \<Rightarrow> string \<Rightarrow> bool calls" where
  "groupAdmitted_calls ns g =
     Call (AskGroup ns g) (\<lambda>r. case reply_group r of
       None \<Rightarrow> Return False
     | Some pg \<Rightarrow> Return (gstr (pg_annotations pg) AdmittedCoresAnnotation \<noteq> []))"

text \<open>A gang of the resolved size is coordinated.\<close>

definition coordinated :: "pod \<Rightarrow> int \<Rightarrow> bool" where
  "coordinated p n \<longleftrightarrow> coordinationMode p = CoordinationShared \<and> resolveGroup p \<noteq> [] \<and> n > 1"

definition quantum_admit_calls :: "mutator \<Rightarrow> pod \<Rightarrow> string option calls" where
  "quantum_admit_calls m p =
     (if Annotation p ProtectedAnnotation \<noteq> [] then
        Return (Some (ProtectedAnnotation
          @ '' is set by fluence and must not be set on a submission. It marks a pod as ''
          @ ''not preemptible, which is not yours to decide''))
      else
        let g = resolveGroup p; cores = PodCores p; ns = p_namespace p
        in bind (resolveGangSize_calls p g) (\<lambda>n.
             if coordinated p n then
               bind (groupAdmitted_calls ns g) (\<lambda>admitted.
                 if admitted then Return None
                 else Admit_calls m (object_key ns g) (i64 (cores * n)))
             else Admit_calls m (object_key ns (p_name p)) cores))"

definition mutateScout_calls ::
    "string \<Rightarrow> mutator \<Rightarrow> pod \<Rightarrow> string \<Rightarrow> env_var list \<Rightarrow> (op list \<times> pod) calls" where
  "mutateScout_calls override m p g rehearsal =
     bind (EnsurePodGroup_calls (p_namespace p) (g @ ScoutGroupSuffix) 1) (\<lambda>_.
     bind (ensureSidecarRBAC_calls (p_namespace p)) (\<lambda>_. Return (scout_builder override m g rehearsal p)))"

definition mutateWorker_calls :: "pod \<Rightarrow> string \<Rightarrow> int \<Rightarrow> (op list \<times> pod) calls" where
  "mutateWorker_calls p g n =
     bind (EnsurePodGroup_calls (p_namespace p) g (i32 (n - 1))) (\<lambda>_. Return (worker_builder g p))"

definition quantum_mutate_calls :: "string \<Rightarrow> mutator \<Rightarrow> pod \<Rightarrow> (op list \<times> pod) calls" where
  "quantum_mutate_calls override m p =
     (let g = resolveGroup p; rehearsal = rehearsalEnv p; cores = PodCores p; ns = p_namespace p
      in bind (resolveGangSize_calls p g) (\<lambda>n.
        if \<not> coordinated p n then
          (if Label p ObserveLabel = ''true''
           then bind (ensureSidecarRBAC_calls ns) (\<lambda>_. Return (lone_builder override m p))
           else Return (lone_builder override m p))
        else
          bind (EnsurePodGroup_calls ns g (i32 (n - 1))) (\<lambda>_.
          bind (RecordAdmission_calls ns g (i64 (cores * n))) (\<lambda>_.
            let r = stamp_builder p; p = snd r
            in bind (isScout_calls p g) (\<lambda>scout.
               bind (if scout then mutateScout_calls override m p g rehearsal else mutateWorker_calls p g n)
                 (\<lambda>r'. Return (fst r @ fst r', snd r')))))))"

definition gang_mutate_calls :: "mutator \<Rightarrow> pod \<Rightarrow> (op list \<times> pod) calls" where
  "gang_mutate_calls m p =
     bind (resolveMinCount_calls p) (\<lambda>n.
     bind (EnsurePodGroup_calls (p_namespace p) (GroupName p) n) (\<lambda>_.
       Return (schedulingGroupOps p (GroupName p), p)))"

definition fluxion_mutate_calls :: "mutator \<Rightarrow> pod \<Rightarrow> (op list \<times> pod) calls" where
  "fluxion_mutate_calls m p = Return (InjectEnvOps (InjectedEnv m) p)"

section \<open>Dispatch as calls\<close>

record call_handler =
  ch_name :: string
  ch_applies :: "mutator \<Rightarrow> pod \<Rightarrow> bool"
  ch_admit :: "(mutator \<Rightarrow> pod \<Rightarrow> string option calls) option"
  ch_mutate :: "mutator \<Rightarrow> pod \<Rightarrow> (op list \<times> pod) calls"

definition fluxion_calls :: call_handler where
  "fluxion_calls = \<lparr>ch_name = ''fluxion'', ch_applies = fluxion_applies, ch_admit = None,
     ch_mutate = fluxion_mutate_calls\<rparr>"

definition gang_calls :: call_handler where
  "gang_calls = \<lparr>ch_name = ''gang'', ch_applies = gang_applies, ch_admit = None,
     ch_mutate = gang_mutate_calls\<rparr>"

definition quantum_calls :: "string \<Rightarrow> call_handler" where
  "quantum_calls override = \<lparr>ch_name = ''quantum'', ch_applies = quantum_applies,
     ch_admit = Some quantum_admit_calls, ch_mutate = quantum_mutate_calls override\<rparr>"

text \<open>The active handlers of a registry, by name.\<close>

definition call_handlers :: "string \<Rightarrow> registry \<Rightarrow> call_handler list" where
  "call_handlers override rg =
     map (\<lambda>h. if hd_name h = ''fluxion'' then fluxion_calls
            else if hd_name h = ''gang'' then gang_calls else quantum_calls override) (registered rg)"

primrec handler_calls :: "call_handler list \<Rightarrow> mutator \<Rightarrow> pod \<Rightarrow> (string + op list \<times> pod) calls" where
  "handler_calls [] m p = Return (Inr ([], p))"
| "handler_calls (h # hs) m p =
     (if \<not> ch_applies h m p then handler_calls hs m p
      else bind (case ch_admit h of None \<Rightarrow> Return None | Some admit \<Rightarrow> admit m p) (\<lambda>refusal.
        case refusal of
          Some err \<Rightarrow> Return (Inl err)
        | None \<Rightarrow> bind (ch_mutate h m p) (\<lambda>r.
            bind (handler_calls hs m (snd r)) (\<lambda>r'. Return (case r' of
              Inl err \<Rightarrow> Inl err
            | Inr (os', p'') \<Rightarrow> Inr (fst r @ os', p''))))))"

definition MutateOrDeny_calls ::
    "string \<Rightarrow> registry \<Rightarrow> mutator \<Rightarrow> pod \<Rightarrow> (string + op list \<times> pod) calls" where
  "MutateOrDeny_calls override rg m p =
     (if p_scheduler p \<noteq> SchedulerName then Return (Inr ([], p))
      else handler_calls (call_handlers override rg) m p)"

end
