(* ===== verification/Webhook_Sequential.thy ===== *)
theory Webhook_Sequential
  imports Webhook_Calls
begin

text \<open>
  The calls of a request, run without interruption, do what the webhook's functions do on the
  store. The contract between a handler and its calls is the locale \<open>serves\<close>; it also says what
  the result of a mutation is whatever the API answers.
\<close>

section \<open>Function by function\<close>

definition on :: "mutator \<Rightarrow> kube_store \<Rightarrow> mutator" where
  "on m s = m\<lparr>mu_client := Some s\<rparr>"

lemma on_simps [simp]:
  "mu_client (on m s) = Some s" "mu_keys (on m s) = mu_keys m" "mu_control (on m s) = mu_control m"
  "mu_reserve (on m s) = mu_reserve m" "(on m s)\<lparr>mu_client := Some s'\<rparr> = on m s'"
  by (simp_all add: on_def)

lemma on_eq: "on m s = on m s' \<longleftrightarrow> s = s'"
  by (metis on_simps(1) option.inject)

text \<open>A program that only reads: its result, and the store as it was.\<close>

lemma run_sizes [simp]:
  "run (owner_job_calls ns rs) s = (owner_job_n s ns rs, s)"
  "run (owner_replicaset_calls ns rs) s = (owner_replicaset_n s ns rs, s)"
  by (induction rs) (simp_all split: option.split)

lemma run_resolve:
  "run (resolveGangSize_calls p g) s = (resolveGangSize (on m s) p g, s)"
  "run (resolveMinCount_calls p) s = (resolveMinCount (on m s) p, s)"
  by (simp_all add: resolveGangSize_calls_def resolveGangSize_def resolveMinCount_calls_def
      resolveMinCount_def ownerJobN_def ownerReplicaSetN_def countGroupPods_calls_def countGroupPods_def
      listed_def split: option.split)

lemma run_reads:
  "run (isScout_calls p g) s = (isScout (on m s) p g, s)"
  "run (groupAdmitted_calls ns g) s = (groupAdmitted (on m s) ns g, s)"
  by (simp_all add: isScout_calls_def isScout_def groupAdmitted_calls_def groupAdmitted_def split: option.split)

lemma run_Admit: "run (Admit_calls m key cores) s = (Admit (on m s) key cores, s)"
  by (simp add: Admit_calls_def Admit_def Capacity_calls_def Capacity_def listed_def)

text \<open>A program that writes: the store of the mutator that the function gives.\<close>

lemma run_writes:
  "EnsurePodGroup (on m s) ns g n = on m (snd (run (EnsurePodGroup_calls ns g n) s))"
  "RecordAdmission (on m s) ns g n = on m (snd (run (RecordAdmission_calls ns g n) s))"
  by (simp_all add: EnsurePodGroup_calls_def EnsurePodGroup_def RecordAdmission_calls_def RecordAdmission_def
      Let_def split: option.split)

lemma run_ensure_object: "snd (run (ensure_object_calls kind ns) s) = ensure_object kind ns s"
  by (simp add: ensure_object_calls_def ensure_object_def)

lemma run_RBAC: "ensureSidecarRBAC (on m s) ns = on m (snd (run (ensureSidecarRBAC_calls ns) s))"
  by (simp add: ensureSidecarRBAC_calls_def ensureSidecarRBAC_def run_ensure_object)

lemma coordinated_gang: "coordinated p (resolveGangSize m p (resolveGroup p)) = shared_gang m p"
  by (simp add: coordinated_def shared_gang_def)

text \<open>The builders read the settings only.\<close>

lemma builders_on:
  "scout_builder ov (on m s) = scout_builder ov m" "lone_builder ov (on m s) = lone_builder ov m"
  "InjectedEnv (on m s) = InjectedEnv m"
proof -
  show env: "InjectedEnv (on m s) = InjectedEnv m" by (simp add: InjectedEnv_def)
  have side: "sidecarContainerOps ov (on m s) = sidecarContainerOps ov m"
    by (simp add: fun_eq_iff sidecarContainerOps_def sidecar_container_def env)
  show "scout_builder ov (on m s) = scout_builder ov m" "lone_builder ov (on m s) = lone_builder ov m"
    by (simp_all add: fun_eq_iff scout_builder_def lone_builder_def side)
qed

section \<open>How many calls\<close>

lemma within_sizes:
  "within (owner_job_calls ns rs) (length rs)" "within (owner_replicaset_calls ns rs) (length rs)"
proof -
  have more: "within c n \<Longrightarrow> within c (Suc n)" for c :: "int calls" and n by (erule within_mono) simp
  show "within (owner_job_calls ns rs) (length rs)" "within (owner_replicaset_calls ns rs) (length rs)"
    by (induction rs) (auto simp: more split: option.split)
qed

lemma within_resolve:
  "within (resolveGangSize_calls p g) (2 * length (p_owners p) + 1)"
  "within (resolveMinCount_calls p) (length (p_owners p))"
proof -
  let ?o = "length (p_owners p)" and ?ns = "p_namespace p"
  have count: "within (countGroupPods_calls ns g') 1" for ns g'
    by (simp add: countGroupPods_calls_def split: option.split)
  have "within (bind (countGroupPods_calls ?ns g) (\<lambda>n. Return (if n > 0 then n else 1))) (1 + 0)"
    by (rule within_bind [OF count]) simp
  then have rest: "within (if n' > 0 then Return n' else if g = [] then Return 1
      else bind (countGroupPods_calls ?ns g) (\<lambda>n. Return (if n > 0 then n else 1))) 1" for n'
    by simp
  have "within (if n > 0 then Return n else bind (owner_replicaset_calls ?ns (p_owners p)) (\<lambda>n'.
      if n' > 0 then Return n' else if g = [] then Return 1
      else bind (countGroupPods_calls ?ns g) (\<lambda>n. Return (if n > 0 then n else 1)))) (?o + 1)" for n
    using within_bind [OF within_sizes(2) rest] by simp
  from within_bind [OF within_sizes(1) this]
  have "within (bind (owner_job_calls ?ns (p_owners p)) (\<lambda>n. if n > 0 then Return n else
      bind (owner_replicaset_calls ?ns (p_owners p)) (\<lambda>n'.
        if n' > 0 then Return n' else if g = [] then Return 1
        else bind (countGroupPods_calls ?ns g) (\<lambda>n. Return (if n > 0 then n else 1))))) (?o + (?o + 1))" (is "within ?calls _") .
  then have "within ?calls (2 * ?o + 1)" by (rule within_mono) simp
  moreover have "group_size p = None \<Longrightarrow> resolveGangSize_calls p g = ?calls"
    by (simp only: resolveGangSize_calls_def option.case)
  moreover have "group_size p = Some v \<Longrightarrow> resolveGangSize_calls p g = Return (i32 v)" for v
    by (simp add: resolveGangSize_calls_def)
  ultimately show "within (resolveGangSize_calls p g) (2 * ?o + 1)"
    by (cases "group_size p") simp_all
  have "within (bind (owner_job_calls ?ns (p_owners p)) (\<lambda>n. Return (if n > 0 then n else 1))) (?o + 0)"
    by (rule within_bind [OF within_sizes(1)]) simp
  then show "within (resolveMinCount_calls p) ?o"
    by (simp add: resolveMinCount_calls_def split: option.split)
qed

lemma within_calls:
  "within (EnsurePodGroup_calls ns g n) 2" "within (RecordAdmission_calls ns g n) 2"
  "within (isScout_calls p g) 1" "within (groupAdmitted_calls ns g) 1" "within (Admit_calls m key n) 3"
  "within (ensureSidecarRBAC_calls ns) 6"
proof -
  show "within (EnsurePodGroup_calls ns g n) 2" "within (RecordAdmission_calls ns g n) 2"
    "within (isScout_calls p g) 1" "within (groupAdmitted_calls ns g) 1"
    by (simp_all add: EnsurePodGroup_calls_def RecordAdmission_calls_def isScout_calls_def
        groupAdmitted_calls_def split: option.split)
  show "within (Admit_calls m key n) 3"
    by (simp add: Admit_calls_def Capacity_calls_def split: option.split)
  have one: "within (ensure_object_calls kind ns) 2" for kind
    by (simp add: ensure_object_calls_def)
  from within_bind [OF one within_bind [OF one one]]
  show "within (ensureSidecarRBAC_calls ns) 6" by (simp add: ensureSidecarRBAC_calls_def)
qed

lemma within_quantum:
  "within (quantum_admit_calls m p) (2 * length (p_owners p) + 5)"
  "within (quantum_mutate_calls ov m p) (2 * length (p_owners p) + 14)"
proof -
  let ?o = "length (p_owners p)" and ?g = "resolveGroup p" and ?ns = "p_namespace p"
  have "within (bind (groupAdmitted_calls ?ns ?g) (\<lambda>admitted. if admitted then Return None
      else Admit_calls m (object_key ?ns ?g) (i64 (PodCores p * n)))) (1 + 3)" for n
    by (rule within_bind [OF within_calls(4)]) (simp add: within_calls(5))
  then have admit: "within (if coordinated p n then bind (groupAdmitted_calls ?ns ?g) (\<lambda>admitted.
        if admitted then Return None else Admit_calls m (object_key ?ns ?g) (i64 (PodCores p * n)))
      else Admit_calls m (object_key ?ns (p_name p)) (PodCores p)) 4" for n
    using within_mono [OF within_calls(5), of 4] by simp
  from within_bind [OF within_resolve(1) this]
  have "within (bind (resolveGangSize_calls p ?g) (\<lambda>n. if coordinated p n then
        bind (groupAdmitted_calls ?ns ?g) (\<lambda>admitted.
          if admitted then Return None else Admit_calls m (object_key ?ns ?g) (i64 (PodCores p * n)))
      else Admit_calls m (object_key ?ns (p_name p)) (PodCores p))) (2 * ?o + 1 + 4)" .
  then show "within (quantum_admit_calls m p) (2 * ?o + 5)"
    unfolding quantum_admit_calls_def Let_def by (cases "Annotation p ProtectedAnnotation = []") (simp_all add: add.commute)
  let ?p1 = "snd (stamp_builder p)"
  have "within (mutateScout_calls ov m ?p1 ?g (rehearsalEnv p)) (2 + (6 + 0))"
    unfolding mutateScout_calls_def by (intro within_bind within_calls) simp
  moreover have "within (mutateWorker_calls ?p1 ?g n) (2 + 0)" for n
    unfolding mutateWorker_calls_def by (intro within_bind within_calls) simp
  then have "within (mutateWorker_calls ?p1 ?g n) 8" for n by (rule within_mono) simp
  ultimately have role: "within (if scout then mutateScout_calls ov m ?p1 ?g (rehearsalEnv p)
      else mutateWorker_calls ?p1 ?g n) 8" for scout n
    by simp
  have pair: "within (bind (EnsurePodGroup_calls ?ns ?g (i32 (n - 1))) (\<lambda>_.
          bind (RecordAdmission_calls ?ns ?g (i64 (PodCores p * n))) (\<lambda>_.
                bind (isScout_calls ?p1 ?g) (\<lambda>scout.
                bind (if scout then mutateScout_calls ov m ?p1 ?g (rehearsalEnv p) else mutateWorker_calls ?p1 ?g n)
                  (\<lambda>r'. Return (fst (stamp_builder p) @ fst r', snd r')))))) (2 + (2 + (1 + (8 + 0))))" for n
    by (intro within_bind within_calls role) simp
  have lone: "within (if Label p ObserveLabel = ''true''
           then bind (ensureSidecarRBAC_calls ?ns) (\<lambda>_. Return (lone_builder ov m p))
           else Return (lone_builder ov m p)) (6 + 0)"
    using within_bind [OF within_calls(6), where f = "\<lambda>_. Return (lone_builder ov m p)" and k = 0] by simp
  have "within (if \<not> coordinated p n then
          (if Label p ObserveLabel = ''true''
           then bind (ensureSidecarRBAC_calls ?ns) (\<lambda>_. Return (lone_builder ov m p))
           else Return (lone_builder ov m p))
        else bind (EnsurePodGroup_calls ?ns ?g (i32 (n - 1))) (\<lambda>_.
          bind (RecordAdmission_calls ?ns ?g (i64 (PodCores p * n))) (\<lambda>_.
                bind (isScout_calls ?p1 ?g) (\<lambda>scout.
                bind (if scout then mutateScout_calls ov m ?p1 ?g (rehearsalEnv p) else mutateWorker_calls ?p1 ?g n)
                  (\<lambda>r'. Return (fst (stamp_builder p) @ fst r', snd r')))))) 13" for n
    using within_mono [OF pair, where k = 13] within_mono [OF lone, where k = 13] by simp
  from within_bind [OF within_resolve(1) this]
  show "within (quantum_mutate_calls ov m p) (2 * ?o + 14)"
    unfolding quantum_mutate_calls_def Let_def by (rule within_mono) simp
qed

section \<open>What is asked for\<close>

text \<open>The PodGroups that are made have a positive gang size and are marked as Fluence's own.\<close>

fun proper_request :: "api_request \<Rightarrow> bool" where
  "proper_request (MakeGroup pg) \<longleftrightarrow>
     1 \<le> pg_min_count pg \<and> gstr (pg_annotations pg) CreatedByAnnotation = CreatedByValue"
| "proper_request _ \<longleftrightarrow> True"

lemma proper_calls [simp]:
  "asks_only proper_request (EnsurePodGroup_calls ns g n)"
  "asks_only proper_request (RecordAdmission_calls ns g n)"
  "asks_only proper_request (isScout_calls p g)" "asks_only proper_request (groupAdmitted_calls ns g)"
  "asks_only proper_request (Admit_calls m key n)" "asks_only proper_request (ensureSidecarRBAC_calls ns)"
  by (auto simp: EnsurePodGroup_calls_def RecordAdmission_calls_def isScout_calls_def groupAdmitted_calls_def
      Admit_calls_def Capacity_calls_def ensureSidecarRBAC_calls_def ensure_object_calls_def gstr_def Let_def
      split: option.split)

lemma proper_sizes [simp]:
  "asks_only proper_request (resolveGangSize_calls p g)" "asks_only proper_request (resolveMinCount_calls p)"
proof -
  have "asks_only proper_request (owner_job_calls ns rs)" "asks_only proper_request (owner_replicaset_calls ns rs)"
    for ns rs
    by (induction rs) (simp_all split: option.split)
  then show "asks_only proper_request (resolveGangSize_calls p g)" "asks_only proper_request (resolveMinCount_calls p)"
    by (simp_all add: resolveGangSize_calls_def resolveMinCount_calls_def countGroupPods_calls_def split: option.split)
qed

lemma proper_quantum [simp]:
  "asks_only proper_request (quantum_admit_calls m p)" "asks_only proper_request (quantum_mutate_calls ov m p)"
  by (simp_all add: quantum_admit_calls_def quantum_mutate_calls_def mutateScout_calls_def
      mutateWorker_calls_def Let_def)

section \<open>Handler by handler\<close>

locale serves =
  fixes h :: handler and c :: call_handler
  assumes same_name: "ch_name c = hd_name h"
    and same_trigger: "hd_applies h (on m s) p = ch_applies c m p"
    and admits: "run (case ch_admit c of None \<Rightarrow> Return None | Some admit \<Rightarrow> admit m p) s =
      ((case hd_admit h of None \<Rightarrow> None | Some admit \<Rightarrow> admit (on m s) p), s)"
    and mutates: "hd_mutate h (on m s) p =
      (fst (run (ch_mutate c m p) s), on m (snd (run (ch_mutate c m p) s)))"
    and always_sound: "r \<in> outcomes (ch_mutate c m p) \<Longrightarrow> sound_result p r \<and> same_identity p (snd r)"
    and brief: "within (case ch_admit c of None \<Rightarrow> Return None | Some admit \<Rightarrow> admit m p) (2 * length (p_owners p) + 5)"
      "within (ch_mutate c m p) (2 * length (p_owners p) + 14)"
    and proper: "asks_only proper_request (case ch_admit c of None \<Rightarrow> Return None | Some admit \<Rightarrow> admit m p)"
      "asks_only proper_request (ch_mutate c m p)"

lemma serves_fluxion: "serves fluxion_handler fluxion_calls"
proof (rule serves.intro)
  fix m s p r
  show "ch_name fluxion_calls = hd_name fluxion_handler"
    "hd_applies fluxion_handler (on m s) p = ch_applies fluxion_calls m p"
    "run (case ch_admit fluxion_calls of None \<Rightarrow> Return None | Some admit \<Rightarrow> admit m p) s =
      ((case hd_admit fluxion_handler of None \<Rightarrow> None | Some admit \<Rightarrow> admit (on m s) p), s)"
    "hd_mutate fluxion_handler (on m s) p =
      (fst (run (ch_mutate fluxion_calls m p) s), on m (snd (run (ch_mutate fluxion_calls m p) s)))"
    by (simp_all add: fluxion_calls_def fluxion_handler_def fluxion_applies_def fluxion_mutate_calls_def
        fluxion_mutate_def builders_on)
  show "within (case ch_admit fluxion_calls of None \<Rightarrow> Return None | Some admit \<Rightarrow> admit m p) (2 * length (p_owners p) + 5)"
    "within (ch_mutate fluxion_calls m p) (2 * length (p_owners p) + 14)"
    by (simp_all add: fluxion_calls_def fluxion_mutate_calls_def)
  show "asks_only proper_request (case ch_admit fluxion_calls of None \<Rightarrow> Return None | Some admit \<Rightarrow> admit m p)"
    "asks_only proper_request (ch_mutate fluxion_calls m p)"
    by (simp_all add: fluxion_calls_def fluxion_mutate_calls_def)
  show "sound_result p r \<and> same_identity p (snd r)" if "r \<in> outcomes (ch_mutate fluxion_calls m p)"
    using that fluxion.mutate_sound [of p m] fluxion.mutate_identity [of p m]
    by (simp add: fluxion_calls_def fluxion_mutate_calls_def fluxion_mutate_def)
qed

lemma serves_gang: "serves gang_handler gang_calls"
proof (rule serves.intro)
  fix m s p r
  show "ch_name gang_calls = hd_name gang_handler"
    "hd_applies gang_handler (on m s) p = ch_applies gang_calls m p"
    "run (case ch_admit gang_calls of None \<Rightarrow> Return None | Some admit \<Rightarrow> admit m p) s =
      ((case hd_admit gang_handler of None \<Rightarrow> None | Some admit \<Rightarrow> admit (on m s) p), s)"
    "hd_mutate gang_handler (on m s) p =
      (fst (run (ch_mutate gang_calls m p) s), on m (snd (run (ch_mutate gang_calls m p) s)))"
    by (simp_all add: gang_calls_def gang_handler_def gang_applies_def gang_mutate_calls_def gang_mutate_def
        run_writes run_resolve [where m = m])
  have "within (bind (EnsurePodGroup_calls ns g n) (\<lambda>_. Return r')) (2 + 0)" for ns g n and r' :: "op list \<times> pod"
    by (rule within_bind [OF within_calls(1)]) simp
  from within_mono [OF within_bind [OF within_resolve(2) this], of p "2 * length (p_owners p) + 14"]
  show "within (case ch_admit gang_calls of None \<Rightarrow> Return None | Some admit \<Rightarrow> admit m p) (2 * length (p_owners p) + 5)"
    "within (ch_mutate gang_calls m p) (2 * length (p_owners p) + 14)"
    by (simp_all add: gang_calls_def gang_mutate_calls_def)
  show "asks_only proper_request (case ch_admit gang_calls of None \<Rightarrow> Return None | Some admit \<Rightarrow> admit m p)"
    "asks_only proper_request (ch_mutate gang_calls m p)"
    by (simp_all add: gang_calls_def gang_mutate_calls_def)
  show "sound_result p r \<and> same_identity p (snd r)" if "r \<in> outcomes (ch_mutate gang_calls m p)"
    using that gang.mutate_sound [of p m] gang.mutate_identity [of p m]
    by (auto simp: gang_calls_def gang_mutate_calls_def gang_mutate_def)
qed

lemma outcomes_RBAC [simp]: "x \<in> outcomes (ensureSidecarRBAC_calls ns)"
proof -
  have "\<exists>r. y \<in> outcomes (if reply_found r then Return () else Call (MakeObject kind ns) (\<lambda>_. Return ()))" for kind y
    by (rule exI [of _ "Found True"]) simp
  then show ?thesis by (simp add: ensureSidecarRBAC_calls_def ensure_object_calls_def)
qed

text \<open>The result of the quantum handler is one of three, whatever the API answers.\<close>

lemma quantum_outcomes:
  assumes "r \<in> outcomes (quantum_mutate_calls ov m p)"
  shows "(\<exists>n \<in> outcomes (resolveGangSize_calls p (resolveGroup p)). \<not> coordinated p n \<and> r = lone_builder ov m p) \<or>
    (\<exists>n \<in> outcomes (resolveGangSize_calls p (resolveGroup p)). coordinated p n \<and>
       (\<exists>scout \<in> outcomes (isScout_calls (snd (stamp_builder p)) (resolveGroup p)).
          r = then_ops (stamp_builder p)
            (if scout then scout_builder ov m (resolveGroup p) (rehearsalEnv p) else worker_builder (resolveGroup p))))"
proof -
  let ?g = "resolveGroup p" let ?p1 = "snd (stamp_builder p)"
  from assms obtain n where n: "n \<in> outcomes (resolveGangSize_calls p ?g)"
    and r: "r \<in> outcomes (if \<not> coordinated p n then
          (if Label p ObserveLabel = ''true''
           then bind (ensureSidecarRBAC_calls (p_namespace p)) (\<lambda>_. Return (lone_builder ov m p))
           else Return (lone_builder ov m p))
        else
          bind (EnsurePodGroup_calls (p_namespace p) ?g (i32 (n - 1))) (\<lambda>_.
          bind (RecordAdmission_calls (p_namespace p) ?g (i64 (PodCores p * n))) (\<lambda>_.
                bind (isScout_calls ?p1 ?g) (\<lambda>scout.
                bind (if scout then mutateScout_calls ov m ?p1 ?g (rehearsalEnv p) else mutateWorker_calls ?p1 ?g n)
                  (\<lambda>r'. Return (fst (stamp_builder p) @ fst r', snd r'))))))"
    unfolding quantum_mutate_calls_def Let_def outcomes_bind by blast
  show ?thesis
  proof (cases "coordinated p n")
    case False
    with r n show ?thesis by (auto split: if_splits)
  next
    case True
    from r True obtain scout r' where scout: "scout \<in> outcomes (isScout_calls ?p1 ?g)"
      and r': "r' \<in> outcomes (if scout then mutateScout_calls ov m ?p1 ?g (rehearsalEnv p)
          else mutateWorker_calls ?p1 ?g n)" and pair: "r = (fst (stamp_builder p) @ fst r', snd r')"
      by auto
    from r' have "r' = (if scout then scout_builder ov m ?g (rehearsalEnv p) ?p1 else worker_builder ?g ?p1)"
      by (cases scout) (auto simp: mutateScout_calls_def mutateWorker_calls_def)
    with pair have "r = then_ops (stamp_builder p)
        (if scout then scout_builder ov m ?g (rehearsalEnv p) else worker_builder ?g)"
      by (cases scout) (simp_all add: then_ops_def split_beta)
    with n True scout show ?thesis by blast
  qed
qed

lemma quantum_always_sound:
  assumes "r \<in> outcomes (quantum_mutate_calls ov m p)"
  shows "sound_result p r \<and> same_identity p (snd r)"
  using quantum_outcomes [OF assms]
    soundD [OF sound_paths(3)] sound_then [OF soundD [OF sound_paths(4)] sound_paths(1)]
    sound_then [OF soundD [OF sound_paths(4)] sound_paths(2)]
    keepsD [OF keeps_paths(3)] keeps_then [OF keepsD [OF keeps_paths(4)] keeps_paths(1)]
    keeps_then [OF keepsD [OF keeps_paths(4)] keeps_paths(2)]
  by (elim disjE bexE conjE) (simp_all split: if_splits del: then_ops_simps)

lemma quantum_run_calls:
  "quantum_mutate ov (on m s) p =
     (fst (run (quantum_mutate_calls ov m p) s), on m (snd (run (quantum_mutate_calls ov m p) s)))"
proof -
  have pair: "pair_store (on m s) p = on m (snd (run (RecordAdmission_calls (p_namespace p) (resolveGroup p)
      (i64 (PodCores p * resolveGangSize (on m s) p (resolveGroup p))))
      (snd (run (EnsurePodGroup_calls (p_namespace p) (resolveGroup p)
        (i32 (resolveGangSize (on m s) p (resolveGroup p) - 1))) s))))"
    by (simp add: pair_store_def Let_def run_writes)
  note step = run_resolve(1) [where m = m] run_reads(1) [where m = m] run_writes run_RBAC builders_on
    mutateScout_calls_def mutateWorker_calls_def
  show ?thesis
  proof (cases "shared_gang (on m s) p")
    case False
    then show ?thesis
      by (simp add: quantum_mutate_eq quantum_mutate_calls_def Let_def coordinated_gang step)
  next
    case True
    then show ?thesis
      by (simp add: quantum_mutate_eq quantum_mutate_calls_def Let_def coordinated_gang step pair then_ops_def
          split_beta del: then_ops_simps)
  qed
qed

lemma quantum_admit_run:
  "run (quantum_admit_calls m p) s = (quantum_admit (on m s) p, s)"
  by (simp add: quantum_admit_calls_def quantum_admit_def Let_def run_resolve(1) [where m = m]
      run_reads(2) [where m = m] run_Admit coordinated_gang)

lemma serves_quantum: "serves (quantum_handler ov) (quantum_calls ov)"
  by (rule serves.intro)
    (auto simp: quantum_calls_def quantum_handler_def quantum_applies_def quantum_admit_run quantum_run_calls
      within_quantum dest: quantum_always_sound)

section \<open>The dispatcher\<close>

interpretation fluxion_served: serves fluxion_handler fluxion_calls
  by (rule serves_fluxion)

interpretation gang_served: serves gang_handler gang_calls
  by (rule serves_gang)

interpretation quantum_served: serves "quantum_handler ov" "quantum_calls ov" for ov
  by (rule serves_quantum)

text \<open>A list of handlers with the calls each serves its pods by.\<close>

locale served_dispatcher =
  fixes pairs :: "(handler \<times> call_handler) list"
  assumes all_serve: "(h, c) \<in> set pairs \<Longrightarrow> serves h c"
begin

lemma dispatch_run:
  "set ps \<subseteq> set pairs \<Longrightarrow>
   run_handlers (map fst ps) (on m s) p =
     (fst (run (handler_calls (map snd ps) m p) s), on m (snd (run (handler_calls (map snd ps) m p) s)))"
proof (induction ps arbitrary: s p)
  case (Cons hc ps)
  obtain h c where hc: "hc = (h, c)" by fastforce
  with Cons.prems have "serves h c" by (auto intro: all_serve)
  note law = serves.same_trigger [OF this] serves.admits [OF this] serves.mutates [OF this]
  let ?refusal = "case hd_admit h of None \<Rightarrow> None | Some admit \<Rightarrow> admit (on m s) p"
  have IH: "run_handlers (map fst ps) (on m s') p' = (fst (run (handler_calls (map snd ps) m p') s'),
      on m (snd (run (handler_calls (map snd ps) m p') s')))" for s' p'
    using Cons.IH Cons.prems by simp
  show ?case
    using Cons.IH Cons.prems
    by (cases ?refusal)
      (auto simp: hc law IH split_beta split: sum.split)
qed simp

lemma dispatch_outcomes:
  "set ps \<subseteq> set pairs \<Longrightarrow> r \<in> outcomes (handler_calls (map snd ps) m p) \<Longrightarrow>
   (case r of Inl _ \<Rightarrow> True | Inr r' \<Rightarrow> sound_result p r' \<and> same_identity p (snd r'))"
proof (induction ps arbitrary: r p)
  case (Cons hc ps)
  obtain h c where hc: "hc = (h, c)" by fastforce
  with Cons.prems have "serves h c" by (auto intro: all_serve)
  note law = serves.always_sound [OF this]
  show ?case
  proof (cases "ch_applies c m p \<and> is_err r = False")
    case False
    show ?thesis
    proof (cases "ch_applies c m p")
      case True
      with False show ?thesis by (cases r) simp_all
    qed (use Cons hc in simp)
  next
    case True
    with Cons.prems(2) obtain r1 x where r1: "r1 \<in> outcomes (ch_mutate c m p)"
      and x: "x \<in> outcomes (handler_calls (map snd ps) m (snd r1))"
      and rx: "r = (case x of Inl err \<Rightarrow> Inl err | Inr (os', p'') \<Rightarrow> Inr (fst r1 @ os', p''))"
      by (auto simp: hc split_beta split: option.splits)
    from rx True obtain r2 where "x = Inr r2" by (cases x) auto
    with x rx have r2: "Inr r2 \<in> outcomes (handler_calls (map snd ps) m (snd r1))"
      and r: "r = Inr (fst r1 @ fst r2, snd r2)"
      by (simp_all add: split_beta)
    have "sound_result (snd r1) r2 \<and> same_identity (snd r1) (snd r2)"
      using Cons.IH [OF _ r2] Cons.prems(1) by simp
    with law [OF r1] r show ?thesis
      by (auto intro: sound_append [of p "fst r1" "snd r1" "fst r2" "snd r2", simplified] same_identity_trans)
  qed
qed simp

lemma dispatch_brief:
  "set ps \<subseteq> set pairs \<Longrightarrow>
   within (handler_calls (map snd ps) m p) (length ps * (4 * length (p_owners p) + 19))"
proof (induction ps arbitrary: p)
  case (Cons hc ps)
  obtain h c where hc: "hc = (h, c)" by fastforce
  with Cons.prems have "serves h c" by (auto intro: all_serve)
  note law = serves.brief [OF this] serves.always_sound [OF this]
  let ?o = "length (p_owners p)"
  let ?rest = "\<lambda>p'. handler_calls (map snd ps) m p'"
  have IH: "within (?rest p') (length ps * (4 * ?o + 19))" if "same_identity p p'" for p'
    using Cons.IH [of p'] Cons.prems that by (simp add: same_identity_def)
  have "within (bind (?rest (snd r)) (\<lambda>r'. Return (case r' of Inl err \<Rightarrow> Inl err
      | Inr (os', p'') \<Rightarrow> Inr (fst r @ os', p'')))) (length ps * (4 * ?o + 19) + 0)"
    if "r \<in> outcomes (ch_mutate c m p)" for r
    using law(3) [OF that] by (intro within_bind IH) simp_all
  from within_bind [OF law(2) this]
  have mutate: "within (bind (ch_mutate c m p) (\<lambda>r. bind (?rest (snd r)) (\<lambda>r'. Return (case r' of
      Inl err \<Rightarrow> Inl err | Inr (os', p'') \<Rightarrow> Inr (fst r @ os', p''))))) (2 * ?o + 14 + length ps * (4 * ?o + 19))"
    by simp
  have "within (bind (case ch_admit c of None \<Rightarrow> Return None | Some admit \<Rightarrow> admit m p) (\<lambda>refusal.
        case refusal of Some err \<Rightarrow> Return (Inl err)
        | None \<Rightarrow> bind (ch_mutate c m p) (\<lambda>r. bind (?rest (snd r)) (\<lambda>r'. Return (case r' of
            Inl err \<Rightarrow> Inl err | Inr (os', p'') \<Rightarrow> Inr (fst r @ os', p''))))))
      (2 * ?o + 5 + (2 * ?o + 14 + length ps * (4 * ?o + 19)))"
    by (rule within_bind [OF law(1)]) (simp add: mutate split: option.split)
  then have "within (handler_calls (c # map snd ps) m p) (length (hc # ps) * (4 * ?o + 19))"
    if "ch_applies c m p"
    using that by (auto elim!: within_mono)
  moreover have "within (handler_calls (c # map snd ps) m p) (length (hc # ps) * (4 * ?o + 19))"
    if "\<not> ch_applies c m p"
    using that within_mono [OF IH [of p]] by simp
  ultimately have "within (handler_calls (c # map snd ps) m p) (length (hc # ps) * (4 * ?o + 19))"
    by blast
  then show ?case by (simp only: hc list.map snd_conv)
qed simp

lemma dispatch_proper:
  "set ps \<subseteq> set pairs \<Longrightarrow> asks_only proper_request (handler_calls (map snd ps) m p)"
proof (induction ps arbitrary: p)
  case (Cons hc ps)
  obtain h c where hc: "hc = (h, c)" by fastforce
  with Cons.prems have "serves h c" by (auto intro: all_serve)
  from serves.proper [OF this] Cons show ?case by (simp add: hc split: option.split)
qed simp

end

text \<open>The configured handlers with their calls.\<close>

definition call_pairs :: "string \<Rightarrow> registry \<Rightarrow> (handler \<times> call_handler) list" where
  "call_pairs ov rg = zip (registered rg) (call_handlers ov rg)"

lemma call_pairs_maps [simp]:
  "map fst (call_pairs ov rg) = registered rg" "map snd (call_pairs ov rg) = call_handlers ov rg"
  by (simp_all add: call_pairs_def call_handlers_def)

lemma call_pairs_serve: "(h, c) \<in> set (call_pairs ov (configured ov names)) \<Longrightarrow> serves h c"
proof -
  assume pair: "(h, c) \<in> set (call_pairs ov (configured ov names))"
  then have "h \<in> {fluxion_handler, gang_handler, quantum_handler ov}"
    by (intro registered_builtin) (auto simp: call_pairs_def dest: set_zip_leftD)
  moreover from pair have "c = (if hd_name h = ''fluxion'' then fluxion_calls
      else if hd_name h = ''gang'' then gang_calls else quantum_calls ov)"
    by (auto simp: call_pairs_def call_handlers_def zip_map2 zip_same_conv_map)
  ultimately show "serves h c"
    using serves_fluxion serves_gang serves_quantum
    by (auto simp: fluxion_handler_def gang_handler_def quantum_handler_def)
qed

interpretation builtin_calls: served_dispatcher "call_pairs ov (configured ov names)" for ov names
  by (rule served_dispatcher.intro) (rule call_pairs_serve)

text \<open>
  The calls the webhook makes for a pod, run without anything in between, are what the
  webhook's functions do to the cluster, for every configured list of handlers and whichever of
  the calls fail: the same refusal or the same operations and pod, and the same cluster.
\<close>
lemma uninterrupted:
  "MutateOrDeny (configured ov names) (on m s) p =
     (let r = run (MutateOrDeny_calls ov (configured ov names) m p) s in (fst r, on m (snd r)))"
  using builtin_calls.dispatch_run [OF subset_refl, of ov names m s p]
  by (simp add: MutateOrDeny_def MutateOrDeny_calls_def Let_def)

lemma MutateOrDeny_outcomes:
  assumes "Inr r \<in> outcomes (MutateOrDeny_calls ov (configured ov names) m p)"
  shows "sound_result p r" "same_identity p (snd r)"
proof -
  have "sound_result p r \<and> same_identity p (snd r)"
  proof (cases "p_scheduler p = SchedulerName")
    case True
    with assms have "Inr r \<in> outcomes (handler_calls (call_handlers ov (configured ov names)) m p)"
      by (simp add: MutateOrDeny_calls_def)
    with builtin_calls.dispatch_outcomes [OF subset_refl, of "Inr r" ov names m p] show ?thesis by simp
  next
    case False
    with assms show ?thesis
      by (cases r) (simp add: MutateOrDeny_calls_def sound_result_def)
  qed
  then show "sound_result p r" "same_identity p (snd r)" by simp_all
qed

text \<open>The calls a pod may cost.\<close>

definition call_budget :: "registry \<Rightarrow> pod \<Rightarrow> nat" where
  "call_budget rg p = length (rg_order rg) * (4 * length (p_owners p) + 19)"

lemma MutateOrDeny_brief:
  "within (MutateOrDeny_calls ov (configured ov names) m p) (call_budget (configured ov names) p)"
proof (cases "p_scheduler p = SchedulerName")
  case True
  let ?rg = "configured ov names"
  have "length (call_pairs ov ?rg) \<le> length (rg_order ?rg)"
    by (simp add: call_pairs_def call_handlers_def registered_def map_filter_def)
  with builtin_calls.dispatch_brief [OF subset_refl, of ov names m p] True show ?thesis
    by (auto simp: MutateOrDeny_calls_def call_budget_def elim!: within_mono intro!: mult_right_mono)
qed (simp add: MutateOrDeny_calls_def)

lemma MutateOrDeny_proper: "asks_only proper_request (MutateOrDeny_calls ov (configured ov names) m p)"
  using builtin_calls.dispatch_proper [OF subset_refl, of ov names m p] by (simp add: MutateOrDeny_calls_def)

end
