(* ===== verification/Webhook_Concurrent.thy ===== *)
theory Webhook_Concurrent
  imports Webhook_Sequential
begin

text \<open>
  The webhook as a server: requests arrive, each makes its calls one at a time, and between any
  two calls other requests make theirs and others change the cluster. What holds for every
  schedule, and what does not hold when requests overlap.
\<close>

section \<open>The server\<close>

record server =
  sv_store :: kube_store
  sv_requests :: "(pod \<times> (string + op list \<times> pod) calls) list"

text \<open>A pod arrives, a request makes its next call, or someone else changes the cluster.\<close>

datatype event = Arrive pod | Advance nat | Interfere kube_store

text \<open>A server with its configuration: the image override, the registry and the mutator's settings.\<close>

fun react :: "string \<Rightarrow> registry \<Rightarrow> mutator \<Rightarrow> event \<Rightarrow> server \<Rightarrow> server" where
  "react ov rg m (Arrive p) w =
     w\<lparr>sv_requests := sv_requests w @ [(p, MutateOrDeny_calls ov rg m p)]\<rparr>"
| "react ov rg m (Advance i) w =
     (if i < length (sv_requests w) then
        case sv_requests w ! i of (p, c) \<Rightarrow>
          w\<lparr>sv_store := snd (advance c (sv_store w)),
            sv_requests := (sv_requests w)[i := (p, fst (advance c (sv_store w)))]\<rparr>
      else w)"
| "react ov rg m (Interfere s) w = w\<lparr>sv_store := s\<rparr>"

definition react_all :: "string \<Rightarrow> registry \<Rightarrow> mutator \<Rightarrow> event list \<Rightarrow> server \<Rightarrow> server" where
  "react_all ov rg m = fold (react ov rg m)"

definition fresh_server :: "kube_store \<Rightarrow> server" where
  "fresh_server s = \<lparr>sv_store = s, sv_requests = []\<rparr>"

text \<open>A request has answered when nothing but its result is left.\<close>

definition answered :: "server \<Rightarrow> nat \<Rightarrow> (pod \<times> (string + op list \<times> pod)) option" where
  "answered w i =
     (if i < length (sv_requests w)
      then case sv_requests w ! i of (p, Return r) \<Rightarrow> Some (p, r) | _ \<Rightarrow> None
      else None)"

text \<open>A run is an induction over its last event.\<close>

lemma react_all_simps [simp]:
  "react_all ov rg m [] w = w"
  "react_all ov rg m (evs @ [e]) w = react ov rg m e (react_all ov rg m evs w)"
  by (simp_all add: react_all_def)

lemma react_all_append: "react_all ov rg m (evs @ evs') w = react_all ov rg m evs' (react_all ov rg m evs w)"
  by (simp add: react_all_def)

text \<open>What holds of every program at its start and is kept by every call holds of every request.\<close>

lemma react_requests:
  assumes start: "\<And>p. P p (MutateOrDeny_calls ov rg m p)"
    and call: "\<And>p c s. P p c \<Longrightarrow> P p (fst (advance c s))"
    and before: "\<forall>pc \<in> set (sv_requests w). P (fst pc) (snd pc)"
  shows "\<forall>pc \<in> set (sv_requests (react ov rg m e w)). P (fst pc) (snd pc)"
proof (cases e)
  case (Advance i)
  show ?thesis
  proof (cases "i < length (sv_requests w)")
    case True
    let ?pc = "sv_requests w ! i"
    have "P (fst ?pc) (fst (advance (snd ?pc) (sv_store w)))" using before True call by simp
    moreover have "sv_requests (react ov rg m e w) =
        (sv_requests w)[i := (fst ?pc, fst (advance (snd ?pc) (sv_store w)))]"
      using Advance True by (simp add: split_beta)
    ultimately show ?thesis
      using before set_update_subset_insert [of "sv_requests w" i] by fastforce
  qed (use before Advance in simp)
qed (use start before in auto)

lemma react_all_requests:
  assumes "\<And>p. P p (MutateOrDeny_calls ov rg m p)" "\<And>p c s. P p c \<Longrightarrow> P p (fst (advance c s))"
  shows "\<forall>pc \<in> set (sv_requests (react_all ov rg m evs (fresh_server s))). P (fst pc) (snd pc)"
  by (induction evs rule: rev_induct) (simp_all add: fresh_server_def react_requests [where P = P, OF assms])

lemma answered_request:
  "answered w i = Some (p, r) \<Longrightarrow> i < length (sv_requests w) \<and> sv_requests w ! i = (p, Return r)"
  by (auto simp: answered_def split: if_splits prod.splits calls.splits)

lemma advance_outcomes: "outcomes (fst (advance c s)) \<subseteq> outcomes c"
  by (cases c) auto

text \<open>What a request in progress can still return is what its pod's program can return.\<close>

lemma answered_outcomes:
  assumes "answered (react_all ov rg m evs (fresh_server s)) i = Some (p, r)"
  shows "r \<in> outcomes (MutateOrDeny_calls ov rg m p)"
proof -
  have "\<forall>pc \<in> set (sv_requests (react_all ov rg m evs (fresh_server s))).
      outcomes (snd pc) \<subseteq> outcomes (MutateOrDeny_calls ov rg m (fst pc))"
    by (rule react_all_requests [where P = "\<lambda>p c. outcomes c \<subseteq> outcomes (MutateOrDeny_calls ov rg m p)"])
      (rule subset_refl, rule subset_trans [OF advance_outcomes])
  with answered_request [OF assms] show ?thesis by (metis fst_conv insert_subset nth_mem outcomes.simps(1) snd_conv)
qed

text \<open>
  C6: whatever the schedule. However the requests overlap and whatever others do to the cluster
  between two calls, the operations a request ends with apply to the pod it came with, and a
  pod of another scheduler gets none.
\<close>
theorem patches_apply_always:
  assumes "answered (react_all ov (configured ov names) m evs (fresh_server s)) i = Some (p, Inr (os, p'))"
  shows "(\<exists>q. apply_ops os p = Some q) \<and> p_name p' = p_name p \<and> p_namespace p' = p_namespace p \<and>
    (if p_scheduler p = SchedulerName then True else os = [])"
proof -
  from answered_outcomes [OF assms]
  have r: "Inr (os, p') \<in> outcomes (MutateOrDeny_calls ov (configured ov names) m p)" .
  from sound_result_applies [OF MutateOrDeny_outcomes(1) [OF r]] MutateOrDeny_outcomes(2) [OF r] r
  show ?thesis by (auto simp: same_identity_def MutateOrDeny_calls_def)
qed

section \<open>The cluster\<close>

text \<open>The PodGroups of a well-formed cluster have names of their own and a positive gang size.\<close>

definition typed_groups :: "kube_store \<Rightarrow> bool" where
  "typed_groups s \<longleftrightarrow> distinct (map (\<lambda>pg. (pg_namespace pg, pg_name pg)) (ks_groups s)) \<and>
     list_all (\<lambda>pg. 1 \<le> pg_min_count pg) (ks_groups s)"

definition only_adds :: "kube_store \<Rightarrow> kube_store \<Rightarrow> bool" where
  "only_adds s s' \<longleftrightarrow> (\<exists>new. gangs s' = gangs s @ new) \<and> ks_pods s' = ks_pods s \<and> ks_nodes s' = ks_nodes s \<and>
     ks_jobs s' = ks_jobs s \<and> ks_replicasets s' = ks_replicasets s"

lemma typed_gangs:
  "typed_groups s \<longleftrightarrow> distinct (map (\<lambda>(ns, g, n). (ns, g)) (gangs s)) \<and> list_all (\<lambda>(ns, g, n). 1 \<le> n) (gangs s)"
  by (simp add: typed_groups_def gangs_def comp_def list_all_iff)

lemma gangs_create_new:
  "gangs (create_group s pg) =
     (if ks_down s ''create podgroups'' \<or> (\<exists>n. (pg_namespace pg, pg_name pg, n) \<in> set (gangs s)) then gangs s
      else gangs s @ [(pg_namespace pg, pg_name pg, pg_min_count pg)])"
proof -
  have "(\<exists>n. (ns, g, n) \<in> set (gangs s)) \<longleftrightarrow> list_ex (is_group ns g) (ks_groups s)" for ns g
    by (auto simp: gangs_def list_ex_iff is_group_def image_iff)
  then show ?thesis by (simp add: create_group_def) (simp add: gangs_def)
qed

lemma write_rest:
  "ks_pods (create_group s pg) = ks_pods s" "ks_nodes (create_group s pg) = ks_nodes s"
  "ks_jobs (create_group s pg) = ks_jobs s" "ks_replicasets (create_group s pg) = ks_replicasets s"
  "ks_pods (patch_group s ns g k v) = ks_pods s" "ks_nodes (patch_group s ns g k v) = ks_nodes s"
  "ks_jobs (patch_group s ns g k v) = ks_jobs s" "ks_replicasets (patch_group s ns g k v) = ks_replicasets s"
  by (simp_all add: create_group_def patch_group_def)

text \<open>Every call adds at most a PodGroup of a new name.\<close>

lemma perform_adds: "only_adds s (snd (perform q s))"
  by (cases q) (auto simp: only_adds_def gangs_create_new gangs_patch ensure_object_rest write_rest)

lemma perform_typed: "typed_groups s \<Longrightarrow> proper_request q \<Longrightarrow> typed_groups (snd (perform q s))"
  by (cases q) (auto simp: typed_gangs gangs_create_new gangs_patch ensure_object_rest)

lemma advance_proper: "asks_only P c \<Longrightarrow> asks_only P (fst (advance c s))"
  by (cases c) auto

lemma requests_proper:
  "\<forall>pc \<in> set (sv_requests (react_all ov (configured ov names) m evs (fresh_server s))).
     asks_only proper_request (snd pc)"
  by (rule react_all_requests [where P = "\<lambda>_. asks_only proper_request"])
    (rule MutateOrDeny_proper, rule advance_proper)

text \<open>
  C13: the cluster stays well-typed. However requests overlap, and as long as the others who
  change the cluster keep it so, no two PodGroups ever share a name and every gang size is
  positive, also when two requests race to create the same group; and no call of any request
  takes a PodGroup away, resizes one, or touches pods, nodes or jobs.
\<close>
theorem cluster_stays_typed:
  assumes "typed_groups s" and others: "\<And>s'. Interfere s' \<in> set evs \<Longrightarrow> typed_groups s'"
  shows "typed_groups (sv_store (react_all ov (configured ov names) m evs (fresh_server s))) \<and>
    only_adds (sv_store (react_all ov (configured ov names) m evs (fresh_server s)))
      (sv_store (react_all ov (configured ov names) m (evs @ [Advance i]) (fresh_server s)))"
proof
  show "typed_groups (sv_store (react_all ov (configured ov names) m evs (fresh_server s)))"
    using others
  proof (induction evs rule: rev_induct)
    case (snoc e evs)
    let ?w = "react_all ov (configured ov names) m evs (fresh_server s)"
    from snoc have typed: "typed_groups (sv_store ?w)" by simp
    show ?case
    proof (cases e)
      case (Advance j)
      have "typed_groups (snd (advance c (sv_store ?w)))" if "(p, c) \<in> set (sv_requests ?w)" for p c
        using that requests_proper [of ov names m evs s] typed perform_typed by (cases c) fastforce+
      with typed Advance show ?thesis by (auto split: prod.split dest: nth_mem)
    qed (use typed snoc.prems in auto)
  qed (simp add: fresh_server_def assms(1))
  have "only_adds s' (snd (advance c s'))" for s' and c :: "(string + op list \<times> pod) calls"
    by (cases c) (simp_all add: perform_adds, simp add: only_adds_def)
  moreover have "only_adds s' s'" for s' by (simp add: only_adds_def)
  ultimately show "only_adds (sv_store (react_all ov (configured ov names) m evs (fresh_server s)))
      (sv_store (react_all ov (configured ov names) m (evs @ [Advance i]) (fresh_server s)))"
    by (auto split: prod.split)
qed

section \<open>Progress\<close>

lemma advance_within: "within c n \<Longrightarrow> within (fst (advance c s)) (n - 1)"
  by (cases c) (auto intro: within_mono)

text \<open>A request keeps its pod, and its own calls use up its budget.\<close>

lemma react_progress:
  assumes "i < length (sv_requests w)" "within (snd (sv_requests w ! i)) n"
  shows "i < length (sv_requests (react ov rg m e w)) \<and>
    fst (sv_requests (react ov rg m e w) ! i) = fst (sv_requests w ! i) \<and>
    within (snd (sv_requests (react ov rg m e w) ! i)) (if e = Advance i then n - 1 else n)"
proof (cases e)
  case (Advance j)
  with assms show ?thesis
    by (cases "j = i") (auto simp: split_beta nth_list_update advance_within [unfolded One_nat_def])
qed (use assms in \<open>auto simp: nth_append\<close>)

lemma react_all_progress:
  assumes "i < length (sv_requests w)" "within (snd (sv_requests w ! i)) n"
  shows "i < length (sv_requests (react_all ov rg m evs w)) \<and>
    fst (sv_requests (react_all ov rg m evs w) ! i) = fst (sv_requests w ! i) \<and>
    within (snd (sv_requests (react_all ov rg m evs w) ! i)) (n - count_list evs (Advance i))"
proof (induction evs rule: rev_induct)
  case (snoc e evs)
  then have "i < length (sv_requests (react_all ov rg m evs w))"
    "within (snd (sv_requests (react_all ov rg m evs w) ! i)) (n - count_list evs (Advance i))"
    "fst (sv_requests (react_all ov rg m evs w) ! i) = fst (sv_requests w ! i)" by simp_all
  with react_progress [OF this(1,2), of ov rg m e] show ?case by auto
qed (use assms in simp)

text \<open>
  C12: every request is answered. Once a request has been given as many turns as its pod may cost
  calls, which is bounded by the configured handlers and the owners of the pod alone, it has its
  result, whatever the API answered, whatever the other requests did and whoever changed the
  cluster meanwhile; and it still is the request of the same pod.
\<close>
theorem requests_finish:
  assumes "i < length (sv_requests (react_all ov (configured ov names) m evs (fresh_server s)))"
    and "call_budget (configured ov names)
      (fst (sv_requests (react_all ov (configured ov names) m evs (fresh_server s)) ! i)) \<le> count_list later (Advance i)"
  shows "\<exists>r. answered (react_all ov (configured ov names) m (evs @ later) (fresh_server s)) i =
    Some (fst (sv_requests (react_all ov (configured ov names) m evs (fresh_server s)) ! i), r)"
proof -
  let ?rg = "configured ov names"
  let ?w = "react_all ov ?rg m evs (fresh_server s)" let ?w' = "react_all ov ?rg m (evs @ later) (fresh_server s)"
  have "\<forall>pc \<in> set (sv_requests ?w). within (snd pc) (call_budget ?rg (fst pc))"
    by (rule react_all_requests [where P = "\<lambda>p c. within c (call_budget ?rg p)"])
      (rule MutateOrDeny_brief, rule within_mono [OF advance_within], assumption, simp)
  with assms(1) have "within (snd (sv_requests ?w ! i)) (call_budget ?rg (fst (sv_requests ?w ! i)))" by simp
  from react_all_progress [OF assms(1) this, of ov ?rg m later] assms(2)
  have "i < length (sv_requests ?w')" "fst (sv_requests ?w' ! i) = fst (sv_requests ?w ! i)"
    "within (snd (sv_requests ?w' ! i)) 0"
    by (simp_all add: react_all_append)
  then show ?thesis
    by (cases "sv_requests ?w' ! i"; cases "snd (sv_requests ?w' ! i)") (auto simp: answered_def)
qed

end
