(* ===== verification/Webhook_Election.thy ===== *)
theory Webhook_Election
  imports Webhook_Concurrent Webhook_Roles
begin

text \<open>
  The roles of a coordinated gang when its pods are admitted concurrently: what every schedule
  guarantees, that a completion index decides the role, and what overlapping requests break (the
  election without an index, and the admission budget).
\<close>

section \<open>What the default handlers end with\<close>

lemma default_call_handlers:
  "call_handlers ov (configured ov []) = [fluxion_calls, quantum_calls ov, gang_calls]"
  by (simp add: call_handlers_def default_handlers fluxion_handler_def gang_handler_def quantum_handler_def)

lemma handler_outcome:
  assumes "Inr r \<in> outcomes (handler_calls (h # hs) m p)" "ch_applies h m p"
  obtains r1 r2 where "r1 \<in> outcomes (ch_mutate h m p)" "Inr r2 \<in> outcomes (handler_calls hs m (snd r1))"
    "r = (fst r1 @ fst r2, snd r2)"
proof -
  from assms obtain r1 x where r1: "r1 \<in> outcomes (ch_mutate h m p)"
    and x: "x \<in> outcomes (handler_calls hs m (snd r1))"
    and rx: "Inr r = (case x of Inl err \<Rightarrow> Inl err | Inr (os', p'') \<Rightarrow> Inr (fst r1 @ os', p''))"
    by (auto split: option.splits)
  from rx obtain r2 where "x = Inr r2" by (cases x) auto
  with r1 x rx that show ?thesis by (simp add: split_beta)
qed

lemma gang_outcome:
  assumes "Inr r \<in> outcomes (handler_calls [gang_calls] m p)"
  shows "r = (if gang_applies m p then fst (gang_mutate m p) else ([], p))"
proof (cases "gang_applies m p")
  case True
  then have "ch_applies gang_calls m p" by (simp add: gang_calls_def)
  from handler_outcome [OF assms this] True show ?thesis
    by (auto simp: gang_calls_def gang_mutate_calls_def gang_mutate_def)
qed (use assms in \<open>simp add: gang_calls_def\<close>)

lemma default_outcome:
  assumes "Inr (os, p') \<in> outcomes (MutateOrDeny_calls ov (configured ov []) m p)"
    and "p_scheduler p = SchedulerName" "PodRequestsResource p QuantumResource"
  obtains r where "r \<in> outcomes (quantum_mutate_calls ov m (snd (fluxion_step m p)))"
    "os = fst (fluxion_step m p) @ fst r
      @ (if gang_applies m (snd r) then fst (fst (gang_mutate m (snd r))) else [])"
proof -
  let ?p1 = "snd (fluxion_step m p)"
  have "Inr (os, p') \<in> outcomes (handler_calls [fluxion_calls, quantum_calls ov, gang_calls] m p)"
    using assms(1,2) by (simp add: MutateOrDeny_calls_def default_call_handlers)
  then obtain os2 p2 where q: "Inr (os2, p2) \<in> outcomes (handler_calls [quantum_calls ov, gang_calls] m ?p1)"
    and os: "os = fst (fluxion_step m p) @ os2"
  proof (cases "fluxion_applies m p")
    case True
    assume first: "Inr (os, p') \<in> outcomes (handler_calls [fluxion_calls, quantum_calls ov, gang_calls] m p)"
    from True have "ch_applies fluxion_calls m p" by (simp add: fluxion_calls_def)
    from handler_outcome [OF first this] obtain r1 r2 where "r1 \<in> outcomes (ch_mutate fluxion_calls m p)"
      "Inr r2 \<in> outcomes (handler_calls [quantum_calls ov, gang_calls] m (snd r1))"
      "(os, p') = (fst r1 @ fst r2, snd r2)" by blast
    with True that [of "fst r2" "snd r2"] show thesis
      by (simp add: fluxion_calls_def fluxion_mutate_calls_def fluxion_step_def del: handler_calls.simps)
  next
    case False
    assume "Inr (os, p') \<in> outcomes (handler_calls [fluxion_calls, quantum_calls ov, gang_calls] m p)"
    then have "Inr (os, p') \<in> outcomes (handler_calls [quantum_calls ov, gang_calls] m p)"
      using False by (subst (asm) handler_calls.simps) (simp add: fluxion_calls_def del: handler_calls.simps)
    with False that [of os p'] show thesis
      by (simp add: fluxion_step_def del: handler_calls.simps)
  qed
  have "ch_applies (quantum_calls ov) m ?p1"
    using assms(3) re_env_reads(1) [OF fluxion_step_exact(2)] by (simp add: quantum_calls_def quantum_applies_def)
  from handler_outcome [OF q this] obtain r r2 where r: "r \<in> outcomes (ch_mutate (quantum_calls ov) m ?p1)"
    and r2: "Inr r2 \<in> outcomes (handler_calls [gang_calls] m (snd r))" and "(os2, p2) = (fst r @ fst r2, snd r2)"
    by blast
  with gang_outcome [OF r2] os that [of r] show thesis
    by (simp add: quantum_calls_def)
qed

section \<open>Roles whatever the schedule\<close>

lemma re_env_annotations:
  "re_env p p' \<Longrightarrow> p_annotations p' = p_annotations p"
  "re_env p p' \<Longrightarrow> p_labels p' = p_labels p"
  by (auto simp: re_env_def)

lemma explicit_size: "group_size p = Some v \<Longrightarrow> n \<in> outcomes (resolveGangSize_calls p g) \<longleftrightarrow> n = i32 v"
  by (simp add: resolveGangSize_calls_def)

lemma isScout_outcome:
  "map_of (pod_annotations p) CompletionIndexAnnotation = Some idx \<Longrightarrow>
     scout \<in> outcomes (isScout_calls p g) \<longleftrightarrow> scout = (idx = ScoutIndex)"
  by (simp add: isScout_calls_def)

lemma stamped_index:
  "map_of (pod_annotations (snd (stamp_builder p))) CompletionIndexAnnotation =
     map_of (pod_annotations p) CompletionIndexAnnotation"
  using stamp_annotations(2) [of p] stamped_at(3) [of p] by (simp add: pod_annotations_def)

text \<open>The operations of a coordinated member, its role decided, and what the gang handler adds.\<close>

lemma member_patch:
  assumes p1: "p1 = snd (fluxion_step m p)" and asks: "PodRequestsResource p QuantumResource"
    and g: "resolveGroup p \<noteq> []"
    and r: "r = then_ops (stamp_builder p1)
      (if scout then scout_builder ov m (resolveGroup p1) (rehearsalEnv p1) else worker_builder (resolveGroup p1))"
    and os: "os = fst (fluxion_step m p) @ fst r
      @ (if gang_applies m (snd r) then fst (fst (gang_mutate m (snd r))) else [])"
  shows "\<exists>q. apply_ops os p = Some q \<and> (if scout then scout_of p q else worker_of p q)"
proof -
  note reads = re_env_reads [OF fluxion_step_exact(2) [where p = p and m = m], folded p1]
  note first = fluxion_step_exact(1) [of m p, folded p1]
  have group: "GroupName (snd r) = [] \<or> GroupName (snd r) = resolveGroup p"
  proof -
    have "same_identity p1 (snd r)"
      unfolding r by (intro keeps_then keepsD [OF keeps_paths(4)]) (simp add: keeps_paths)
    then have "GroupName (snd r) = GroupName p1" by (simp add: same_identity_def GroupName_def Label_def)
    with resolveGroup_label [of p] show ?thesis by (simp add: reads)
  qed
  show ?thesis
  proof (cases scout)
    case True
    have "p_containers p \<noteq> []" using asks by (auto simp: PodRequestsResource_def)
    then have "p_containers p1 \<noteq> []" using reads(10) by (simp flip: length_greater_0_conv)
    from scout_builds [OF this, of ov m] True obtain q where q: "apply_ops (fst r) p1 = Some q" "scout_of p1 q"
      unfolding r by auto
    then have "scout_of p q" by (simp add: scout_of_def reads asks_def [symmetric])
    moreover have "\<not> gang_applies m (snd r)"
      using asks True reads(9) by (simp add: r gang_applies_def requests_asks)
    ultimately show ?thesis using True apply_then [OF first q(1)] by (simp add: os)
  next
    case False
    from worker_builds [of p1] g False obtain q where q: "apply_ops (fst r) p1 = Some q" "worker_of p1 q"
      unfolding r by (auto simp: reads)
    then have w: "worker_of p q" by (simp add: worker_of_def reads)
    note patched = apply_then [OF first q(1)]
    show ?thesis
    proof (cases "gang_applies m (snd r)")
      case True
      from w have "linked_to q (resolveGroup p)" by (simp add: worker_of_def)
      from gang_after [OF group this True] obtain sg where
        sg: "apply_ops (fst (fst (gang_mutate m (snd r)))) q = Some (q\<lparr>p_group := sg\<rparr>)"
          "linked_to (q\<lparr>p_group := sg\<rparr>) (resolveGroup p)" by blast
      with True False w apply_then [OF patched sg(1)] worker_of_group [OF w sg(2)] show ?thesis by (simp add: os)
    qed (use patched w False os in simp)
  qed
qed

text \<open>
  C7: the roles of a gang are sound under every schedule. A member of a gang of an explicit size
  that is admitted becomes a worker or a scout, complete in either case, however requests
  overlap and the cluster changes; and when it carries a completion index, which of the two is
  decided by the index alone, so that an indexed gang has exactly the scout it should have.
\<close>
theorem roles_under_any_schedule:
  assumes answer: "answered (react_all ov (configured ov []) m evs (fresh_server s)) i = Some (p, Inr (os, p'))"
    and "p_scheduler p = SchedulerName" "PodRequestsResource p QuantumResource"
    and "coordinationMode p = CoordinationShared" "resolveGroup p \<noteq> []" "group_size p = Some v" "1 < i32 v"
  shows "\<exists>q scout. apply_ops os p = Some q \<and> (if scout then scout_of p q else worker_of p q) \<and>
    (case map_of (pod_annotations p) CompletionIndexAnnotation of
       None \<Rightarrow> True | Some idx \<Rightarrow> scout = (idx = ScoutIndex))"
proof -
  let ?p1 = "snd (fluxion_step m p)"
  note env = fluxion_step_exact(2) [of p m]
  note reads = re_env_reads [OF env]
  have "Annotation ?p1 = Annotation p"
    by (simp add: fun_eq_iff Annotation_def re_env_annotations [OF env])
  then have "coordinationMode ?p1 = coordinationMode p" by (simp add: coordinationMode_def)
  then have size: "group_size ?p1 = Some v" "coordinationMode ?p1 = CoordinationShared" "resolveGroup ?p1 \<noteq> []"
    "pod_annotations ?p1 = pod_annotations p"
    using assms(4-6) re_env_annotations [OF env]
    by (simp_all add: group_size_def reads pod_annotations_def)
  then have shared: "coordinated ?p1 (i32 v)" using assms(7) by (simp add: coordinated_def)
  from default_outcome [OF answered_outcomes [OF answer] assms(2,3)] obtain r
    where r: "r \<in> outcomes (quantum_mutate_calls ov m ?p1)"
      and os: "os = fst (fluxion_step m p) @ fst r
        @ (if gang_applies m (snd r) then fst (fst (gang_mutate m (snd r))) else [])" by blast
  from quantum_outcomes [OF r] shared size(1) obtain scout where
    scout: "scout \<in> outcomes (isScout_calls (snd (stamp_builder ?p1)) (resolveGroup ?p1))"
    and built: "r = then_ops (stamp_builder ?p1) (if scout then scout_builder ov m (resolveGroup ?p1) (rehearsalEnv ?p1)
        else worker_builder (resolveGroup ?p1))"
    by (auto simp: explicit_size)
  have "case map_of (pod_annotations p) CompletionIndexAnnotation of
      None \<Rightarrow> True | Some idx \<Rightarrow> scout = (idx = ScoutIndex)"
  proof (cases "map_of (pod_annotations p) CompletionIndexAnnotation")
    case (Some idx)
    then have "map_of (pod_annotations (snd (stamp_builder ?p1))) CompletionIndexAnnotation = Some idx"
      by (simp add: stamped_index size(4))
    from isScout_outcome [OF this] scout Some show ?thesis by simp
  qed simp
  with member_patch [OF refl assms(3,5) built os] show ?thesis by blast
qed

section \<open>Schedules of two requests\<close>

text \<open>A server with the default handlers on one node of eight cores, and what a request ends as.\<close>

definition sample_server :: "event list \<Rightarrow> server" where
  "sample_server evs = react_all [] (configured [] []) empty_cluster evs (fresh_server (store_with [] []))"

definition ends_as :: "(pod \<Rightarrow> pod \<Rightarrow> bool) \<Rightarrow> server \<Rightarrow> nat \<Rightarrow> bool" where
  "ends_as P w i =
     (case answered w i of
        Some (p, Inr (os, p')) \<Rightarrow> (case apply_ops os p of None \<Rightarrow> False | Some q \<Rightarrow> P p q)
      | _ \<Rightarrow> False)"

definition refused :: "server \<Rightarrow> nat \<Rightarrow> bool" where
  "refused w i = (case answered w i of Some (_, Inl _) \<Rightarrow> True | _ \<Rightarrow> False)"

text \<open>Two requests one after the other, and call by call in turn.\<close>

definition in_turn :: "pod \<Rightarrow> pod \<Rightarrow> event list" where
  "in_turn p q = Arrive p # Arrive q # replicate 24 (Advance 0) @ replicate 24 (Advance 1)"

definition overlapping :: "pod \<Rightarrow> pod \<Rightarrow> event list" where
  "overlapping p q = Arrive p # Arrive q # concat (replicate 24 [Advance 0, Advance 1])"

lemma sample_answer:
  obtains os p' where "answered (sample_server (in_turn pair_worker pair_scout)) 0 = Some (pair_worker, Inr (os, p'))"
proof -
  let ?answer = "answered (sample_server (in_turn pair_worker pair_scout)) 0"
  have mine: "case ?answer of Some (p, Inr _) \<Rightarrow> p = pair_worker | _ \<Rightarrow> False" by code_simp
  show thesis
  proof (cases ?answer)
    case (Some pr)
    obtain p r where "pr = (p, r)" by fastforce
    with mine Some that show thesis by (cases r) auto
  qed (use mine in simp)
qed

theorem roles_under_any_schedule_witness:
  "\<exists>os p' q. answered (sample_server (in_turn pair_worker pair_scout)) 0 = Some (pair_worker, Inr (os, p')) \<and>
     apply_ops os pair_worker = Some q \<and> worker_of pair_worker q"
proof -
  obtain os p' where answer: "answered (sample_server (in_turn pair_worker pair_scout)) 0 = Some (pair_worker, Inr (os, p'))"
    by (rule sample_answer)
  have "p_scheduler pair_worker = SchedulerName" "PodRequestsResource pair_worker QuantumResource"
    "coordinationMode pair_worker = CoordinationShared" "resolveGroup pair_worker \<noteq> []"
    "group_size pair_worker = Some 3" "1 < i32 3"
    "map_of (pod_annotations pair_worker) CompletionIndexAnnotation = Some ''1''" "''1'' \<noteq> ScoutIndex"
    by code_simp+
  with roles_under_any_schedule [OF answer [unfolded sample_server_def]] answer show ?thesis by fastforce
qed

text \<open>
  Without an index the election is only best effort, as the code says. Two members of a
  gang admitted one after the other are a scout and a worker; when their calls alternate, both
  read that there is no scout yet before either has claimed the place, and both become scouts.
\<close>
lemma election_can_race:
  "let a = pair_scout\<lparr>p_name := ''a''\<rparr>; b = pair_scout\<lparr>p_name := ''b''\<rparr>
   in ends_as scout_of (sample_server (in_turn a b)) 0 \<and> ends_as worker_of (sample_server (in_turn a b)) 1 \<and>
      ends_as scout_of (sample_server (overlapping a b)) 0 \<and> ends_as scout_of (sample_server (overlapping a b)) 1"
  by code_simp

text \<open>
  The race of \<open>overlapping_admissions\<close> at the webhook: of two gangs of six cores on eight the
  second is refused when it comes second; when the calls of the two alternate, both are admitted.
\<close>
lemma admission_can_race:
  "let a = pair_scout; b = pair_scout\<lparr>p_labels := Some [(GroupLabel, ''qaoa'')]\<rparr>;
       w = sample_server (overlapping a b)
   in ends_as scout_of (sample_server (in_turn a b)) 0 \<and> refused (sample_server (in_turn a b)) 1 \<and>
      ends_as scout_of w 0 \<and> ends_as scout_of w 1 \<and>
      (case Capacity empty_cluster (sv_store w) of Inl _ \<Rightarrow> False
       | Inr c \<Rightarrow> ca_promised c = 12 \<and> Reachable c = 8)"
  by code_simp

text \<open>The theorems on every schedule, at these.\<close>

theorem patches_apply_always_witness:
  "\<exists>os p' q. answered (sample_server (in_turn pair_worker pair_scout)) 0 = Some (pair_worker, Inr (os, p')) \<and>
     apply_ops os pair_worker = Some q"
  using sample_answer patches_apply_always [where ov = "[]" and names = "[]" and m = empty_cluster
      and s = "store_with [] []" and i = 0, folded sample_server_def] by metis

theorem cluster_stays_typed_witness:
  "typed_groups (sv_store (sample_server (overlapping pair_scout pair_worker)))"
proof -
  have "typed_groups (store_with [] [])" by (simp add: typed_groups_def store_with_def)
  moreover have "Interfere s' \<notin> set (overlapping pair_scout pair_worker)" for s'
    by (simp add: overlapping_def)
  ultimately show ?thesis
    unfolding sample_server_def using cluster_stays_typed by blast
qed

theorem requests_finish_witness:
  "\<exists>r. answered (sample_server (Arrive lone_member # replicate 57 (Advance 0))) 0 = Some (lone_member, r)"
proof -
  let ?w = "react_all [] (configured [] []) empty_cluster [Arrive lone_member] (fresh_server (store_with [] []))"
  have "sv_requests ?w = [(lone_member, MutateOrDeny_calls [] (configured [] []) empty_cluster lone_member)]"
    by (simp add: react_all_def fresh_server_def)
  moreover have "call_budget (configured [] []) lone_member = 57" by code_simp
  moreover have "count_list (replicate n (Advance 0)) (Advance 0) = n" for n by (induction n) simp_all
  ultimately show ?thesis
    using requests_finish [of 0 "[]" "[]" empty_cluster "[Arrive lone_member]" "store_with [] []" "replicate 57 (Advance 0)"]
    by (simp add: sample_server_def)
qed

end
