(* ===== verification/Device_Daemon.thy ===== *)
theory Device_Daemon
  imports Device_Served
begin

text \<open>
  The rest of \<open>cmd/deviceplugin/main.go\<close>: one goroutine per advertised resource, which builds its
  plugin and runs it until the shared context is cancelled, by a signal or because one of the
  others has failed, and \<open>main\<close>, which waits for all of them. The goroutines are a step relation;
  the outcomes of the system calls are chosen by the steps.
\<close>

section \<open>The goroutines\<close>

text \<open>
  Where a goroutine is: before its plugin is built, between \<open>serve\<close> and \<open>register\<close> in \<open>Run\<close>,
  waiting for the context in \<open>Run\<close>, or done.
\<close>

datatype phase = Starting | Listening plugin | Serving plugin | Ended

record daemon =
  dm_node :: plugin_node
  dm_plugins :: "(string \<times> phase) list"
  dm_cancelled :: bool

definition start_daemon :: "string list \<Rightarrow> daemon" where
  "start_daemon names =
     \<lparr>dm_node = bare_node, dm_plugins = map (\<lambda>n. (n, Starting)) names, dm_cancelled = False\<rparr>"

text \<open>
  With nothing to advertise \<open>main\<close> waits for the context; otherwise \<open>wg.Wait\<close> returns when every
  goroutine has ended.
\<close>

definition main_returns :: "daemon \<Rightarrow> bool" where
  "main_returns d \<longleftrightarrow>
     (if dm_plugins d = [] then dm_cancelled d else list_all (\<lambda>(_, ph). ph = Ended) (dm_plugins d))"

text \<open>The goroutine at an index moves to a phase and leaves the node as given.\<close>

definition move :: "nat \<Rightarrow> phase \<Rightarrow> plugin_node \<Rightarrow> daemon \<Rightarrow> daemon" where
  "move i ph w d = d\<lparr>dm_node := w, dm_plugins := (dm_plugins d)[i := (fst (dm_plugins d ! i), ph)]\<rparr>"

text \<open>
  A goroutine builds its plugin and serves it, registers it, and waits; an error ends it, after
  the deferred stop of the server when it was serving, and cancels the context, as a signal does;
  a plugin that waits ends once the context is cancelled.
\<close>

inductive daemon_step :: "plugin_api \<Rightarrow> int \<Rightarrow> daemon \<Rightarrow> daemon \<Rightarrow> bool"
  for pa :: plugin_api and cap :: int where
  serves: "i < length (dm_plugins d) \<Longrightarrow> dm_plugins d ! i = (name, Starting) \<Longrightarrow>
     NewPlugin pa name cap = Some p \<Longrightarrow> serve calls p (dm_node d) = (w, None) \<Longrightarrow>
     daemon_step pa cap d (move i (Listening p) w d)"
| fails: "i < length (dm_plugins d) \<Longrightarrow> dm_plugins d ! i = (name, Starting) \<Longrightarrow>
     NewPlugin pa name cap = Some p \<Longrightarrow> serve calls p (dm_node d) = (w, Some e) \<Longrightarrow>
     daemon_step pa cap d ((move i Ended w d)\<lparr>dm_cancelled := True\<rparr>)"
| registers: "i < length (dm_plugins d) \<Longrightarrow> dm_plugins d ! i = (name, Listening p) \<Longrightarrow>
     register pa calls p (dm_node d) = (w, None) \<Longrightarrow>
     daemon_step pa cap d (move i (Serving p) w d)"
| rejected: "i < length (dm_plugins d) \<Longrightarrow> dm_plugins d ! i = (name, Listening p) \<Longrightarrow>
     register pa calls p (dm_node d) = (w, Some e) \<Longrightarrow>
     daemon_step pa cap d ((move i Ended (stop_server p w) d)\<lparr>dm_cancelled := True\<rparr>)"
| signalled: "\<not> dm_cancelled d \<Longrightarrow> daemon_step pa cap d (d\<lparr>dm_cancelled := True\<rparr>)"
| ends: "i < length (dm_plugins d) \<Longrightarrow> dm_plugins d ! i = (name, Serving p) \<Longrightarrow> dm_cancelled d \<Longrightarrow>
     daemon_step pa cap d (move i Ended (fst (Run_cancelled p (dm_node d))) d)"

inductive reaches :: "plugin_api \<Rightarrow> int \<Rightarrow> string list \<Rightarrow> daemon \<Rightarrow> bool"
  for pa :: plugin_api and cap :: int and names :: "string list" where
  started: "reaches pa cap names (start_daemon names)"
| stepped: "reaches pa cap names d \<Longrightarrow> daemon_step pa cap d d' \<Longrightarrow> reaches pa cap names d'"

text \<open>The two steps of a goroutine that nothing runs between are \<open>Run\<close>.\<close>

lemma serve_register_Run:
  "serve calls p w = (w1, None) \<Longrightarrow> register pa calls p w1 = (w2, None) \<Longrightarrow>
   Run pa calls p w = (w2, None)"
  by (simp add: Run_def)

section \<open>Sockets belong to plugins that serve\<close>

fun holds_socket :: "string \<Rightarrow> phase \<Rightarrow> bool" where
  "holds_socket path (Listening p) = (pn_socket p = path)"
| "holds_socket path (Serving p) = (pn_socket p = path)"
| "holds_socket path _ = False"

definition socket_held :: "daemon \<Rightarrow> string \<Rightarrow> bool" where
  "socket_held d path \<longleftrightarrow> (\<exists>(name, ph) \<in> set (dm_plugins d). holds_socket path ph)"

definition listens :: "plugin_node \<Rightarrow> string \<Rightarrow> bool" where
  "listens w path \<longleftrightarrow> (\<exists>r. (path, r) \<in> set (no_listeners w))"

text \<open>The invariant: sockets are held, and no goroutine has ended unless the context is cancelled.\<close>

definition daemon_ok :: "daemon \<Rightarrow> bool" where
  "daemon_ok d \<longleftrightarrow>
     (\<forall>path. listens (dm_node d) path \<longrightarrow> socket_held d path) \<and>
     (dm_cancelled d \<or> list_all (\<lambda>(_, ph). ph \<noteq> Ended) (dm_plugins d))"

lemma gdel_pair: "(k', v) \<in> set (gdel m k) \<Longrightarrow> (k', v) \<in> set m \<and> k' \<noteq> k"
  by (auto simp: gdel_def AList.delete_eq)

lemma gput_pair: "(k', v') \<in> set (gput m k v) \<Longrightarrow> (k', v') \<in> set m \<or> k' = k"
  using set_gput_subset [of m k v] by auto

text \<open>A socket stays held when a goroutine moves, unless that one held it and gives it up.\<close>

lemma set_update_keep: "x \<in> set xs \<Longrightarrow> x \<noteq> xs ! i \<Longrightarrow> x \<in> set (xs[i := y])"
  by (induction xs arbitrary: i) (auto split: nat.splits)

lemma socket_held_move:
  assumes "socket_held d path" "i < length (dm_plugins d)" "dm_plugins d ! i = (name, ph)"
    "holds_socket path ph \<Longrightarrow> holds_socket path ph'"
  shows "socket_held (move i ph' w d) path"
proof -
  from assms(1) obtain n q where q: "(n, q) \<in> set (dm_plugins d)" "holds_socket path q"
    by (auto simp: socket_held_def)
  show ?thesis
  proof (cases "(n, q) = (name, ph)")
    case True
    have "(name, ph') \<in> set ((dm_plugins d)[i := (name, ph')])"
      using assms(2) by (rule set_update_memI)
    with True q assms(3,4) show ?thesis by (auto simp: socket_held_def move_def)
  next
    case False
    with q(1) assms(3) have "(n, q) \<in> set ((dm_plugins d)[i := (name, ph')])"
      by (simp add: set_update_keep)
    with q(2) assms(3) show ?thesis by (auto simp: socket_held_def move_def)
  qed
qed

lemma socket_held_moved:
  "i < length (dm_plugins d) \<Longrightarrow> holds_socket path ph \<Longrightarrow> socket_held (move i ph w d) path"
  unfolding socket_held_def move_def
  by (auto intro!: bexI [where x = "(fst (dm_plugins d ! i), ph)"] set_update_memI)

lemma socket_held_cancelled [simp]: "socket_held (d\<lparr>dm_cancelled := c\<rparr>) path = socket_held d path"
  by (simp add: socket_held_def)

lemma list_all_update: "list_all P xs \<Longrightarrow> P y \<Longrightarrow> list_all P (xs[i := y])"
  by (induction xs arbitrary: i) (auto split: nat.splits)

lemma dm_move [simp]:
  "dm_node (move i ph w d) = w" "dm_cancelled (move i ph w d) = dm_cancelled d"
  "dm_plugins (move i ph w d) = (dm_plugins d)[i := (fst (dm_plugins d ! i), ph)]"
  by (simp_all add: move_def)

lemma serve_listeners:
  assumes "serve calls p w = (w', e)" "listens w' path"
  shows "listens w path \<or> path = pn_socket p \<and> e = None"
  using assms by (auto simp: serve_def listens_def Let_def split: option.splits dest!: gdel_pair gput_pair)

lemma register_listeners [simp]: "listens (fst (register pa calls p w)) = listens w"
  by (simp add: register_def listens_def fun_eq_iff split: option.split)

lemma stop_listeners:
  "listens (stop_server p w) path \<Longrightarrow> listens w path \<and> path \<noteq> pn_socket p"
  by (auto simp: stop_server_def listens_def dest!: gdel_pair)

lemma daemon_step_ok: "daemon_step pa cap d d' \<Longrightarrow> daemon_ok d \<Longrightarrow> daemon_ok d'"
proof (induction rule: daemon_step.induct)
  case (serves i d name p calls w)
  then have "socket_held (move i (Listening p) w d) path" if "listens w path" for path
    using serve_listeners [OF serves(4) that]
    by (auto simp: daemon_ok_def intro: socket_held_moved socket_held_move [OF _ serves(1,2)])
  with serves show ?case by (auto simp: daemon_ok_def list_all_update)
next
  case (fails i d name p calls w e)
  then have "socket_held (move i Ended w d) path" if "listens w path" for path
    using serve_listeners [OF fails(4) that]
    by (auto simp: daemon_ok_def intro: socket_held_move [OF _ fails(1,2)])
  then show ?case by (auto simp: daemon_ok_def)
next
  case (registers i d name p calls w)
  have "listens w = listens (dm_node d)"
    using registers(3) register_listeners [of pa calls p "dm_node d"] by simp
  with registers have "socket_held (move i (Serving p) w d) path" if "listens w path" for path
    using that by (auto simp: daemon_ok_def intro: socket_held_move [OF _ registers(1,2)])
  with registers show ?case by (auto simp: daemon_ok_def list_all_update)
next
  case (rejected i d name p calls w e)
  have same: "listens w = listens (dm_node d)"
    using rejected(3) register_listeners [of pa calls p "dm_node d"] by simp
  have "socket_held (move i Ended (stop_server p w) d) path"
    if "listens (stop_server p w) path" for path
    using stop_listeners [OF that] rejected(4)
    by (auto simp: daemon_ok_def same intro: socket_held_move [OF _ rejected(1,2)])
  then show ?case by (auto simp: daemon_ok_def)
next
  case (ends i d name p)
  have "socket_held (move i Ended (stop_server p (dm_node d)) d) path"
    if "listens (stop_server p (dm_node d)) path" for path
    using stop_listeners [OF that] ends(4)
    by (auto simp: daemon_ok_def intro: socket_held_move [OF _ ends(1,2)])
  with ends show ?case by (auto simp: daemon_ok_def Run_cancelled_def)
qed (auto simp: daemon_ok_def)

lemma reaches_ok: "reaches pa cap names d \<Longrightarrow> daemon_ok d"
proof (induction rule: reaches.induct)
  case started
  then show ?case by (simp add: daemon_ok_def listens_def start_daemon_def bare_node_def list_all_iff)
qed (rule daemon_step_ok)

lemma reaches_size: "reaches pa cap names d \<Longrightarrow> length (dm_plugins d) = length names"
  by (induction rule: reaches.induct) (auto simp: start_daemon_def elim: daemon_step.cases)

section \<open>The process stops\<close>

text \<open>The steps the goroutines still have to take.\<close>

fun phase_steps :: "phase \<Rightarrow> nat" where
  "phase_steps Starting = 3" | "phase_steps (Listening _) = 2" | "phase_steps (Serving _) = 1"
| "phase_steps Ended = 0"

definition steps_left :: "daemon \<Rightarrow> nat" where
  "steps_left d = sum_list (map (\<lambda>(_, ph). phase_steps ph) (dm_plugins d)) + (if dm_cancelled d then 0 else 1)"

lemma sum_list_update_less:
  fixes f :: "'a \<Rightarrow> nat"
  shows "i < length xs \<Longrightarrow> f y < f (xs ! i) \<Longrightarrow> sum_list (map f (xs[i := y])) < sum_list (map f xs)"
  by (induction xs arbitrary: i) (auto simp: nth_Cons split: nat.splits)

lemma daemon_step_less: "daemon_step pa cap d d' \<Longrightarrow> steps_left d' < steps_left d"
  by (induction rule: daemon_step.induct)
    (auto simp: steps_left_def intro!: sum_list_update_less less_SucI)

lemma daemon_steps_less: "(daemon_step pa cap ^^ k) d d' \<Longrightarrow> steps_left d' + k \<le> steps_left d"
proof (induction k arbitrary: d')
  case (Suc k)
  then obtain d1 where "(daemon_step pa cap ^^ k) d d1" "daemon_step pa cap d1 d'" by auto
  with Suc.IH daemon_step_less [of pa cap d1 d'] show ?case by fastforce
qed simp

lemma steps_left_bound: "steps_left d \<le> 3 * length (dm_plugins d) + 1"
proof -
  have three: "phase_steps ph \<le> 3" for ph by (cases ph) simp_all
  have "sum_list (map (\<lambda>(_, ph). phase_steps ph) xs) \<le> 3 * length xs" for xs :: "(string \<times> phase) list"
  proof (induction xs)
    case (Cons x xs)
    with add_mono [OF three [of "snd x"] Cons.IH] show ?case by (simp add: split_beta)
  qed simp
  then show ?thesis by (simp add: steps_left_def le_SucI)
qed

text \<open>The capacity \<open>main\<close> starts the plugins with is positive, so each can be built.\<close>

lemma plugin_capacity_positive: "0 < plugin_capacity getenv"
  by (simp add: plugin_capacity_def Let_def split: option.split)

lemma NewPlugin_positive: "0 < cap \<Longrightarrow> \<exists>p. NewPlugin pa name cap = Some p"
  by (simp add: NewPlugin_def Let_def)

lemma not_stuck:
  assumes "0 < cap" "dm_cancelled d" "\<not> main_returns d"
  shows "\<exists>d'. daemon_step pa cap d d'"
proof -
  from assms(2,3) obtain i name ph
    where i: "i < length (dm_plugins d)" "dm_plugins d ! i = (name, ph)" "ph \<noteq> Ended"
    by (auto simp: main_returns_def list_all_iff in_set_conv_nth split: if_splits)
  show ?thesis
  proof (cases ph)
    case Starting
    obtain p where p: "NewPlugin pa name cap = Some p" using NewPlugin_positive [OF assms(1)] by blast
    obtain w e where run: "serve working p (dm_node d) = (w, e)" by fastforce
    show ?thesis
      using serves [OF i(1) i(2) [unfolded Starting] p, of working w]
        fails [OF i(1) i(2) [unfolded Starting] p, of working w] run
      by (cases e) blast+
  next
    case (Listening p)
    obtain w e where run: "register pa working p (dm_node d) = (w, e)" by fastforce
    show ?thesis
      using registers [OF i(1) i(2) [unfolded Listening], of pa working w]
        rejected [OF i(1) i(2) [unfolded Listening], of pa working w] run
      by (cases e) blast+
  next
    case (Serving p)
    with ends [OF i(1) _ assms(2)] i(2) show ?thesis by blast
  qed (use i in simp)
qed

text \<open>
  C31: the device plugin's process stops and cleans up. From every state it can be in it takes at
  most three steps for each resource and one more, in whatever order its goroutines run and
  whichever system calls fail; it cannot get stuck once it is told to stop or one of its plugins
  has failed; it ends only then; and when it has ended none of its sockets is left.
\<close>
theorem daemon_stops:
  assumes "reaches pa (plugin_capacity getenv) names d"
  shows "((daemon_step pa (plugin_capacity getenv) ^^ k) d d' \<longrightarrow> k \<le> 3 * length names + 1) \<and>
    (dm_cancelled d \<longrightarrow> main_returns d \<or> (\<exists>d'. daemon_step pa (plugin_capacity getenv) d d')) \<and>
    (main_returns d \<longrightarrow> dm_cancelled d \<and> no_listeners (dm_node d) = [])"
proof (intro conjI impI)
  assume "(daemon_step pa (plugin_capacity getenv) ^^ k) d d'"
  then show "k \<le> 3 * length names + 1"
    using daemon_steps_less steps_left_bound [of d] reaches_size [OF assms] by fastforce
next
  assume "dm_cancelled d"
  with not_stuck [OF plugin_capacity_positive]
  show "main_returns d \<or> (\<exists>d'. daemon_step pa (plugin_capacity getenv) d d')" by blast
next
  assume "main_returns d"
  with reaches_ok [OF assms] show "dm_cancelled d"
    by (cases "dm_plugins d") (auto simp: daemon_ok_def main_returns_def)
next
  assume "main_returns d"
  with reaches_ok [OF assms] have "\<not> socket_held d path" for path
    by (auto simp: main_returns_def socket_held_def list_all_iff split: if_splits)
  with reaches_ok [OF assms] have "\<not> listens (dm_node d) path" for path
    by (auto simp: daemon_ok_def)
  then show "no_listeners (dm_node d) = []"
    by (cases "no_listeners (dm_node d)") (auto simp: listens_def)
qed

text \<open>One resource with two devices: it is served and registered, a signal arrives, it ends.\<close>

definition small_env :: "string \<Rightarrow> string" where
  "small_env v = (if v = ''FLUENCE_RESOURCE_CAPACITY'' then ''2'' else [])"

definition small_plugin :: plugin where
  "small_plugin = the (NewPlugin node_api ''qpu'' (plugin_capacity small_env))"

definition small_run :: "daemon list" where
  "small_run =
     (let d0 = start_daemon [''qpu''];
          d1 = move 0 (Listening small_plugin) (fst (serve working small_plugin (dm_node d0))) d0;
          d2 = move 0 (Serving small_plugin) (fst (register node_api working small_plugin (dm_node d1))) d1;
          d3 = d2\<lparr>dm_cancelled := True\<rparr>;
          d4 = move 0 Ended (fst (Run_cancelled small_plugin (dm_node d3))) d3
      in [d0, d1, d2, d3, d4])"

lemma small_run_reaches: "reaches node_api (plugin_capacity small_env) [''qpu''] (small_run ! 4)"
proof -
  have p: "NewPlugin node_api ''qpu'' (plugin_capacity small_env) = Some small_plugin"
    using NewPlugin_positive [OF plugin_capacity_positive, of node_api "''qpu''" small_env]
    by (auto simp: small_plugin_def)
  let ?R = "reaches node_api (plugin_capacity small_env) [''qpu'']"
  define d0 where "d0 = start_daemon [''qpu'']"
  define d1 where "d1 = move 0 (Listening small_plugin) (fst (serve working small_plugin (dm_node d0))) d0"
  define d2 where "d2 = move 0 (Serving small_plugin) (fst (register node_api working small_plugin (dm_node d1))) d1"
  define d3 where "d3 = d2\<lparr>dm_cancelled := True\<rparr>"
  have ok: "serve working small_plugin w = (fst (serve working small_plugin w), None)"
    "register node_api working small_plugin w = (fst (register node_api working small_plugin w), None)" for w
    by (simp_all add: serve_def register_def working_def Let_def)
  have "?R d0" unfolding d0_def by (rule started)
  then have "?R d1" unfolding d1_def
    by (rule stepped) (rule serves [OF _ _ p ok(1)], auto simp: d0_def start_daemon_def)
  then have "?R d2" unfolding d2_def
    by (rule stepped) (rule registers [OF _ _ ok(2)], auto simp: d1_def d0_def start_daemon_def)
  then have "?R d3" unfolding d3_def
    by (rule stepped) (rule signalled, simp add: d2_def d1_def d0_def start_daemon_def)
  then have "?R (move 0 Ended (fst (Run_cancelled small_plugin (dm_node d3))) d3)"
    by (rule stepped) (rule ends, auto simp: d3_def d2_def d1_def d0_def start_daemon_def)
  then show ?thesis
    by (simp add: small_run_def Let_def d3_def d2_def d1_def d0_def)
qed

theorem daemon_stops_witness:
  "main_returns (small_run ! 4) \<and> dm_cancelled (small_run ! 4) \<and>
   no_listeners (dm_node (small_run ! 4)) = [] \<and> length (no_registered (dm_node (small_run ! 4))) = 1 \<and>
   length (no_listeners (dm_node (small_run ! 1))) = 1"
proof -
  have "main_returns (small_run ! 4)" by code_simp
  with daemon_stops [OF small_run_reaches] have
    "main_returns (small_run ! 4) \<and> dm_cancelled (small_run ! 4) \<and> no_listeners (dm_node (small_run ! 4)) = []"
    by blast
  moreover have "length (no_registered (dm_node (small_run ! 4))) = 1"
    "length (no_listeners (dm_node (small_run ! 1))) = 1" by code_simp+
  ultimately show ?thesis by blast
qed

end
