(* ===== verification/Json_Parse.thy ===== *)
theory Json_Parse
  imports Go_Json
begin

text \<open>
  Reading JSON text, as \<open>encoding/json\<close> reads it: white space, string escapes (surrogate
  pairs included; ill-formed UTF-8 becomes U+FFFD), numbers, and values nested to any depth. A
  parser takes the text and returns the value with the text that is left, or None for a syntax
  error. The recursion is bounded by fuel; \<open>json_parse\<close> gives twice the length of the text,
  which is always enough (\<open>parse_more_fuel\<close>).

  The main result is the round trip: what \<open>json_compact\<close> and \<open>json_indent\<close> write is
  read as the value they wrote, when its strings are well-formed UTF-8.
\<close>

section \<open>Strings\<close>

definition hex_val :: "char \<Rightarrow> nat option" where
  "hex_val c =
     (let b = of_char c :: nat in
      if 48 \<le> b \<and> b \<le> 57 then Some (b - 48)
      else if 97 \<le> b \<and> b \<le> 102 then Some (b - 87)
      else if 65 \<le> b \<and> b \<le> 70 then Some (b - 55)
      else None)"

text \<open>\<open>getu4\<close> without the leading backslash and u.\<close>

fun hex4 :: "string \<Rightarrow> nat option" where
  "hex4 (a # b # c # d # _) =
     (case (hex_val a, hex_val b, hex_val c, hex_val d) of
        (Some w, Some x, Some y, Some z) \<Rightarrow> Some (w * 4096 + x * 256 + y * 16 + z)
      | _ \<Rightarrow> None)"
| "hex4 _ = None"

definition utf8_encode :: "nat \<Rightarrow> string" where
  "utf8_encode r = map char_of
     (if r < 128 then [r]
      else if r < 2048 then [192 + r div 64, 128 + r mod 64]
      else if r < 65536 then [224 + r div 4096, 128 + r div 64 mod 64, 128 + r mod 64]
      else [240 + r div 262144, 128 + r div 4096 mod 64, 128 + r div 64 mod 64, 128 + r mod 64])"

definition replacement :: string where
  "replacement = utf8_encode 65533"

text \<open>The escape after a backslash and u: a pair of surrogates is one rune, a lone one U+FFFD.\<close>

definition unescape_unicode :: "string \<Rightarrow> (string \<times> nat) option" where
  "unescape_unicode cs =
     (case hex4 cs of
        None \<Rightarrow> None
      | Some r \<Rightarrow>
          if r < 55296 \<or> 57343 < r then Some (utf8_encode r, 4)
          else if take 2 (drop 4 cs) = [backslash, CHR ''u''] then
            (case hex4 (drop 6 cs) of
               None \<Rightarrow> None
             | Some r2 \<Rightarrow>
                 if r < 56320 \<and> 56320 \<le> r2 \<and> r2 \<le> 57343
                 then Some (utf8_encode ((r - 55296) * 1024 + (r2 - 56320) + 65536), 10)
                 else Some (replacement, 4))
          else Some (replacement, 4))"

text \<open>What an escape stands for and how many characters after the backslash it has.\<close>

definition unescape :: "string \<Rightarrow> (string \<times> nat) option" where
  "unescape cs =
     (case cs of
        [] \<Rightarrow> None
      | c # r \<Rightarrow>
          if c = dquote \<or> c = backslash \<or> c = CHR ''/'' then Some ([c], 1)
          else if c = CHR ''b'' then Some ([char_of (8 :: nat)], 1)
          else if c = CHR ''f'' then Some ([char_of (12 :: nat)], 1)
          else if c = CHR ''n'' then Some ([newline], 1)
          else if c = CHR ''r'' then Some ([char_of (13 :: nat)], 1)
          else if c = CHR ''t'' then Some ([char_of (9 :: nat)], 1)
          else if c = CHR ''u'' then map_option (\<lambda>(s, n). (s, Suc n)) (unescape_unicode r)
          else None)"

text \<open>The body of a string after its opening quote, up to and with the closing one.\<close>

fun parse_chars :: "string \<Rightarrow> (string \<times> string) option" where
  "parse_chars [] = None"
| "parse_chars (c # cs) =
     (if c = dquote then Some ([], cs)
      else if (of_char c :: nat) < 32 then None
      else if c = backslash then
        (case unescape cs of
           None \<Rightarrow> None
         | Some (s, n) \<Rightarrow> map_option (\<lambda>(t, r). (s @ t, r)) (parse_chars (drop n cs)))
      else
        (case decode_rune (of_char c) (map of_char cs) of (r, n) \<Rightarrow>
           map_option (\<lambda>(t, rest). ((if r = 65533 \<and> n = 0 then replacement else c # take n cs) @ t, rest))
             (parse_chars (drop n cs))))"

section \<open>Numbers\<close>

fun span :: "('a \<Rightarrow> bool) \<Rightarrow> 'a list \<Rightarrow> 'a list \<times> 'a list" where
  "span P [] = ([], [])"
| "span P (x # xs) = (if P x then (case span P xs of (a, b) \<Rightarrow> (x # a, b)) else ([], x # xs))"

text \<open>
  A number is an optional sign, digits without a leading zero, and optionally a fraction and
  an exponent.
\<close>

definition parse_fraction :: "string \<Rightarrow> (string \<times> string) option" where
  "parse_fraction s =
     (if s \<noteq> [] \<and> hd s = CHR ''.'' then
        (case span is_digit (tl s) of (ds, r) \<Rightarrow>
           if ds = [] then None else Some (CHR ''.'' # ds, r))
      else Some ([], s))"

definition parse_exponent :: "string \<Rightarrow> (string \<times> string) option" where
  "parse_exponent s =
     (if s \<noteq> [] \<and> hd s \<in> {CHR ''e'', CHR ''E''} then
        (let sg = (if tl s \<noteq> [] \<and> hd (tl s) \<in> {CHR ''+'', CHR ''-''} then take 1 (tl s) else []) in
         case span is_digit (drop (length sg) (tl s)) of (ds, r) \<Rightarrow>
           if ds = [] then None else Some (hd s # sg @ ds, r))
      else Some ([], s))"

definition parse_number :: "string \<Rightarrow> (jval \<times> string) option" where
  "parse_number s =
     (let neg = (s \<noteq> [] \<and> hd s = CHR ''-'') in
      case span is_digit (if neg then tl s else s) of (ds, r) \<Rightarrow>
        if ds = [] \<or> (hd ds = CHR ''0'' \<and> tl ds \<noteq> []) then None
        else case parse_fraction r of
            None \<Rightarrow> None
          | Some (fr, r1) \<Rightarrow>
              (case parse_exponent r1 of
                 None \<Rightarrow> None
               | Some (ex, r2) \<Rightarrow>
                   if fr = [] \<and> ex = [] then
                     (case digits_acc 0 ds of
                        None \<Rightarrow> None
                      | Some n \<Rightarrow> Some (JInt (if neg then - int n else int n), r2))
                   else Some (JNum ((if neg then [CHR ''-''] else []) @ ds @ fr @ ex), r2)))"

section \<open>Values\<close>

definition is_json_space :: "char \<Rightarrow> bool" where
  "is_json_space c \<longleftrightarrow> of_char c \<in> {9, 10, 13, 32 :: nat}"

definition skip_ws :: "string \<Rightarrow> string" where
  "skip_ws s = dropWhile is_json_space s"

text \<open>The text after white space and the given character.\<close>

definition expect :: "char \<Rightarrow> string \<Rightarrow> string option" where
  "expect c s = (case skip_ws s of [] \<Rightarrow> None | d # r \<Rightarrow> if d = c then Some r else None)"

definition literal :: "string \<Rightarrow> jval \<Rightarrow> string \<Rightarrow> (jval \<times> string) option" where
  "literal l v s = (if has_prefix s l then Some (v, drop (length l) s) else None)"

fun parse_value :: "nat \<Rightarrow> string \<Rightarrow> (jval \<times> string) option"
and parse_elems :: "nat \<Rightarrow> string \<Rightarrow> (jval list \<times> string) option"
and parse_fields :: "nat \<Rightarrow> string \<Rightarrow> ((string \<times> jval) list \<times> string) option" where
  "parse_value 0 s = None"
| "parse_value (Suc n) s =
     (case skip_ws s of
        [] \<Rightarrow> None
      | c # r \<Rightarrow>
          if c = CHR ''{'' then
            (case expect (CHR ''}'') r of
               Some r' \<Rightarrow> Some (JObj [], r')
             | None \<Rightarrow> map_option (\<lambda>(fs, r'). (JObj fs, r')) (parse_fields n r))
          else if c = CHR ''['' then
            (case expect (CHR '']'') r of
               Some r' \<Rightarrow> Some (JArr [], r')
             | None \<Rightarrow> map_option (\<lambda>(vs, r'). (JArr vs, r')) (parse_elems n r))
          else if c = dquote then map_option (\<lambda>(s, r'). (JStr s, r')) (parse_chars r)
          else if c = CHR ''n'' then literal ''null'' JNull (c # r)
          else if c = CHR ''t'' then literal ''true'' (JBool True) (c # r)
          else if c = CHR ''f'' then literal ''false'' (JBool False) (c # r)
          else parse_number (c # r))"
| "parse_elems 0 s = None"
| "parse_elems (Suc n) s =
     (case parse_value n s of
        None \<Rightarrow> None
      | Some (v, r) \<Rightarrow>
          (case expect (CHR '','') r of
             Some r' \<Rightarrow> map_option (\<lambda>(vs, q). (v # vs, q)) (parse_elems n r')
           | None \<Rightarrow> map_option (\<lambda>q. ([v], q)) (expect (CHR '']'') r)))"
| "parse_fields 0 s = None"
| "parse_fields (Suc n) s =
     (case Option.bind (expect dquote s) parse_chars of
        None \<Rightarrow> None
      | Some (k, r) \<Rightarrow>
          (case Option.bind (expect (CHR '':'') r) (parse_value n) of
             None \<Rightarrow> None
           | Some (v, r2) \<Rightarrow>
               (case expect (CHR '','') r2 of
                  Some r' \<Rightarrow> map_option (\<lambda>(fs, q). ((k, v) # fs, q)) (parse_fields n r')
                | None \<Rightarrow> map_option (\<lambda>q. ([(k, v)], q)) (expect (CHR ''}'') r2))))"

text \<open>A text is one value and white space. Every value costs one unit and so does every element.\<close>

definition json_parse :: "string \<Rightarrow> jval option" where
  "json_parse s =
     (case parse_value (2 * length s + 2) s of
        None \<Rightarrow> None
      | Some (v, r) \<Rightarrow> if skip_ws r = [] then Some v else None)"

section \<open>The escape is undone\<close>

text \<open>Well-formed UTF-8: no byte that decodes to U+FFFD of width one.\<close>

fun utf8_bytes :: "nat list \<Rightarrow> bool" where
  "utf8_bytes [] \<longleftrightarrow> True"
| "utf8_bytes (b # bs) \<longleftrightarrow>
     (case decode_rune b bs of (r, n) \<Rightarrow> \<not> (128 \<le> b \<and> n = 0) \<and> utf8_bytes (drop n bs))"

definition utf8_ok :: "string \<Rightarrow> bool" where
  "utf8_ok s \<longleftrightarrow> utf8_bytes (map of_char s)"

lemma utf8_ok_ascii: "\<forall>c \<in> set s. (of_char c :: nat) < 128 \<Longrightarrow> utf8_ok s"
  unfolding utf8_ok_def by (induction s) (auto simp: decode_rune_def)

lemma utf8_lead_cases:
  assumes "utf8_lead b = (n, lo, hi, bits)" "n \<noteq> 0"
  obtains "n = 1" "lo = 128" "hi = 191" "bits = b - 192" "194 \<le> b" "b \<le> 223"
  | "n = 2" "lo = 160" "bits = 0" "hi = 191" "b = 224"
  | "n = 2" "lo = 128" "bits = b - 224" "hi \<le> 191" "225 \<le> b" "b \<le> 239" "b = 237 \<longrightarrow> hi \<le> 159"
  | "n = 3" "lo = 144" "bits = 0" "hi = 191" "b = 240"
  | "n = 3" "lo = 128" "bits = b - 240" "hi \<le> 191" "241 \<le> b" "b \<le> 244"
  using assms unfolding utf8_lead_def by (auto split: if_splits)

lemma decode_rune_wide:
  assumes "decode_rune b bs = (r, n)" "n \<noteq> 0"
  obtains lo hi bits where "128 \<le> b" "utf8_lead b = (n, lo, hi, bits)" "n \<le> length bs"
    "lo \<le> hd (take n bs)" "hd (take n bs) \<le> hi" "list_all (\<lambda>c. 128 \<le> c \<and> c \<le> 191) (tl (take n bs))"
    "r = foldl (\<lambda>a c. a * 64 + (c - 128)) bits (take n bs)"
  using assms unfolding decode_rune_def
  by (auto simp: Let_def split: if_splits prod.splits)

text \<open>A rune of several bytes is decoded from those bytes alone.\<close>

lemma decode_rune_local:
  assumes "decode_rune b bs = (r, n)" "n \<noteq> 0"
  shows "decode_rune b (take n bs @ cs) = (r, n)"
  using assms by (elim decode_rune_wide) (auto simp: decode_rune_def Let_def)

lemma list_upto_3:
  assumes "n \<le> length xs"
  shows "n = 1 \<Longrightarrow> \<exists>x. take n xs = [x]" "n = 2 \<Longrightarrow> \<exists>x y. take n xs = [x, y]"
    "n = 3 \<Longrightarrow> \<exists>x y z. take n xs = [x, y, z]"
  using assms by (auto simp: numeral_eq_Suc Suc_le_length_iff)

lemma decode_rune_bytes:
  assumes "decode_rune b bs = (r, n)" "n \<noteq> 0"
  obtains (two) x where "n = 1" "take n bs = [x]" "194 \<le> b" "b \<le> 223" "128 \<le> x" "x \<le> 191"
      "r = (b - 192) * 64 + (x - 128)"
  | (three) x y where "n = 2" "take n bs = [x, y]" "224 \<le> b" "b \<le> 239" "128 \<le> x" "x \<le> 191"
      "128 \<le> y" "y \<le> 191" "b = 224 \<longrightarrow> 160 \<le> x" "b = 237 \<longrightarrow> x \<le> 159" "r = ((b - 224) * 64 + (x - 128)) * 64 + (y - 128)"
  | (four) x y z where "n = 3" "take n bs = [x, y, z]" "240 \<le> b" "b \<le> 244" "128 \<le> x" "x \<le> 191"
      "b = 240 \<longrightarrow> 144 \<le> x"
      "r = (((b - 240) * 64 + (x - 128)) * 64 + (y - 128)) * 64 + (z - 128)"
  using assms
proof (elim decode_rune_wide)
  fix lo hi bits
  assume lead: "utf8_lead b = (n, lo, hi, bits)" and len: "n \<le> length bs"
    and rest: "lo \<le> hd (take n bs)" "hd (take n bs) \<le> hi"
      "list_all (\<lambda>c. 128 \<le> c \<and> c \<le> 191) (tl (take n bs))"
      "r = foldl (\<lambda>a c. a * 64 + (c - 128)) bits (take n bs)"
  define t where "t = take n bs"
  note rest = rest [folded t_def] and known = two [folded t_def] three [folded t_def] four [folded t_def]
  from lead assms(2) show thesis
  proof (cases rule: utf8_lead_cases)
    case 1
    with list_upto_3(1) [OF len] obtain x where "t = [x]" unfolding t_def by blast
    with 1 rest known(1) show thesis by simp
  next
    case 2
    with list_upto_3(2) [OF len] obtain x y where "t = [x, y]" unfolding t_def by blast
    with 2 rest known(2) show thesis by simp
  next
    case 3
    with list_upto_3(2) [OF len] obtain x y where "t = [x, y]" unfolding t_def by blast
    with 3 rest known(2) show thesis by (cases "b = 237") simp_all
  next
    case 4
    with list_upto_3(3) [OF len] obtain x y z where "t = [x, y, z]" unfolding t_def by blast
    with 4 rest known(3) show thesis by simp
  next
    case 5
    with list_upto_3(3) [OF len] obtain x y z where "t = [x, y, z]" unfolding t_def by blast
    with 5 rest known(3) show thesis by simp
  qed
qed

lemma decode_rune_big:
  assumes "decode_rune b bs = (r, n)" "n \<noteq> 0"
  shows "128 \<le> r" "128 \<le> b" "b < 256"
  using assms by (auto elim!: decode_rune_bytes)

text \<open>The two separators the encoder escapes have the bytes E2 80 A8 and E2 80 A9.\<close>

lemma decode_rune_separator:
  assumes "decode_rune b bs = (r, n)" "n \<noteq> 0" "r = 8232 \<or> r = 8233"
  shows "b # take n bs = [226, 128, r - 8064]"
  using assms(1,2)
proof (cases rule: decode_rune_bytes)
  case two
  with assms(3) show ?thesis by auto
next
  case (three x y)
  have "8232 \<le> r" "r \<le> 8233" using assms(3) by auto
  have parts: "y - 128 \<le> 63" "x - 128 \<le> 63" using three by auto
  have "r = (b - 224) * 4096 + (x - 128) * 64 + (y - 128)" using three by (simp add: algebra_simps)
  note sum = this [symmetric] \<open>8232 \<le> r\<close> \<open>r \<le> 8233\<close> parts
  have "b - 224 \<le> 2" using sum by linarith
  moreover have "2 \<le> b - 224" using sum by linarith
  ultimately have "b - 224 = 2" by simp
  moreover have "x - 128 = 0" using sum calculation by linarith
  ultimately show ?thesis using three by auto
next
  case (four x y z)
  have "16 \<le> (b - 240) * 64 + (x - 128)"
    using four by (cases "b = 240") auto
  from mult_le_mono1 [OF mult_le_mono1 [OF this, of 64], of 64]
  have "65536 \<le> r" using four by simp
  with assms(3) show ?thesis by auto
qed

text \<open>Four hexadecimal digits.\<close>

lemma hex_val_digit [simp]: "d < 16 \<Longrightarrow> hex_val (hex_digit d) = Some d"
  by (auto simp: hex_val_def hex_digit_def Let_def)

lemma utf8_encode_ascii: "r < 128 \<Longrightarrow> utf8_encode r = [char_of r]"
  by (simp add: utf8_encode_def)

lemma unescape_ascii:
  assumes "r < 128"
  shows "unescape (CHR ''u'' # CHR ''0'' # CHR ''0'' # hex_digit (r div 16) # hex_digit (r mod 16) # cs)
    = Some ([char_of r], 5)"
proof -
  have zero: "hex_val (CHR ''0'') = Some 0" by (simp add: hex_val_def)
  have "r div 16 < 16" and "r mod 16 < 16" using assms by auto
  then show ?thesis
    using assms
    by (simp add: unescape_def unescape_unicode_def zero utf8_encode_ascii dquote_def backslash_def)
qed

lemma unescape_separator:
  "unescape (''u2028'' @ cs) = Some (map char_of [226, 128, 168 :: nat], 5)"
  "unescape (''u2029'' @ cs) = Some (map char_of [226, 128, 169 :: nat], 5)"
  by (simp_all add: unescape_def unescape_unicode_def hex_val_def utf8_encode_def dquote_def
      backslash_def)

lemma parse_escape: "unescape cs = Some (s, n) \<Longrightarrow>
    parse_chars (backslash # cs) = map_option (\<lambda>(t, r). (s @ t, r)) (parse_chars (drop n cs))"
  by (simp add: backslash_def dquote_def)

lemma parse_copied:
  assumes "decode_rune b bs = (r, n)" "32 \<le> b" "b < 256" "b \<noteq> 34" "b \<noteq> 92" "\<not> (128 \<le> b \<and> n = 0)"
    and "\<forall>c \<in> set bs. c < 256"
  shows "parse_chars (map char_of (b # take n bs) @ cs)
    = map_option (\<lambda>(t, q). (map char_of (b # take n bs) @ t, q)) (parse_chars cs)"
proof -
  have code: "map of_char (map char_of (take n bs) :: string) = take n bs"
    using assms(7) by (auto intro!: map_idI dest: in_set_takeD)
  have len: "n \<le> length bs" if "n \<noteq> 0"
    using assms(1) that by (elim decode_rune_wide)
  have "decode_rune b (take n bs @ map of_char cs) = (r, n)"
    using assms(1) decode_rune_local [OF assms(1)] assms(6)
    by (cases "n = 0") (auto simp: decode_rune_def)
  moreover have "char_of b \<noteq> dquote" and "char_of b \<noteq> backslash"
    using assms(3-5) by (auto simp: dquote_def backslash_def char_of_eq_iff take_bit_nat_eq_self)
  ultimately show ?thesis
    using assms(2,3,6) len code decode_rune_big [OF assms(1)]
    by (cases "n = 0") (auto simp: decode_rune_def)
qed

lemma char_of_codes: "char_of (92 :: nat) = backslash" "char_of (34 :: nat) = dquote"
  "char_of (10 :: nat) = newline"
  by (simp_all add: backslash_def dquote_def newline_def char_of_eq_iff)

lemma unescape_letters:
  "unescape (backslash # cs) = Some ([char_of (92 :: nat)], 1)"
  "unescape (dquote # cs) = Some ([char_of (34 :: nat)], 1)"
  "unescape (CHR ''b'' # cs) = Some ([char_of (8 :: nat)], 1)"
  "unescape (CHR ''t'' # cs) = Some ([char_of (9 :: nat)], 1)"
  "unescape (CHR ''n'' # cs) = Some ([char_of (10 :: nat)], 1)"
  "unescape (CHR ''f'' # cs) = Some ([char_of (12 :: nat)], 1)"
  "unescape (CHR ''r'' # cs) = Some ([char_of (13 :: nat)], 1)"
  by (simp_all add: unescape_def char_of_codes) (simp_all add: dquote_def backslash_def)

lemma escape_rune_letters:
  "escape_rune 92 bs = [backslash, backslash]" "escape_rune 34 bs = [backslash, dquote]"
  "escape_rune 8 bs = [backslash, CHR ''b'']" "escape_rune 9 bs = [backslash, CHR ''t'']"
  "escape_rune 10 bs = [backslash, CHR ''n'']" "escape_rune 12 bs = [backslash, CHR ''f'']"
  "escape_rune 13 bs = [backslash, CHR ''r'']"
  by (simp_all add: escape_rune_def char_of_codes)

lemma parse_escape_rune:
  assumes decoded: "decode_rune b bs = (r, n)" and byte: "b < 256" and ok: "\<not> (128 \<le> b \<and> n = 0)"
    and bytes: "\<forall>c \<in> set bs. c < 256"
  shows "parse_chars (escape_rune r (b # take n bs) @ cs)
    = map_option (\<lambda>(t, q). (map char_of (b # take n bs) @ t, q)) (parse_chars cs)"
proof (cases "n = 0")
  case True
  with ok have b: "b < 128" by simp
  with decoded have r: "r = b" by (simp add: decode_rune_def)
  consider (special) "b \<in> {34, 92, 8, 9, 10, 12, 13}"
    | (control) "b \<notin> {34, 92, 8, 9, 10, 12, 13}" "b < 32 \<or> b = 38 \<or> b = 60 \<or> b = 62"
    | (plain) "b \<notin> {34, 92, 8, 9, 10, 12, 13}" "\<not> (b < 32 \<or> b = 38 \<or> b = 60 \<or> b = 62)"
    by blast
  then show ?thesis
  proof cases
    case special
    then show ?thesis
      unfolding r True
      by (elim insertE) (simp_all add: escape_rune_letters parse_escape [OF unescape_letters(1)]
          parse_escape [OF unescape_letters(2)] parse_escape [OF unescape_letters(3)]
          parse_escape [OF unescape_letters(4)] parse_escape [OF unescape_letters(5)]
          parse_escape [OF unescape_letters(6)] parse_escape [OF unescape_letters(7)]
          del: parse_chars.simps)
  next
    case control
    then have "escape_rune r (b # take n bs) = backslash # CHR ''u'' # CHR ''0'' # CHR ''0'' #
        [hex_digit (b div 16), hex_digit (b mod 16)]"
      unfolding r escape_rune_def by auto
    with parse_escape [OF unescape_ascii [OF b]] True show ?thesis by simp
  next
    case plain
    then have "escape_rune r (b # take n bs) = map char_of (b # take n bs)"
      using b unfolding r True escape_rune_def by auto
    with parse_copied [OF decoded _ byte _ _ ok bytes] plain show ?thesis by auto
  qed
next
  case False
  note big = decode_rune_big [OF decoded False]
  have len: "n \<le> length bs" using decoded False by (elim decode_rune_wide)
  show ?thesis
  proof (cases "r = 8232 \<or> r = 8233")
    case True
    with decode_rune_separator [OF decoded False] have "b # take n bs = [226, 128, r - 8064]" by simp
    with True show ?thesis
      using parse_escape [OF unescape_separator(1)] parse_escape [OF unescape_separator(2)]
      by (auto simp: escape_rune_def)
  next
    case other: False
    have "length (b # take n bs) \<noteq> 1" using len False by simp
    with big other have "escape_rune r (b # take n bs) = map char_of (b # take n bs)"
      unfolding escape_rune_def by (auto simp del: list.size length_take)
    with parse_copied [OF decoded _ byte _ _ ok bytes] big show ?thesis by auto
  qed
qed

lemma parse_escape_bytes:
  "utf8_bytes bs \<Longrightarrow> \<forall>c \<in> set bs. c < 256 \<Longrightarrow>
   parse_chars (escape_bytes bs @ dquote # cs) = Some (map char_of bs, cs)"
proof (induction bs rule: escape_bytes.induct)
  case 1
  then show ?case by simp
next
  case (2 b bs)
  obtain r n where d: "decode_rune b bs = (r, n)" by force
  with "2.prems" have "utf8_bytes (drop n bs)" and ok: "\<not> (128 \<le> b \<and> n = 0)" by simp_all
  moreover have "\<forall>c \<in> set (drop n bs). c < 256" using "2.prems"(2) by (auto dest: in_set_dropD)
  ultimately have rest: "parse_chars (escape_bytes (drop n bs) @ dquote # cs) = Some (map char_of (drop n bs), cs)"
    using "2.IH" [OF d [symmetric]] by blast
  have "parse_chars (escape_rune r (b # take n bs) @ escape_bytes (drop n bs) @ dquote # cs)
      = Some (map char_of (b # take n bs) @ map char_of (drop n bs), cs)"
    using "2.prems"(2) by (subst parse_escape_rune [OF d _ ok]) (auto simp: rest)
  moreover have "map char_of (b # take n bs) @ map char_of (drop n bs) = (map char_of (b # bs) :: string)"
    by (metis append_Cons append_take_drop_id map_append)
  ultimately show ?case by (simp add: d)
qed

lemma parse_json_string: "utf8_ok s \<Longrightarrow> parse_chars (tl (json_string s) @ cs) = Some (s, cs)"
  unfolding json_string_def utf8_ok_def
  by (simp add: parse_escape_bytes comp_def)

section \<open>Fuel\<close>

text \<open>A parser leaves a proper end of its text.\<close>

lemma expect_shorter: "expect c s = Some r \<Longrightarrow> length r < length s"
  using length_dropWhile_le [of is_json_space s]
  by (auto simp: expect_def skip_ws_def split: list.splits if_splits)

lemma parse_chars_shorter: "parse_chars s = Some (t, r) \<Longrightarrow> length r < length s"
proof (induction s arbitrary: t rule: parse_chars.induct)
  case (2 c cs)
  then show ?case
    by (fastforce split: if_splits option.splits prod.splits)
qed simp

lemma span_append: "span P s = (a, b) \<Longrightarrow> s = a @ b"
  by (induction s arbitrary: a) (auto split: if_splits prod.splits)

lemma parse_fraction_shorter: "parse_fraction s = Some (t, r) \<Longrightarrow> length r \<le> length s"
  by (cases s) (auto simp: parse_fraction_def dest!: span_append split: if_splits prod.splits)

lemma parse_exponent_shorter: "parse_exponent s = Some (t, r) \<Longrightarrow> length r \<le> length s"
  by (cases s; cases "tl s")
    (auto simp: parse_exponent_def Let_def dest!: span_append split: if_splits prod.splits)

lemma parse_number_shorter:
  assumes "parse_number s = Some (v, r)"
  shows "length r < length s"
proof -
  obtain ds r0 where sp: "span is_digit (if s \<noteq> [] \<and> hd s = CHR ''-'' then tl s else s) = (ds, r0)"
    by force
  with assms obtain fr r1 ex where "ds \<noteq> []" "parse_fraction r0 = Some (fr, r1)" "parse_exponent r1 = Some (ex, r)"
    by (auto simp: parse_number_def Let_def split: if_splits option.splits prod.splits)
  moreover from this have "length r \<le> length r0"
    by (auto dest!: parse_fraction_shorter parse_exponent_shorter)
  ultimately show ?thesis using span_append [OF sp] by (cases s; cases ds) (auto split: if_splits)
qed

lemma literal_shorter: "l \<noteq> [] \<Longrightarrow> literal l v s = Some (w, r) \<Longrightarrow> length r < length s"
  by (cases s) (auto simp: literal_def has_prefix_def split: if_splits)

lemma skip_ws_length: "length (skip_ws s) \<le> length s"
  by (simp add: skip_ws_def length_dropWhile_le)

lemma parse_shorter:
  "parse_value n s = Some (v, r) \<Longrightarrow> length r < length s"
  "parse_elems n s = Some (vs, r) \<Longrightarrow> length r < length s"
  "parse_fields n s = Some (fs, r) \<Longrightarrow> length r < length s"
proof (induction n s and n s and n s arbitrary: v r and vs r and fs r
    rule: parse_value_parse_elems_parse_fields.induct)
  case (2 n s)
  obtain c q where q: "skip_ws s = c # q"
    using "2.prems" by (cases "skip_ws s") auto
  have "length r < length (c # q)"
    using "2.prems" "2.IH"(1) [OF q] "2.IH"(2) [OF q]
    by (auto simp: q dest: expect_shorter parse_chars_shorter parse_number_shorter literal_shorter [rotated]
        split: if_splits option.splits)
  then show ?case using skip_ws_length [of s] q by simp
next
  case (4 n s)
  then show ?case by (fastforce dest: expect_shorter split: option.splits)
next
  case (6 n s)
  then show ?case
    by (fastforce dest: expect_shorter parse_chars_shorter split: option.splits bind_splits)
qed simp_all

text \<open>More fuel than twice the length of the text changes nothing, so None is a syntax error.\<close>

lemma parse_fuel_irrelevant:
  "2 * length s + 1 \<le> n \<Longrightarrow> 2 * length s + 1 \<le> m \<Longrightarrow> parse_value n s = parse_value m s"
  "2 * length s + 2 \<le> n \<Longrightarrow> 2 * length s + 2 \<le> m \<Longrightarrow> parse_elems n s = parse_elems m s"
  "2 * length s + 2 \<le> n \<Longrightarrow> 2 * length s + 2 \<le> m \<Longrightarrow> parse_fields n s = parse_fields m s"
proof (induction n s and n s and n s arbitrary: m and m and m
    rule: parse_value_parse_elems_parse_fields.induct)
  case (2 n s)
  obtain m' where m: "m = Suc m'" using "2.prems"(2) by (cases m) auto
  show ?case
  proof (cases "skip_ws s")
    case Nil
    then show ?thesis by (simp add: m)
  next
    case (Cons c q)
    then have "length s \<ge> Suc (length q)" using skip_ws_length [of s] by simp
    then have bounds: "2 * length q + 2 \<le> n" "2 * length q + 2 \<le> m'" using "2.prems" m by simp_all
    have "parse_fields n q = parse_fields m' q"
      if "c = CHR ''{''" "expect (CHR ''}'') q = None"
      using that bounds by (rule "2.IH"(1) [OF Cons])
    moreover have "parse_elems n q = parse_elems m' q"
      if "c = CHR ''[''" "expect (CHR '']'') q = None"
      using "2.IH"(2) [OF Cons _ that bounds] that by simp
    ultimately show ?thesis unfolding m by (auto simp: Cons split: option.splits)
  qed
next
  case (4 n s)
  obtain m' where m: "m = Suc m'" using "4.prems"(2) by (cases m) auto
  have first: "parse_value n s = parse_value m' s" using "4.prems" m by (intro "4.IH"(1)) auto
  have "parse_elems n q = parse_elems m' q"
    if "parse_value n s = Some (v, r)" "expect (CHR '','') r = Some q" for v r q
    using that "4.prems" m parse_shorter(1) [OF that(1)] expect_shorter [OF that(2)]
    by (intro "4.IH"(2)) auto
  then show ?case
    unfolding m parse_elems.simps first [symmetric] by (auto split: option.splits)
next
  case (6 n s)
  obtain m' where m: "m = Suc m'" using "6.prems"(2) by (cases m) auto
  have val: "parse_value n q = parse_value m' q"
    if "Option.bind (expect dquote s) parse_chars = Some (k, r)" "expect (CHR '':'') r = Some q" for k r q
    using that "6.prems" m expect_shorter [OF that(2)]
    by (intro "6.IH"(1)) (auto dest!: expect_shorter parse_chars_shorter split: bind_splits)
  have rest: "parse_fields n q = parse_fields m' q"
    if "Option.bind (expect dquote s) parse_chars = Some (k, r)"
      "Option.bind (expect (CHR '':'') r) (parse_value n) = Some (v, r2)"
      "expect (CHR '','') r2 = Some q" for k r v r2 q
    using that "6.prems" m expect_shorter [OF that(3)]
    by (intro "6.IH"(2)) (auto dest!: expect_shorter parse_chars_shorter parse_shorter(1) split: bind_splits)
  show ?case
  proof (cases "Option.bind (expect dquote s) parse_chars")
    case None
    then show ?thesis by (simp add: m)
  next
    case (Some kr)
    obtain k r where kr: "kr = (k, r)" by force
    note Some = Some [unfolded kr]
    have "Option.bind (expect (CHR '':'') r) (parse_value n) = Option.bind (expect (CHR '':'') r) (parse_value m')"
      using val [OF Some] by (cases "expect (CHR '':'') r") auto
    with rest [OF Some] show ?thesis
      unfolding m parse_fields.simps Some by (auto split: option.splits)
  qed
qed simp_all

lemma parse_more_fuel:
  "json_parse s = (case parse_value (2 * length s + 2 + k) s of
     None \<Rightarrow> None | Some (v, r) \<Rightarrow> if skip_ws r = [] then Some v else None)"
  unfolding json_parse_def
  using parse_fuel_irrelevant(1) [of s "2 * length s + 2" "2 * length s + 2 + k"] by simp

section \<open>The round trip\<close>

fun json_ok :: "jval \<Rightarrow> bool" where
  "json_ok (JNum l) \<longleftrightarrow> False"
| "json_ok (JStr s) \<longleftrightarrow> utf8_ok s"
| "json_ok (JArr vs) \<longleftrightarrow> list_all json_ok vs"
| "json_ok (JObj fs) \<longleftrightarrow> list_all (\<lambda>(k, v). utf8_ok k \<and> json_ok v) fs"
| "json_ok _ \<longleftrightarrow> True"

text \<open>The two renderings are one layout, with and without white space.\<close>

fun json_layout :: "(nat \<Rightarrow> string) \<Rightarrow> string \<Rightarrow> nat \<Rightarrow> jval \<Rightarrow> string" where
  "json_layout brk colon d (JArr vs) =
     (if vs = [] then ''[]''
      else CHR ''['' # brk (Suc d)
           @ join_with (CHR '','' # brk (Suc d)) (map (json_layout brk colon (Suc d)) vs)
           @ brk d @ '']'')"
| "json_layout brk colon d (JObj fs) =
     (if fs = [] then ''{}''
      else CHR ''{'' # brk (Suc d)
           @ join_with (CHR '','' # brk (Suc d))
               (map (\<lambda>(k, v). json_string k @ CHR '':'' # colon @ json_layout brk colon (Suc d) v) fs)
           @ brk d @ ''}'')"
| "json_layout brk colon d v = json_compact v"

lemma json_compact_layout: "json_compact v = json_layout (\<lambda>_. []) [] d v"
proof (induction "\<lambda>_ :: nat. [] :: string" "[] :: string" d v rule: json_layout.induct)
  case (1 d vs)
  then have eq: "map json_compact vs = map (json_layout (\<lambda>_. []) [] (Suc d)) vs" by (cases "vs = []") auto
  show ?case by (simp add: eq)
next
  case (2 d fs)
  then have eq: "map (\<lambda>(k, v). json_string k @ CHR '':'' # json_compact v) fs
      = map (\<lambda>(k, v). json_string k @ CHR '':'' # json_layout (\<lambda>_. []) [] (Suc d) v) fs"
    by fastforce
  show ?case by (simp add: eq)
qed simp_all

lemma json_indent_layout: "json_indent_at d v = json_layout line_break '' '' d v"
proof (induction line_break "'' ''" d v rule: json_layout.induct)
  case (1 d vs)
  then have eq: "map (json_indent_at (Suc d)) vs = map (json_layout line_break '' '' (Suc d)) vs"
    by (cases "vs = []") auto
  show ?case by (simp add: eq)
next
  case (2 d fs)
  then have eq: "map (\<lambda>(k, v). json_string k @ CHR '':'' # CHR '' '' # json_indent_at (Suc d) v) fs
      = map (\<lambda>(k, v). json_string k @ CHR '':'' # CHR '' '' # json_layout line_break '' '' (Suc d) v) fs"
    by fastforce
  show ?case by (simp add: eq)
qed simp_all

text \<open>White space before a token is skipped.\<close>

definition blank :: "string \<Rightarrow> bool" where
  "blank w \<longleftrightarrow> list_all is_json_space w"

lemma blank_simps [simp]: "blank []" "blank (newline # w) \<longleftrightarrow> blank w" "blank ('' '' @ w) \<longleftrightarrow> blank w"
  by (simp_all add: blank_def is_json_space_def newline_def)

lemma blank_line_break [simp]: "blank (line_break d)"
  by (auto simp: blank_def is_json_space_def line_break_def newline_def list_all_iff)

lemma skip_ws_blank [simp]: "blank w \<Longrightarrow> skip_ws (w @ s) = skip_ws s"
  by (induction w) (simp_all add: blank_def skip_ws_def)

lemma expect_blank [simp]: "blank w \<Longrightarrow> expect c (w @ s) = expect c s"
  by (simp add: expect_def)

lemma parse_value_blank [simp]: "blank w \<Longrightarrow> parse_value n (w @ s) = parse_value n s"
  by (cases n) simp_all

lemma parse_elems_blank [simp]: "blank w \<Longrightarrow> parse_elems n (w @ s) = parse_elems n s"
  by (cases n) simp_all

lemma parse_fields_blank [simp]: "blank w \<Longrightarrow> parse_fields n (w @ s) = parse_fields n s"
  by (cases n) simp_all

lemma skip_ws_solid [simp]: "\<not> is_json_space c \<Longrightarrow> skip_ws (c # s) = c # s"
  by (simp add: skip_ws_def)

lemma expect_solid [simp]: "\<not> is_json_space d \<Longrightarrow> expect c (d # s) = (if d = c then Some s else None)"
  by (simp add: expect_def)

lemma solid [simp]: "\<not> is_json_space (CHR ''{'')" "\<not> is_json_space (CHR ''}'')"
  "\<not> is_json_space (CHR ''['')" "\<not> is_json_space (CHR '']'')" "\<not> is_json_space (CHR '','')"
  "\<not> is_json_space (CHR '':'')" "\<not> is_json_space (CHR ''n'')" "\<not> is_json_space (CHR ''t'')"
  "\<not> is_json_space (CHR ''f'')" "\<not> is_json_space (CHR ''-'')" "\<not> is_json_space dquote"
  by (simp_all add: is_json_space_def dquote_def)

lemma dquote_other [simp]: "dquote \<noteq> CHR ''{''" "dquote \<noteq> CHR ''[''" "dquote \<noteq> CHR '']''" "dquote \<noteq> CHR ''}''"
  by (simp_all add: dquote_def)

section \<open>Numbers are read back\<close>

text \<open>What may follow a number.\<close>

definition ends_number :: "string \<Rightarrow> bool" where
  "ends_number s \<longleftrightarrow> s = [] \<or> (\<not> is_digit (hd s) \<and> hd s \<notin> {CHR ''.'', CHR ''e'', CHR ''E''})"

lemma span_all: "\<forall>x \<in> set a. P x \<Longrightarrow> b = [] \<or> \<not> P (hd b) \<Longrightarrow> span P (a @ b) = (a, b)"
proof (induction a)
  case Nil
  then show ?case by (cases b) auto
qed auto

lemma show_nat_no_leading_zero: "hd (show_nat n) = CHR ''0'' \<Longrightarrow> tl (show_nat n) = []"
proof (induction n rule: show_nat.induct)
  case (1 n)
  show ?case
  proof (cases "n < 10")
    case True
    then show ?thesis by (subst show_nat.simps) simp
  next
    case False
    have step: "show_nat n = show_nat (n div 10) @ [digit_char (n mod 10)]"
      using False by (subst show_nat.simps) simp
    with "1.prems" have zero: "hd (show_nat (n div 10)) = CHR ''0''" by simp
    with "1.IH" [OF False] have "show_nat (n div 10) = [CHR ''0'']"
      by (cases "show_nat (n div 10)") auto
    then have "digits_acc 0 (show_nat (n div 10)) = digits_acc 0 ''0''" by simp
    then have "n div 10 = 0" by (simp add: is_digit_def digit_val_def)
    with False show ?thesis by simp
  qed
qed

lemma parse_number_show: "ends_number s \<Longrightarrow> parse_number (show_int z @ s) = Some (JInt z, s)"
proof -
  assume s: "ends_number s"
  have sp: "span is_digit (show_nat n @ s) = (show_nat n, s)" for n
    using s show_nat_digits by (intro span_all) (auto simp: ends_number_def)
  have tail: "parse_fraction s = Some ([], s)" "parse_exponent s = Some ([], s)"
    using s by (auto simp: ends_number_def parse_fraction_def parse_exponent_def)
  have digit: "is_digit (hd (show_nat n))" for n
    using show_nat_digits [of n] hd_in_set [of "show_nat n"] by simp
  moreover have "\<not> is_digit (CHR ''-'')" by (simp add: is_digit_def)
  ultimately have plus: "hd (show_nat n) \<noteq> CHR ''-''" for n by metis
  show ?thesis
    using sp tail plus show_nat_no_leading_zero
    by (auto simp: parse_number_def show_int_def)
qed

section \<open>Values are read back\<close>

text \<open>The next token of a value, and what may follow one.\<close>

lemma ends_number_tokens [simp]: "ends_number []" "ends_number (CHR '','' # s)" "ends_number (CHR '']'' # s)"
  "ends_number (CHR ''}'' # s)" "ends_number (newline # s)"
  by (simp_all add: ends_number_def is_digit_def newline_def)

definition starts_value :: "string \<Rightarrow> bool" where
  "starts_value s \<longleftrightarrow> s \<noteq> [] \<and> \<not> is_json_space (hd s) \<and> hd s \<notin> {CHR '']'', CHR ''}''}"

lemma starts_digit: "is_digit c \<Longrightarrow> starts_value (c # s) \<and> c \<noteq> CHR ''{'' \<and> c \<noteq> CHR ''['' \<and> c \<noteq> dquote \<and>
    c \<noteq> CHR ''n'' \<and> c \<noteq> CHR ''t'' \<and> c \<noteq> CHR ''f''"
  by (auto simp: starts_value_def is_digit_def is_json_space_def dquote_def)

lemma show_int_start:
  obtains c s where "show_int z = c # s" "starts_value (c # s)" "c \<noteq> CHR ''{''" "c \<noteq> CHR ''[''" "c \<noteq> dquote"
    "c \<noteq> CHR ''n''" "c \<noteq> CHR ''t''" "c \<noteq> CHR ''f''"
proof (cases "z < 0")
  case True
  then have "show_int z = CHR ''-'' # show_nat (nat (- z))" by (simp add: show_int_def)
  with that show thesis by (simp add: starts_value_def dquote_def)
next
  case False
  obtain c s where c: "show_nat (nat z) = c # s" using show_nat_nonempty by (cases "show_nat (nat z)") auto
  then have "is_digit c" using show_nat_digits [of "nat z"] by simp
  from starts_digit [OF this] that c False show thesis by (simp add: show_int_def)
qed

lemma starts_layout: "json_ok v \<Longrightarrow> starts_value (json_layout brk colon d v @ s)"
proof (cases v)
  case (JInt z)
  then show ?thesis
    by (cases rule: show_int_start [of z]) (auto simp: starts_value_def)
qed (auto simp: starts_value_def json_string_def dquote_def is_json_space_def split: if_splits)

lemma expect_value: "starts_value s \<Longrightarrow> c \<in> {CHR '']'', CHR ''}''} \<Longrightarrow> expect c s = None"
  by (cases s) (auto simp: starts_value_def)

definition reads_back :: "string \<Rightarrow> jval \<Rightarrow> bool" where
  "reads_back t v \<longleftrightarrow>
     (\<forall>n s. 2 * length t + 1 \<le> n \<longrightarrow> ends_number s \<longrightarrow> parse_value n (t @ s) = Some (v, s))"

lemma reads_backD: "reads_back t v \<Longrightarrow> 2 * length t + 1 \<le> n \<Longrightarrow> ends_number s \<Longrightarrow> parse_value n (t @ s) = Some (v, s)"
  by (simp add: reads_back_def)

definition break_ok :: "string \<Rightarrow> bool" where
  "break_ok w \<longleftrightarrow> blank w \<and> ends_number w"

lemma break_ok_follow: "break_ok w \<Longrightarrow> ends_number (c # s) \<Longrightarrow> ends_number (w @ c # s)"
  by (cases w) (auto simp: break_ok_def ends_number_def)

lemma parse_elems_join:
  assumes "vs \<noteq> []" "list_all (\<lambda>v. reads_back (f v) v) vs" "break_ok w" "break_ok w'"
    and "2 * length (join_with (CHR '','' # w) (map f vs)) + 2 \<le> n"
  shows "parse_elems n (join_with (CHR '','' # w) (map f vs) @ w' @ CHR '']'' # s) = Some (vs, s)"
  using assms
proof (induction vs arbitrary: n)
  case (Cons v vs)
  obtain m where n: "n = Suc m" using Cons.prems(5) by (cases n) auto
  have blank: "blank w" "blank w'" using Cons.prems(3,4) by (simp_all add: break_ok_def)
  have reads: "reads_back (f v) v" using Cons.prems(2) by simp
  show ?case
  proof (cases vs)
    case last: Nil
    have "parse_value m (f v @ w' @ CHR '']'' # s) = Some (v, w' @ CHR '']'' # s)"
      using Cons.prems(4,5) last n by (intro reads_backD [OF reads]) (simp_all add: break_ok_follow)
    with last blank show ?thesis by (simp add: n)
  next
    case more: (Cons u us)
    let ?rest = "join_with (CHR '','' # w) (map f vs)"
    have joined: "join_with (CHR '','' # w) (map f (v # vs)) = f v @ CHR '','' # w @ ?rest"
      using more by simp
    have "parse_value m (f v @ CHR '','' # w @ ?rest @ w' @ CHR '']'' # s)
        = Some (v, CHR '','' # w @ ?rest @ w' @ CHR '']'' # s)"
      using Cons.prems(5) n joined by (intro reads_backD [OF reads]) simp_all
    moreover have "parse_elems m (?rest @ w' @ CHR '']'' # s) = Some (vs, s)"
      using Cons.prems more n joined by (intro Cons.IH) simp_all
    ultimately show ?thesis using blank unfolding n joined by simp
  qed
qed simp

lemma expect_other: "expect c s \<noteq> None \<Longrightarrow> d \<noteq> c \<Longrightarrow> expect d s = None"
  by (auto simp: expect_def split: list.splits if_splits)

text \<open>A key may be quoted in any way that is read as the key.\<close>

definition reads_key :: "string \<Rightarrow> string \<Rightarrow> bool" where
  "reads_key t k \<longleftrightarrow> (\<forall>s. Option.bind (expect dquote (t @ s)) parse_chars = Some (k, s))"

lemma reads_key_json_string: "utf8_ok k \<Longrightarrow> reads_key (json_string k) k"
proof -
  assume k: "utf8_ok k"
  obtain q where q: "json_string k = dquote # q" by (simp add: json_string_def)
  with parse_json_string [OF k] show ?thesis by (simp add: reads_key_def)
qed

definition field_text :: "(string \<Rightarrow> string) \<Rightarrow> string \<Rightarrow> (jval \<Rightarrow> string) \<Rightarrow> string \<times> jval \<Rightarrow> string" where
  "field_text quote colon f kv = (case kv of (k, v) \<Rightarrow> quote k @ CHR '':'' # colon @ f v)"

lemma parse_field_head:
  assumes "reads_key (quote k) k" "blank colon" "reads_back (f v) v" "2 * length (f v) + 1 \<le> n" "ends_number s"
  shows "Option.bind (expect dquote (field_text quote colon f (k, v) @ s)) parse_chars
      = Some (k, CHR '':'' # colon @ f v @ s)"
    and "Option.bind (expect (CHR '':'') (CHR '':'' # colon @ f v @ s)) (parse_value n) = Some (v, s)"
  using assms(1,2) reads_backD [OF assms(3-5)] by (simp_all add: reads_key_def field_text_def)

lemma parse_fields_join:
  assumes "fs \<noteq> []" "list_all (\<lambda>(k, v). reads_key (quote k) k \<and> reads_back (f v) v) fs" "blank colon"
    and "break_ok w" "break_ok w'"
    and "2 * length (join_with (CHR '','' # w) (map (field_text quote colon f) fs)) + 2 \<le> n"
  shows "parse_fields n (join_with (CHR '','' # w) (map (field_text quote colon f) fs) @ w' @ CHR ''}'' # s) = Some (fs, s)"
  using assms
proof (induction fs arbitrary: n)
  case (Cons kv fs)
  obtain k v where kv: "kv = (k, v)" by force
  obtain m where n: "n = Suc m" using Cons.prems(6) by (cases n) auto
  have blank: "blank w" "blank w'" using Cons.prems(4,5) by (simp_all add: break_ok_def)
  have len: "length (f v) < length (field_text quote colon f kv)"
    by (simp add: kv field_text_def)
  have ok: "reads_key (quote k) k" "reads_back (f v) v" using Cons.prems(2) by (simp_all add: kv)
  note head = parse_field_head [of quote k colon f v m, OF ok(1) Cons.prems(3) ok(2)]
  show ?case
  proof (cases fs)
    case last: Nil
    have "2 * length (f v) + 1 \<le> m" using Cons.prems(6) len n last by simp
    moreover have "ends_number (w' @ CHR ''}'' # s)" using Cons.prems(5) by (simp add: break_ok_follow)
    ultimately show ?thesis
      using last blank head by (simp add: n kv)
  next
    case more: (Cons u us)
    let ?rest = "join_with (CHR '','' # w) (map (field_text quote colon f) fs)"
    have joined: "join_with (CHR '','' # w) (map (field_text quote colon f) (kv # fs))
        = field_text quote colon f kv @ CHR '','' # w @ ?rest"
      using more by simp
    have "2 * length (f v) + 1 \<le> m" using Cons.prems(6) len n joined by simp
    moreover have "parse_fields m (?rest @ w' @ CHR ''}'' # s) = Some (fs, s)"
      using Cons.prems more n joined by (intro Cons.IH) simp_all
    ultimately show ?thesis using blank head unfolding n joined unfolding kv by simp
  qed
qed simp

lemma reads_back_literal:
  "reads_back ''null'' JNull" "reads_back ''true'' (JBool True)" "reads_back ''false'' (JBool False)"
  unfolding reads_back_def
  by (auto simp: literal_def has_prefix_def dquote_def numeral_eq_Suc dest!: Suc_le_D)

lemma reads_back_bool: "(b \<longrightarrow> reads_back ''true'' (JBool b)) \<and> (\<not> b \<longrightarrow> reads_back ''false'' (JBool b))"
  using reads_back_literal(2,3) by simp

lemma reads_back_int: "reads_back (show_int z) (JInt z)"
  unfolding reads_back_def
proof (intro allI impI)
  fix n s
  assume n: "2 * length (show_int z) + 1 \<le> n" and s: "ends_number s"
  obtain m where m: "n = Suc m" using n by (cases n) auto
  show "parse_value n (show_int z @ s) = Some (JInt z, s)"
    using parse_number_show [OF s, of z]
    by (cases rule: show_int_start [of z]) (auto simp: m starts_value_def)
qed

lemma reads_back_string: "utf8_ok t \<Longrightarrow> reads_back (json_string t) (JStr t)"
  unfolding reads_back_def
proof (intro allI impI)
  fix n s
  assume t: "utf8_ok t" and n: "2 * length (json_string t) + 1 \<le> n"
  obtain m where m: "n = Suc m" using n by (cases n) auto
  obtain q where q: "json_string t = dquote # q" by (simp add: json_string_def)
  with parse_json_string [OF t, of s] show "parse_value n (json_string t @ s) = Some (JStr t, s)"
    by (simp add: m)
qed

lemma reads_back_array:
  assumes "vs \<noteq> []" "list_all (\<lambda>v. reads_back (f v) v) vs" "break_ok w" "break_ok w'"
    and "starts_value (join_with (CHR '','' # w) (map f vs))"
  shows "reads_back (CHR ''['' # w @ join_with (CHR '','' # w) (map f vs) @ w' @ '']'') (JArr vs)"
  unfolding reads_back_def
proof (intro allI impI)
  fix n s
  let ?body = "join_with (CHR '','' # w) (map f vs)"
  assume n: "2 * length (CHR ''['' # w @ ?body @ w' @ '']'') + 1 \<le> n"
  obtain m where m: "n = Suc m" using n by (cases n) auto
  have "starts_value (?body @ q)" for q using assms(5) by (cases ?body) (auto simp: starts_value_def)
  then have "expect (CHR '']'') (w @ ?body @ q) = None" for q
    using assms(3) by (simp add: break_ok_def expect_value)
  moreover have "parse_elems m (?body @ w' @ CHR '']'' # s) = Some (vs, s)"
    using n m by (intro parse_elems_join assms) simp
  ultimately show "parse_value n ((CHR ''['' # w @ ?body @ w' @ '']'') @ s) = Some (JArr vs, s)"
    using assms(3) by (simp add: m break_ok_def)
qed

lemma reads_back_object:
  assumes "fs \<noteq> []" "list_all (\<lambda>(k, v). reads_key (quote k) k \<and> reads_back (f v) v) fs" "blank colon"
    and "break_ok w" "break_ok w'"
  shows "reads_back (CHR ''{'' # w @ join_with (CHR '','' # w) (map (field_text quote colon f) fs) @ w' @ ''}'') (JObj fs)"
  unfolding reads_back_def
proof (intro allI impI)
  fix n s
  let ?body = "join_with (CHR '','' # w) (map (field_text quote colon f) fs)"
  assume n: "2 * length (CHR ''{'' # w @ ?body @ w' @ ''}'') + 1 \<le> n"
  obtain m where m: "n = Suc m" using n by (cases n) auto
  obtain k v fs' where fs: "fs = (k, v) # fs'" using assms(1) by (cases fs) auto
  then obtain rest where body: "?body = quote k @ rest"
    by (cases fs') (auto simp: field_text_def)
  have "expect dquote (quote k @ q) \<noteq> None" for q
    using assms(2) by (auto simp: fs reads_key_def split: bind_splits)
  then have "expect (CHR ''}'') (quote k @ q) = None" for q
    using expect_other [of dquote "quote k @ q" "CHR ''}''"] dquote_other(4) by metis
  then have "expect (CHR ''}'') (w @ ?body @ q) = None" for q
    using assms(4) by (simp add: break_ok_def body)
  moreover have "parse_fields m (?body @ w' @ CHR ''}'' # s) = Some (fs, s)"
    using n m by (intro parse_fields_join assms) simp
  ultimately show "parse_value n ((CHR ''{'' # w @ ?body @ w' @ ''}'') @ s) = Some (JObj fs, s)"
    using assms(4) by (simp add: m break_ok_def)
qed

lemma reads_back_empty: "reads_back ''[]'' (JArr [])" "reads_back ''{}'' (JObj [])"
  unfolding reads_back_def by (auto simp: numeral_eq_Suc dest!: Suc_le_D)

lemma reads_back_layout:
  assumes "\<forall>d. break_ok (brk d)" "blank colon"
  shows "json_ok v \<Longrightarrow> reads_back (json_layout brk colon d v) v"
  using assms
proof (induction brk colon d v rule: json_layout.induct)
  case (1 brk colon d vs)
  show ?case
  proof (cases "vs = []")
    case False
    let ?f = "json_layout brk colon (Suc d)"
    have "list_all (\<lambda>v. reads_back (?f v) v) vs"
      using 1 False by (auto simp: list_all_iff)
    moreover have "starts_value (join_with (CHR '','' # brk (Suc d)) (map ?f vs))"
      using False "1.prems"(1) starts_layout [of "hd vs" brk colon "Suc d"]
        starts_layout [of "hd vs" brk colon "Suc d" "[]"]
      by (cases vs; cases "tl vs") auto
    ultimately show ?thesis using reads_back_array [of vs ?f "brk (Suc d)" "brk d"] False "1.prems"(2) by simp
  qed (simp add: reads_back_empty)
next
  case (2 brk colon d fs)
  show ?case
  proof (cases "fs = []")
    case False
    let ?f = "json_layout brk colon (Suc d)"
    have "list_all (\<lambda>(k, v). reads_key (json_string k) k \<and> reads_back (?f v) v) fs"
      using 2 False by (fastforce simp: list_all_iff reads_key_json_string)
    from reads_back_object [OF False this, of colon "brk (Suc d)" "brk d"] False "2.prems"(2,3)
    show ?thesis by (simp add: field_text_def [abs_def])
  qed (simp add: reads_back_empty)
qed (simp_all add: reads_back_literal reads_back_bool reads_back_int reads_back_string)

lemma reads_back_parse: "reads_back t v \<Longrightarrow> json_parse t = Some v"
  using reads_backD [of t v "2 * length t + 2" "[]"] by (simp add: json_parse_def skip_ws_def)

lemma break_ok_line_break [simp]: "break_ok (line_break d)"
  by (simp add: break_ok_def) (simp add: line_break_def)

lemma parse_compact: "json_ok v \<Longrightarrow> json_parse (json_compact v) = Some v"
  unfolding json_compact_layout [of v 0]
  by (intro reads_back_parse reads_back_layout) (simp_all add: break_ok_def)

lemma parse_indent: "json_ok v \<Longrightarrow> json_parse (json_indent v) = Some v"
  unfolding json_indent_def json_indent_layout
  by (intro reads_back_parse reads_back_layout) (simp_all add: blank_def is_json_space_def)

section \<open>The contract of a renderer\<close>

text \<open>What a writer of JSON text promises its readers, and that both renderings keep it.\<close>

locale json_renderer =
  fixes render :: "jval \<Rightarrow> string"
  assumes read_back: "json_ok v \<Longrightarrow> json_parse (render v) = Some v"
begin

lemma render_determines:
  assumes "json_ok v" "json_ok w" "render v = render w"
  shows "v = w"
proof -
  have "Some v = Some w"
    by (simp only: read_back [OF assms(1), symmetric] read_back [OF assms(2), symmetric] assms(3))
  then show ?thesis by simp
qed

end

interpretation compact: json_renderer json_compact
  by unfold_locales (rule parse_compact)

interpretation indented: json_renderer json_indent
  by unfold_locales (rule parse_indent)

end
