(* ===== verification/Allocation_Json.thy ===== *)
theory Allocation_Json
  imports Json_Parse Cluster_Graph
begin

text \<open>
  \<open>pkg/graph/allocation.go\<close> as it meets the resource graph: the decoding of an allocation's
  JSON text into the struct of \<open>Allocation\<close>, and the round trip from the graph that
  \<open>BuildGraph\<close> writes, through an allocation of its vertices, to the placement the scheduler
  reads from it.
\<close>

section \<open>Decoding\<close>

text \<open>
  \<open>json.Unmarshal\<close> into a struct: the fields of the object in their order, each to the
  struct field of that name (letter case folded, as \<open>foldName\<close> does: among the runes outside
  ASCII only U+017F and U+212A fold to a letter of it); unknown fields are skipped and null
  changes nothing. A value of the wrong type is an error of the whole text.
\<close>

definition fold_rune :: "nat \<Rightarrow> nat" where
  "fold_rune r =
     (if 97 \<le> r \<and> r \<le> 122 then r - 32
      else if r = 383 then 83 else if r = 8490 then 75 else r)"

definition same_field :: "string \<Rightarrow> string \<Rightarrow> bool" where
  "same_field name key \<longleftrightarrow> map fold_rune (runes name) = map fold_rune (runes key)"

type_synonym 'a field_decoder = "string \<times> ('a \<Rightarrow> jval \<Rightarrow> 'a option)"

fun decode_fields :: "'a field_decoder list \<Rightarrow> 'a \<Rightarrow> (string \<times> jval) list \<Rightarrow> 'a option" where
  "decode_fields ds a [] = Some a"
| "decode_fields ds a ((k, v) # fs) =
     (case find (\<lambda>d. same_field (fst d) k) ds of
        None \<Rightarrow> decode_fields ds a fs
      | Some d \<Rightarrow> (case snd d a v of None \<Rightarrow> None | Some a' \<Rightarrow> decode_fields ds a' fs))"

fun decode_struct :: "'a field_decoder list \<Rightarrow> 'a \<Rightarrow> jval \<Rightarrow> 'a option" where
  "decode_struct ds a (JObj fs) = decode_fields ds a fs"
| "decode_struct ds a JNull = Some a"
| "decode_struct ds a _ = None"

fun decode_string :: "string \<Rightarrow> jval \<Rightarrow> string option" where
  "decode_string old (JStr s) = Some s"
| "decode_string old JNull = Some old"
| "decode_string old _ = None"

fun decode_string_map :: "(string, string) gomap \<Rightarrow> jval \<Rightarrow> (string, string) gomap option" where
  "decode_string_map old (JObj fs) = string_object old fs"
| "decode_string_map old JNull = Some []"
| "decode_string_map old _ = None"

definition zero_meta :: vertex_meta where
  "zero_meta = \<lparr>vt_type = [], vt_name = [], vt_props = []\<rparr>"

definition meta_decoders :: "vertex_meta field_decoder list" where
  "meta_decoders =
     [(''type'', \<lambda>m v. map_option (\<lambda>s. m\<lparr>vt_type := s\<rparr>) (decode_string (vt_type m) v)),
      (''name'', \<lambda>m v. map_option (\<lambda>s. m\<lparr>vt_name := s\<rparr>) (decode_string (vt_name m) v)),
      (''properties'', \<lambda>m v. map_option (\<lambda>p. m\<lparr>vt_props := p\<rparr>) (decode_string_map (vt_props m) v))]"

text \<open>An element of \<open>nodes\<close> is a struct with the one field \<open>metadata\<close>.\<close>

definition decode_node :: "jval \<Rightarrow> vertex_meta option" where
  "decode_node v = decode_struct [(''metadata'', decode_struct meta_decoders)] zero_meta v"

fun decode_nodes :: "jval \<Rightarrow> vertex_meta list option" where
  "decode_nodes (JArr vs) = those (map decode_node vs)"
| "decode_nodes JNull = Some []"
| "decode_nodes _ = None"

definition decode_graph :: "vertex_meta list \<Rightarrow> jval \<Rightarrow> vertex_meta list option" where
  "decode_graph ns v = decode_struct [(''nodes'', \<lambda>_. decode_nodes)] ns v"

definition decode_allocation :: "jval \<Rightarrow> allocation option" where
  "decode_allocation v = decode_struct
     [(''graph'', \<lambda>a v. map_option (\<lambda>ns. a\<lparr>al_graph := ns\<rparr>) (decode_graph (al_graph a) v)),
      (''scheduling'', \<lambda>a v. map_option (\<lambda>ns. a\<lparr>al_scheduling := ns\<rparr>)
         (decode_struct [(''graph'', decode_graph)] (al_scheduling a) v))]
     \<lparr>al_graph = [], al_scheduling = []\<rparr> v"

text \<open>
  The iteration order of the decoded property maps is not the text's: \<open>order\<close> lists the
  entries of a map as some run iterates them. \<open>msg\<close> is the library's error message.
\<close>

type_synonym map_order = "(string, string) gomap \<Rightarrow> (string, string) gomap"

definition order_props :: "map_order \<Rightarrow> vertex_meta list \<Rightarrow> vertex_meta list" where
  "order_props order ns = map (\<lambda>m. m\<lparr>vt_props := order (vt_props m)\<rparr>) ns"

definition unmarshal_allocation :: "map_order \<Rightarrow> (string \<Rightarrow> string) \<Rightarrow> string \<Rightarrow> string + allocation" where
  "unmarshal_allocation order msg s =
     (case Option.bind (json_parse s) decode_allocation of
        None \<Rightarrow> Inl (msg s)
      | Some a \<Rightarrow>
          Inr \<lparr>al_graph = order_props order (al_graph a),
               al_scheduling = order_props order (al_scheduling a)\<rparr>)"

section \<open>Decoding what the graph builder writes\<close>

text \<open>A field that no decoder takes is skipped.\<close>

definition takes :: "'a field_decoder list \<Rightarrow> string \<Rightarrow> bool" where
  "takes ds k \<longleftrightarrow> list_ex (\<lambda>d. same_field (fst d) k) ds"

lemma find_takes: "find (\<lambda>d. same_field (fst d) k) ds = None \<longleftrightarrow> \<not> takes ds k"
  by (auto simp: takes_def find_None_iff list_ex_iff)

lemma decode_fields_filter:
  "decode_fields ds a fs = decode_fields ds a (filter (\<lambda>kv. takes ds (fst kv)) fs)"
proof (induction ds a fs rule: decode_fields.induct)
  case (2 ds a k v fs)
  then show ?case by (cases "takes ds k") (auto simp: find_takes [THEN iffD2] split: option.splits)
qed simp

text \<open>A sorted object is determined by its keys and its lookups.\<close>

lemma sorted_fields_eq:
  assumes "sorted (map fst fs)" "distinct (map fst fs)"
    and "sorted ks" "distinct ks" "set ks = fst ` set fs"
  shows "fs = map (\<lambda>k. (k, the (map_of fs k))) ks"
proof -
  have "map fst fs = ks"
    using assms by (intro sorted_distinct_set_unique) simp_all
  then have "map (\<lambda>k. (k, the (map_of fs k))) ks = map (\<lambda>kv. (fst kv, the (map_of fs (fst kv)))) fs"
    by (auto simp: comp_def)
  also have "\<dots> = fs"
    using assms(2) by (intro map_idI) auto
  finally show ?thesis by simp
qed

lemma sort_key_map_snd:
  "sort_key fst (map (\<lambda>(k, x). (k, f x)) ps) = map (\<lambda>(k, x). (k, f x)) (sort_key fst ps)"
proof (induction ps)
  case (Cons p ps)
  have "insort_key fst (case p of (k, x) \<Rightarrow> (k, f x)) (map (\<lambda>(k, x). (k, f x)) qs)
      = map (\<lambda>(k, x). (k, f x)) (insort_key fst p qs)" for qs
    by (induction qs) (auto split: prod.splits)
  with Cons.IH show ?case by simp
qed simp

lemma string_object_strings:
  "gomap_ok (m @ ps) \<Longrightarrow> string_object m (map (\<lambda>(k, x). (k, JStr x)) ps) = Some (m @ ps)"
proof (induction ps arbitrary: m)
  case (Cons p ps)
  obtain k x where p: "p = (k, x)" by force
  have "gput m k x = m @ [(k, x)]"
    using Cons.prems by (simp add: p gput_def update_absent gomap_ok_def)
  then show ?case using Cons.IH [of "m @ [(k, x)]"] Cons.prems by (simp add: p)
qed simp

text \<open>The keys the vertex decoder takes.\<close>

lemma meta_keys [simp]:
  "takes meta_decoders ''name''" "takes meta_decoders ''properties''" "takes meta_decoders ''type''"
  "\<not> takes meta_decoders ''basename''" "\<not> takes meta_decoders ''id''" "\<not> takes meta_decoders ''uniq_id''"
  "\<not> takes meta_decoders ''rank''" "\<not> takes meta_decoders ''exclusive''" "\<not> takes meta_decoders ''unit''"
  "\<not> takes meta_decoders ''size''" "\<not> takes meta_decoders ''paths''" "\<not> takes meta_decoders ''hostname''"
  by code_simp+

lemma meta_keys_sorted: "sorted [''name'', ''properties'', ''type'' :: string]" "sorted [''name'', ''type'' :: string]"
  by code_simp+

lemma find_meta:
  "find (\<lambda>d. same_field (fst d) ''name'') meta_decoders = Some (meta_decoders ! 1)"
  "find (\<lambda>d. same_field (fst d) ''properties'') meta_decoders = Some (meta_decoders ! 2)"
  "find (\<lambda>d. same_field (fst d) ''type'') meta_decoders = Some (meta_decoders ! 0)"
proof -
  have "same_field ''type'' ''name'' = False" "same_field ''name'' ''name'' = True"
    "same_field ''type'' ''properties'' = False" "same_field ''name'' ''properties'' = False"
    "same_field ''properties'' ''properties'' = True" "same_field ''type'' ''type'' = True"
    by code_simp+
  then show "find (\<lambda>d. same_field (fst d) ''name'') meta_decoders = Some (meta_decoders ! 1)"
    "find (\<lambda>d. same_field (fst d) ''properties'') meta_decoders = Some (meta_decoders ! 2)"
    "find (\<lambda>d. same_field (fst d) ''type'') meta_decoders = Some (meta_decoders ! 0)"
    by (simp_all add: meta_decoders_def)
qed

lemma decode_meta_step:
  "decode_fields meta_decoders a ((''name'', v) # fs) =
     (case decode_string (vt_name a) v of None \<Rightarrow> None | Some s \<Rightarrow> decode_fields meta_decoders (a\<lparr>vt_name := s\<rparr>) fs)"
  "decode_fields meta_decoders a ((''properties'', v) # fs) =
     (case decode_string_map (vt_props a) v of
        None \<Rightarrow> None | Some p \<Rightarrow> decode_fields meta_decoders (a\<lparr>vt_props := p\<rparr>) fs)"
  "decode_fields meta_decoders a ((''type'', v) # fs) =
     (case decode_string (vt_type a) v of None \<Rightarrow> None | Some s \<Rightarrow> decode_fields meta_decoders (a\<lparr>vt_type := s\<rparr>) fs)"
  unfolding decode_fields.simps find_meta
  by (simp_all add: meta_decoders_def split: option.splits)

text \<open>What a decoded vertex holds.\<close>

definition read_vertex :: "vertex \<Rightarrow> vertex_meta" where
  "read_vertex v = \<lparr>vt_type = v_typ v, vt_name = v_name v, vt_props = sort_key fst (v_node_props v)\<rparr>"

text \<open>No extra property has a name that is read, and the RFC 31 properties are a map.\<close>

definition plain_vertex :: "vertex \<Rightarrow> bool" where
  "plain_vertex v \<longleftrightarrow> list_all (\<lambda>kv. \<not> takes meta_decoders (fst kv)) (v_props v) \<and> gomap_ok (v_node_props v)"

definition taken_fields :: "vertex \<Rightarrow> (string \<times> jval) list" where
  "taken_fields v =
     [(''name'', JStr (v_name v))]
     @ (if v_node_props v = [] then []
        else [(''properties'', JObj (map (\<lambda>(k, x). (k, JStr x)) (sort_key fst (v_node_props v))))])
     @ [(''type'', JStr (v_typ v))]"

lemma decode_taken_fields:
  "gomap_ok (v_node_props v) \<Longrightarrow> decode_fields meta_decoders zero_meta (taken_fields v) = Some (read_vertex v)"
proof -
  assume ok: "gomap_ok (v_node_props v)"
  then have "gomap_ok ([] @ sort_key fst (v_node_props v))"
    by (simp add: gomap_ok_def distinct_map inj_on_def)
  from string_object_strings [OF this] show ?thesis
    by (auto simp: taken_fields_def read_vertex_def zero_meta_def decode_meta_step
        simp del: decode_fields.simps(2))
qed

lemma taken_keys:
  assumes "takes meta_decoders k" "plain_vertex v"
  shows "map_of (metadata_fields v) k =
    (if k = ''name'' then Some (JStr (v_name v)) else if k = ''type'' then Some (JStr (v_typ v))
     else if k = ''properties'' \<and> v_node_props v \<noteq> []
       then Some (JObj (map (\<lambda>(k, x). (k, JStr x)) (v_node_props v)))
     else None)"
proof -
  have "k \<notin> set [''basename'', ''id'', ''uniq_id'', ''rank'', ''exclusive'', ''unit'', ''size'', ''paths'']"
    using assms(1) by auto
  moreover have "map_of (v_props v) k = None"
    using assms by (auto simp: plain_vertex_def map_of_eq_None_iff list_all_iff)
  ultimately show ?thesis by (auto simp: map_of_metadata_fields standard_fields_def)
qed

lemma map_object_strings:
  "map_object (JObj (map (\<lambda>(k, x). (k, JStr x)) ps)) = JObj (map (\<lambda>(k, x). (k, JStr x)) (sort_key fst ps))"
proof -
  have "map (\<lambda>(k, v). (k, map_object v)) (map (\<lambda>(k, x). (k, JStr x)) ps) = map (\<lambda>(k, x). (k, JStr x)) ps"
    by auto
  then show ?thesis by (simp only: map_object.simps sort_key_map_snd)
qed

lemma metadata_taken:
  assumes "plain_vertex v" "metadata_json v = JObj fs"
  shows "filter (\<lambda>kv. takes meta_decoders (fst kv)) fs = taken_fields v"
proof -
  let ?mf = "map (\<lambda>(k, v). (k, map_object v)) (metadata_fields v)"
  define gs where "gs = filter (\<lambda>kv. takes meta_decoders (fst kv)) fs"
  define ks where "ks = [''name''] @ (if v_node_props v = [] then [] else [''properties'']) @ [''type'']"
  have ok: "gomap_ok ?mf" using gomap_ok_metadata [of v] by (simp add: gomap_ok_def comp_def split_beta)
  have fs: "fs = sort_key fst ?mf" using assms(2) by (simp add: metadata_json_def)
  have "distinct (map fst fs)"
    using ok unfolding fs gomap_ok_def by (simp only: distinct_map distinct_sort set_sort)
  then have sorted: "sorted (map fst gs)" "distinct (map fst gs)"
    unfolding gs_def by (simp_all add: distinct_map_filter) (simp add: fs sorted_filter)
  have look: "map_of gs k = (if takes meta_decoders k
      then map_option map_object (map_of (metadata_fields v) k) else None)" for k
  proof -
    have "map_of gs k = (if takes meta_decoders k then map_of fs k else None)"
      unfolding gs_def by (induction fs) auto
    then show ?thesis using map_of_sort_key [OF ok] by (simp add: fs map_of_map comp_def)
  qed
  have "k \<in> set ks \<longleftrightarrow> map_of gs k \<noteq> None" for k
    using taken_keys [OF _ assms(1)] by (auto simp: look ks_def)
  then have "set ks = fst ` set gs" by (auto simp: map_of_eq_None_iff)
  moreover have "sorted ks" "distinct ks" using meta_keys_sorted by (auto simp: ks_def)
  ultimately have "gs = map (\<lambda>k. (k, the (map_of gs k))) ks"
    using sorted by (intro sorted_fields_eq) auto
  also have "\<dots> = taken_fields v"
    using taken_keys [OF _ assms(1)]
    by (auto simp: look ks_def taken_fields_def map_object_strings simp del: map_object.simps(2))
  finally show ?thesis by (simp add: gs_def)
qed

text \<open>The document around a vertex.\<close>

lemma document_fields [simp]:
  "\<not> same_field ''metadata'' ''id''" "same_field ''metadata'' ''metadata''"
  "same_field ''nodes'' ''nodes''" "\<not> same_field ''nodes'' ''edges''"
  "same_field ''graph'' ''graph''" "\<not> same_field ''graph'' ''scheduling''"
  "same_field ''scheduling'' ''scheduling''"
  "\<not> same_field ''graph'' ''version''" "\<not> same_field ''scheduling'' ''version''"
  "\<not> same_field ''graph'' ''execution''" "\<not> same_field ''scheduling'' ''execution''"
  by code_simp+

lemma decode_node_json: "plain_vertex v \<Longrightarrow> decode_node (node_json v) = Some (read_vertex v)"
proof -
  assume v: "plain_vertex v"
  obtain fs where fs: "metadata_json v = JObj fs" by (simp add: metadata_json_def)
  have "decode_fields meta_decoders zero_meta fs = Some (read_vertex v)"
    using decode_taken_fields [of v] v
    by (subst decode_fields_filter) (simp add: metadata_taken [OF v fs] plain_vertex_def)
  then show ?thesis by (simp add: decode_node_def node_json_def fs)
qed

lemma decode_slice:
  "list_all plain_vertex vs \<Longrightarrow> decode_nodes (slice_json (map node_json vs)) = Some (map read_vertex vs)"
proof -
  have "list_all plain_vertex vs \<Longrightarrow> those (map decode_node (map node_json vs)) = Some (map read_vertex vs)"
    by (induction vs) (simp_all add: decode_node_json)
  then show "list_all plain_vertex vs \<Longrightarrow> ?thesis" by (simp add: slice_json_def)
qed

text \<open>
  The two formats of an allocation: \<open>jgf\<close> is the document itself, \<open>rv1\<close> has it under
  \<open>scheduling\<close> beside an execution view.
\<close>

definition rv1_document :: "jval \<Rightarrow> builder \<Rightarrow> jval" where
  "rv1_document execution b =
     JObj [(''version'', JInt 1), (''execution'', execution), (''scheduling'', Document b)]"

lemma decode_documents:
  assumes "list_all plain_vertex (b_vertices b)"
  shows "map_option vertices_of (decode_allocation (Document b)) = Some (map read_vertex (b_vertices b))"
    and "map_option vertices_of (decode_allocation (rv1_document e b)) = Some (map read_vertex (b_vertices b))"
  using decode_slice [OF assms]
  by (simp_all add: decode_allocation_def Document_def rv1_document_def decode_graph_def vertices_of_def)

section \<open>Where the vertices of a built graph come from\<close>

text \<open>The calls that make the vertices of a graph.\<close>

inductive made :: "node list \<Rightarrow> graph_options \<Rightarrow> vertex \<Rightarrow> bool" for nodes opts where
  made_root: "made nodes opts (new_vertex NewBuilder None ''cluster'' ''cluster''
    (no_options\<lparr>o_name := cluster_name opts\<rparr>))"
| made_node: "n \<in> set (included opts nodes) \<Longrightarrow>
    made nodes opts (new_vertex b (Some p) ''node'' ''node'' (node_options n rank))"
| made_part: "typ \<in> {''core'', ''gpu''} \<Longrightarrow> made nodes opts (new_vertex b (Some p) typ typ no_options)"
| made_chunk: "made nodes opts (new_vertex b (Some p) ''memory'' ''memory''
    (no_options\<lparr>o_size := sz, o_unit := ''MiB''\<rparr>))"
| made_resource: "r \<in> set (forest (go_resources opts)) \<Longrightarrow>
    made nodes opts (new_vertex b (Some p) ''node'' (cr_type r) (resource_options r rank))"

definition all_made :: "node list \<Rightarrow> graph_options \<Rightarrow> builder \<Rightarrow> bool" where
  "all_made nodes opts b \<longleftrightarrow> list_all (made nodes opts) (b_vertices b)"

lemma made_child:
  "all_made nodes opts b \<Longrightarrow> made nodes opts (new_vertex b (Some p) typ base vo) \<Longrightarrow>
   all_made nodes opts (fst (AddChild b p typ base vo))"
  by (simp add: all_made_def)

lemma made_copies:
  "all_made nodes opts b \<Longrightarrow> (\<And>b. made nodes opts (new_vertex b (Some p) typ typ vo)) \<Longrightarrow>
   all_made nodes opts (add_copies k b p typ vo)"
  by (induction k arbitrary: b) (simp_all add: made_child)

lemma made_add_node:
  assumes "all_made nodes opts b" "n \<in> set (included opts nodes)"
  shows "all_made nodes opts (fst (add_node gpuName root n (b, rank, parents)))"
  using made_child [OF assms(1) made_node [OF assms(2)]]
  by (auto simp: add_node_def Let_def split_beta intro!: made_copies made_part made_chunk)

lemma made_add_nodes:
  "all_made nodes opts (fst st) \<Longrightarrow> set (included opts ns) \<subseteq> set (included opts nodes) \<Longrightarrow>
   all_made nodes opts (fst (add_nodes opts gpuName root ns st))"
proof (induction ns arbitrary: st)
  case (Cons n ns)
  obtain b rank parents where st: "st = (b, rank, parents)" by (cases st) auto
  have "set (included opts ns) \<subseteq> set (included opts nodes)"
    using Cons.prems(2) by (auto simp: included_def split: if_splits)
  moreover have "all_made nodes opts (fst (add_node gpuName root n st))" if "\<not> skip_node opts n"
    using Cons.prems that unfolding st by (intro made_add_node) (auto simp: included_def)
  ultimately show ?case using Cons by simp
qed simp

lemma made_resources:
  "all_made nodes opts b \<Longrightarrow> set (subtree r) \<subseteq> set (forest (go_resources opts)) \<Longrightarrow>
   all_made nodes opts (fst (addResource b parent r rank))"
  "all_made nodes opts b \<Longrightarrow> set (forest ws) \<subseteq> set (forest (go_resources opts)) \<Longrightarrow>
   all_made nodes opts (fst (addChildren b v ws rank))"
proof (induction b parent r rank and b v ws rank rule: addResource_addChildren.induct)
  case (1 b parent ty nm cnt par attrs ws res bk rank)
  let ?r = "CResource ty nm cnt par attrs ws res bk"
  have "?r \<in> set (forest (go_resources opts))" and ws: "set (forest ws) \<subseteq> set (forest (go_resources opts))"
    using "1.prems"(2) by (simp_all add: subtree_eq)
  from made_child [OF "1.prems"(1) made_resource [OF this(1)]] ws "1.IH" [OF prod.collapse]
  show ?case by (simp add: split_beta)
next
  case (3 b v r ws rank)
  then show ?case by (simp add: split_beta prod_eq_iff)
qed simp

lemma made_append:
  "all_made nodes opts b \<Longrightarrow> set (forest res) \<subseteq> set (forest (go_resources opts)) \<Longrightarrow>
   appendResources b parents c res rank = Inr (b', rank') \<Longrightarrow> all_made nodes opts b'"
proof (induction res arbitrary: b rank)
  case (Cons r res)
  then obtain p where "appendResources (fst (addResource b p r rank)) parents c res (snd (addResource b p r rank)) = Inr (b', rank')"
    by (auto simp: Let_def split_beta split: option.splits)
  with Cons.prems show ?case
    by (intro Cons.IH [of "fst (addResource b p r rank)"] made_resources(1)) auto
qed simp

lemma built_made:
  assumes "build_builder nodes opts = Inr (b, ranks)"
  shows "all_made nodes opts b"
proof -
  let ?root = "AddRoot NewBuilder ''cluster'' ''cluster'' (no_options\<lparr>o_name := cluster_name opts\<rparr>)"
  let ?st = "add_nodes opts (gpu_name opts) (snd ?root) nodes (fst ?root, 0, [(cluster_name opts, snd ?root)])"
  have "all_made nodes opts (fst ?root)"
    using made_root by (simp add: all_made_def AddRoot_def add_def NewBuilder_def Let_def)
  then have "all_made nodes opts (fst ?st)" by (intro made_add_nodes) simp_all
  moreover have "appendResources (fst ?st) (snd (snd ?st)) (cluster_name opts) (go_resources opts) (fst (snd ?st))
      = Inr (b, ranks)"
    using assms by (simp add: build_builder_def split_beta)
  ultimately show ?thesis by (rule made_append [OF _ subset_refl])
qed

text \<open>
  A vertex of type node is a node of the cluster under its own name, or a configured resource
  with its virtual properties; no other vertex has properties.
\<close>

definition from_node :: "node \<Rightarrow> vertex \<Rightarrow> bool" where
  "from_node n v \<longleftrightarrow> v_typ v = ''node'' \<and> v_props v = [(''hostname'', JStr (n_name n))] \<and>
     v_node_props v = false_marker \<and> (n_name n \<noteq> [] \<longrightarrow> v_name v = n_name n)"

definition from_resource :: "cresource \<Rightarrow> vertex \<Rightarrow> bool" where
  "from_resource r v \<longleftrightarrow> v_typ v = ''node'' \<and> v_props v = [] \<and>
     v_node_props v = virtualProperties r \<and> (cr_name r \<noteq> [] \<longrightarrow> v_name v = cr_name r)"

definition has_origin :: "node list \<Rightarrow> cresource list \<Rightarrow> vertex \<Rightarrow> bool" where
  "has_origin ns rs v \<longleftrightarrow>
     (v_typ v \<noteq> ''node'' \<and> v_props v = [] \<and> v_node_props v = []) \<or>
     (\<exists>n \<in> set ns. from_node n v) \<or> (\<exists>r \<in> set rs. from_resource r v)"

lemma new_vertex_fields:
  "v_typ (new_vertex b p typ base vo) = typ" "v_props (new_vertex b p typ base vo) = o_props vo"
  "v_node_props (new_vertex b p typ base vo) = o_node_props vo"
  "v_basename (new_vertex b p typ base vo) = base" "v_unit (new_vertex b p typ base vo) = o_unit vo"
  "v_name (new_vertex b p typ base vo) =
     (if o_name vo = [] then base @ show_int (gint (b_idx b) base) else o_name vo)"
  by (simp_all add: new_vertex_def Let_def)

lemma vertex_options_fields:
  "o_name no_options = []" "o_props no_options = []" "o_unit no_options = []"
  "o_name (node_options n k) = n_name n" "o_props (node_options n k) = [(''hostname'', JStr (n_name n))]"
  "o_unit (node_options n k) = []"
  "o_name (resource_options r k) = cr_name r" "o_props (resource_options r k) = []"
  "o_unit (resource_options r k) = []"
  by (simp_all add: no_options_def node_options_def resource_options_def)

lemma made_origin:
  "made nodes opts v \<Longrightarrow> has_origin (included opts nodes) (forest (go_resources opts)) v"
proof (induction rule: made.induct)
  case (made_node n b p rank)
  then show ?case
    unfolding has_origin_def
    by (intro disjI2 disjI1 bexI [of _ n]) (auto simp: from_node_def new_vertex_fields vertex_options_fields)
next
  case (made_resource r b p rank)
  then show ?case
    unfolding has_origin_def
    by (intro disjI2 bexI [of _ r]) (auto simp: from_resource_def new_vertex_fields vertex_options_fields)
qed (auto simp: has_origin_def new_vertex_fields vertex_options_fields)

section \<open>From the graph to the placement\<close>

text \<open>
  What an allocation of a graph lists: vertices with the type, name and properties of vertices
  of the graph. Ids, sizes, ranks and edges may differ.
\<close>

definition same_vertex :: "vertex \<Rightarrow> vertex \<Rightarrow> bool" where
  "same_vertex u v \<longleftrightarrow> v_typ u = v_typ v \<and> v_name u = v_name v \<and> v_props u = v_props v \<and>
     v_node_props u = v_node_props v"

definition allocates :: "builder \<Rightarrow> vertex list \<Rightarrow> bool" where
  "allocates b vs \<longleftrightarrow> list_all (\<lambda>v. list_ex (same_vertex v) (b_vertices b)) vs"

definition iterates :: "map_order \<Rightarrow> bool" where
  "iterates order \<longleftrightarrow> (\<forall>m. gomap_ok m \<longrightarrow> gomap_ok (order m) \<and> set (order m) = set m)"

lemma allocated_origins:
  assumes "build_builder nodes opts = Inr (b, ranks)" "allocates b vs" "v \<in> set vs"
  shows "has_origin (included opts nodes) (forest (go_resources opts)) v"
proof -
  obtain u where "u \<in> set (b_vertices b)" "same_vertex v u"
    using assms(2,3) by (auto simp: allocates_def list_all_iff list_ex_iff)
  moreover from this(1) have "has_origin (included opts nodes) (forest (go_resources opts)) u"
    using built_made [OF assms(1)] by (auto simp: all_made_def list_all_iff made_origin)
  ultimately show ?thesis
    unfolding has_origin_def from_node_def from_resource_def same_vertex_def by simp
qed

lemma gomap_ok_false_marker: "gomap_ok false_marker"
  by (simp add: false_marker_def gomap_ok_def)

lemma plain_origin: "has_origin ns rs v \<Longrightarrow> plain_vertex v"
  by (auto simp: has_origin_def plain_vertex_def from_node_def from_resource_def
      gomap_ok_false_marker gomap_ok_virtualProperties)

definition allocated_node_of :: "map_order \<Rightarrow> vertex \<Rightarrow> allocated_node" where
  "allocated_node_of order v = \<lparr>an_name = v_name v, an_props = order (sort_key fst (v_node_props v))\<rparr>"

lemma nodes_from_text:
  assumes "json_parse s = Some R" "map_option vertices_of (decode_allocation R) = Some (map read_vertex vs)"
  shows "NodesFromAllocation (unmarshal_allocation order msg) s =
    Inr (map (allocated_node_of order) (filter (\<lambda>v. v_typ v = ''node'') vs))"
proof -
  obtain a where a: "decode_allocation R = Some a" "vertices_of a = map read_vertex vs"
    using assms(2) by auto
  have "vertices_of \<lparr>al_graph = order_props order (al_graph a), al_scheduling = order_props order (al_scheduling a)\<rparr>
      = order_props order (map read_vertex vs)"
    using a(2) by (auto simp: vertices_of_def order_props_def split: if_splits)
  then show ?thesis
    using assms(1) a(1)
    by (simp add: NodesFromAllocation_def unmarshal_allocation_def order_props_def filter_map comp_def
        read_vertex_def allocated_node_of_def)
qed

definition virtual_vertex :: "vertex \<Rightarrow> bool" where
  "virtual_vertex v \<longleftrightarrow> v_typ v = ''node'' \<and> VirtualPropertyTrue \<in> fst ` set (v_node_props v)"

definition physical_vertex :: "vertex \<Rightarrow> bool" where
  "physical_vertex v \<longleftrightarrow> v_typ v = ''node'' \<and> VirtualPropertyTrue \<notin> fst ` set (v_node_props v)"

lemma has_marker:
  assumes "iterates order" "gomap_ok (v_node_props v)"
  shows "is_virtual (allocated_node_of order v) \<longleftrightarrow> VirtualPropertyTrue \<in> fst ` set (v_node_props v)"
proof -
  have "gomap_ok (sort_key fst (v_node_props v))"
    using assms(2) unfolding gomap_ok_def by (simp only: distinct_map distinct_sort set_sort)
  with assms(1) have "set (order (sort_key fst (v_node_props v))) = set (v_node_props v)"
    by (simp add: iterates_def)
  then show ?thesis
    by (simp add: is_virtual_def HasProperty_def allocated_node_of_def map_of_eq_None_iff)
qed

lemma marker_origin:
  assumes "has_origin ns rs v" "v_typ v = ''node''"
  shows "VirtualPropertyTrue \<in> fst ` set (v_node_props v) \<Longrightarrow> \<exists>r \<in> set rs. from_resource r v"
    and "VirtualPropertyTrue \<notin> fst ` set (v_node_props v) \<Longrightarrow> \<exists>n \<in> set ns. from_node n v"
proof -
  have "VirtualPropertyTrue \<in> fst ` set (virtualProperties r)" for r by (simp add: virtualProperties_keys)
  moreover have "VirtualPropertyTrue \<notin> fst ` set false_marker"
    by (simp add: false_marker_def VirtualPropertyTrue_def VirtualPropertyFalse_def)
  ultimately show "VirtualPropertyTrue \<in> fst ` set (v_node_props v) \<Longrightarrow> \<exists>r \<in> set rs. from_resource r v"
    and "VirtualPropertyTrue \<notin> fst ` set (v_node_props v) \<Longrightarrow> \<exists>n \<in> set ns. from_node n v"
    using assms by (auto simp: has_origin_def from_node_def from_resource_def)
qed

lemma find_map: "find P (map f xs) = map_option f (find (P \<circ> f) xs)"
  by (induction xs) auto

lemma find_filter: "find P (filter Q xs) = find (\<lambda>x. Q x \<and> P x) xs"
  by (induction xs) auto

lemma placement_attrs_ok:
  assumes "PlacementFromAllocation um s = Inr p"
  shows "gomap_ok (pl_attrs p)"
proof -
  have "gomap_ok (pl_attrs p) \<Longrightarrow> gomap_ok (pl_attrs (foldl placement_step p ns))" for p ns
    by (induction ns arbitrary: p) (simp_all add: placement_step_def gomap_ok_backendAttributes)
  from this [of empty_placement] show ?thesis
    using assms by (auto simp: PlacementFromAllocation_def empty_placement_def split: sum.splits)
qed

lemma placement_of_allocation:
  assumes "build_builder nodes opts = Inr (b, ranks)" "[] \<notin> n_name ` set nodes"
    and "list_all (\<lambda>r. attrs_encodable (cr_resolved r) \<and> map_of (cr_resolved r) ''backend'' = None)
      (forest (go_resources opts))"
    and "allocates b (b_vertices alloc)" "R \<in> {Document alloc, rv1_document execution alloc}" "json_ok R"
    and "s \<in> {json_compact R, json_indent R}" "iterates order"
  shows "\<exists>p. PlacementFromAllocation (unmarshal_allocation order msg) s = Inr p \<and>
    pl_nodes p = map v_name (filter physical_vertex (b_vertices alloc)) \<and>
    set (pl_nodes p) \<subseteq> n_name ` set (included opts nodes) \<and>
    (case find (\<lambda>v. virtual_vertex v \<and> v_name v \<noteq> []) (b_vertices alloc) of
       None \<Rightarrow> pl_backend p = []
     | Some v \<Rightarrow> pl_backend p = v_name v \<and>
         (\<exists>r \<in> set (forest (go_resources opts)). from_resource r v \<and> map_of (pl_attrs p) = surfaced r))"
proof -
  let ?vs = "b_vertices alloc"
  let ?ns = "map (allocated_node_of order) (filter (\<lambda>v. v_typ v = ''node'') ?vs)"
  have origin: "has_origin (included opts nodes) (forest (go_resources opts)) v" if "v \<in> set ?vs" for v
    using that by (rule allocated_origins [OF assms(1,4)])
  then have plain: "list_all plain_vertex ?vs" using plain_origin by (simp add: list_all_iff) blast
  have "json_parse s = Some R" using assms(6,7) compact.read_back indented.read_back by auto
  moreover have "map_option vertices_of (decode_allocation R) = Some (map read_vertex ?vs)"
    using assms(5) decode_documents [OF plain] by blast
  ultimately have read: "NodesFromAllocation (unmarshal_allocation order msg) s = Inr ?ns"
    by (rule nodes_from_text)
  have marker: "is_virtual (allocated_node_of order v) \<longleftrightarrow> VirtualPropertyTrue \<in> fst ` set (v_node_props v)"
    if "v \<in> set ?vs" for v
    using plain that by (intro has_marker [OF assms(8)]) (simp add: list_all_iff plain_vertex_def)
  have name: "an_name (allocated_node_of order v) = v_name v" for v by (simp add: allocated_node_of_def)
  obtain p where p: "PlacementFromAllocation (unmarshal_allocation order msg) s = Inr p"
      "pl_nodes p = map an_name (filter (\<lambda>n. \<not> is_virtual n) ?ns)"
      "case find named_virtual ?ns of None \<Rightarrow> pl_backend p = []
       | Some n \<Rightarrow> pl_backend p = an_name n \<and> pl_attrs p = backendAttributes (an_props n)"
    using PlacementFromAllocation_classifies [of "unmarshal_allocation order msg" s]
    unfolding read sum.case by (elim exE conjE) (rule that)
  have "map an_name (filter (\<lambda>n. \<not> is_virtual n) ?ns) = map v_name (filter physical_vertex ?vs)"
    using marker by (simp add: filter_map comp_def name physical_vertex_def [abs_def] cong: filter_cong)
  then have nodes: "pl_nodes p = map v_name (filter physical_vertex ?vs)" using p(2) by simp
  have "v_name v \<in> n_name ` set (included opts nodes)" if v: "v \<in> set ?vs" "physical_vertex v" for v
  proof -
    obtain n where "n \<in> set (included opts nodes)" "from_node n v"
      using marker_origin(2) [OF origin [OF v(1)]] v(2) by (auto simp: physical_vertex_def)
    moreover from this(1) have "n_name n \<noteq> []" using assms(2) by (force simp: included_def)
    ultimately show ?thesis by (auto simp: from_node_def)
  qed
  then have subset: "set (pl_nodes p) \<subseteq> n_name ` set (included opts nodes)" by (auto simp: nodes)
  have found: "find named_virtual ?ns =
      map_option (allocated_node_of order) (find (\<lambda>v. virtual_vertex v \<and> v_name v \<noteq> []) ?vs)"
    using marker by (auto simp: find_map find_filter named_virtual_def name virtual_vertex_def intro!: arg_cong
        [where f = "map_option _"] find_cong)
  have device: "\<exists>r \<in> set (forest (go_resources opts)). from_resource r v \<and>
      map_of (backendAttributes (an_props (allocated_node_of order v))) = surfaced r"
    if v: "v \<in> set ?vs" "virtual_vertex v" for v
  proof -
    obtain r where r: "r \<in> set (forest (go_resources opts))" "from_resource r v"
      using marker_origin(1) [OF origin [OF v(1)]] v(2) by (auto simp: virtual_vertex_def)
    then have props: "v_node_props v = virtualProperties r" by (simp add: from_resource_def)
    have "gomap_ok (sort_key fst (virtualProperties r))"
      using gomap_ok_virtualProperties [of r] unfolding gomap_ok_def
      by (simp only: distinct_map distinct_sort set_sort)
    then have "gomap_ok (order (sort_key fst (virtualProperties r)))"
      "set (order (sort_key fst (virtualProperties r))) = set (virtualProperties r)"
      using assms(8) by (simp_all add: iterates_def)
    then have "map_of (backendAttributes (an_props (allocated_node_of order v))) = surfaced r"
      using assms(3) r(1) unfolding allocated_node_of_def props
      by (intro backendAttributes_any_order) (auto simp: list_all_iff)
    with r show ?thesis by blast
  qed
  show ?thesis
  proof (cases "find (\<lambda>v. virtual_vertex v \<and> v_name v \<noteq> []) ?vs")
    case None
    with found p(3) have "pl_backend p = []" by simp
    with None p(1) nodes subset show ?thesis by auto
  next
    case (Some v)
    then have "v \<in> set ?vs" "virtual_vertex v" by (auto simp: find_Some_iff)
    from device [OF this] Some found p(3) p(1) nodes subset name show ?thesis by auto
  qed
qed

text \<open>
  C22: what comes back from the graph is what was put into it. Let the graph be built from the
  cluster's nodes and the configured resources, and let an allocation list some of its vertices;
  its text, in either format and either rendering, parses, and the placement read from it has as
  nodes exactly the allocated physical vertices, each a node of the cluster under its own name,
  and as backend the first named virtual vertex, with the attributes configured for the resource
  that vertex was made from, in whatever order Go iterates the property maps.
\<close>
theorem allocation_places_on_cluster:
  assumes "build_builder nodes opts = Inr (b, ranks)" "[] \<notin> n_name ` set nodes"
    and "list_all (\<lambda>r. attrs_encodable (cr_resolved r) \<and> map_of (cr_resolved r) ''backend'' = None)
      (forest (go_resources opts))"
    and "allocates b (b_vertices alloc)" "R \<in> {Document alloc, rv1_document execution alloc}" "json_ok R"
    and "s \<in> {json_compact R, json_indent R}" "iterates order"
  shows "\<exists>p. PlacementFromAllocation (unmarshal_allocation order msg) s = Inr p \<and>
    pl_nodes p = map v_name (filter physical_vertex (b_vertices alloc)) \<and>
    set (pl_nodes p) \<subseteq> n_name ` set (included opts nodes) \<and>
    (case find (\<lambda>v. virtual_vertex v \<and> v_name v \<noteq> []) (b_vertices alloc) of
       None \<Rightarrow> pl_backend p = []
     | Some v \<Rightarrow> pl_backend p = v_name v \<and>
         (\<exists>r \<in> set (forest (go_resources opts)). from_resource r v \<and> map_of (pl_attrs p) = surfaced r))"
  using assms by (rule placement_of_allocation)

text \<open>An allocation of the whole sample graph.\<close>

lemma sample_allocates: "allocates sample_graph (b_vertices sample_graph)"
  by (auto simp: allocates_def list_all_iff list_ex_iff same_vertex_def)

theorem allocation_places_on_cluster_witness:
  "\<exists>p. PlacementFromAllocation (unmarshal_allocation rev id) (json_indent (Document sample_graph)) = Inr p \<and>
     pl_nodes p = [''w1''] \<and> pl_backend p = ''rigetti'' \<and>
     map_of (pl_attrs p) ''region'' = Some ''us-east-1''"
proof -
  have ok: "list_all (\<lambda>r. attrs_encodable (cr_resolved r) \<and> map_of (cr_resolved r) ''backend'' = None)
      (forest (go_resources sample_options))"
    by code_simp
  have utf8: "json_ok (Document sample_graph)" by code_simp
  have order: "iterates rev" by (auto simp: iterates_def gomap_ok_def rev_map [symmetric])
  have names: "[] \<notin> n_name ` set [sample_node]" by (simp add: sample_node_def)
  have phys: "map v_name (filter physical_vertex (b_vertices sample_graph)) = [''w1'']" by code_simp
  have found: "map_option v_name
      (find (\<lambda>v. virtual_vertex v \<and> v_name v \<noteq> []) (b_vertices sample_graph)) = Some ''rigetti''"
    by code_simp
  have region: "list_all (\<lambda>r. surfaced r ''region'' = Some ''us-east-1'') (forest (go_resources sample_options))"
    by code_simp
  let ?R = "Document sample_graph"
  have "?R \<in> {?R, rv1_document JNull sample_graph}" and "json_indent ?R \<in> {json_compact ?R, json_indent ?R}"
    by simp_all
  from allocation_places_on_cluster [where msg = id, OF sample_builds names ok sample_allocates this(1) utf8 this(2) order]
  show ?thesis
    using found region unfolding phys by (fastforce simp: list_all_iff split: option.splits)
qed

section \<open>The text of the graph\<close>

text \<open>Everything that is written is well-formed UTF-8 when the names and attributes put in are.\<close>

lemma utf8_bytes_append: "utf8_bytes as \<Longrightarrow> utf8_bytes bs \<Longrightarrow> utf8_bytes (as @ bs)"
proof (induction as rule: utf8_bytes.induct)
  case (2 a as)
  obtain r n where d: "decode_rune a as = (r, n)" by force
  with "2.prems" have ok: "\<not> (128 \<le> a \<and> n = 0)" and rest: "utf8_bytes (drop n as)" by simp_all
  have len: "n \<le> length as"
  proof (cases "n = 0")
    case False
    with d show ?thesis by (elim decode_rune_wide)
  qed simp
  then have "as = take n as @ drop n as" by simp
  have "decode_rune a (as @ bs) = (r, n)"
  proof (cases "n = 0")
    case True
    with ok d show ?thesis by (simp add: decode_rune_def)
  next
    case False
    from decode_rune_local [OF d False, of "drop n as @ bs"] show ?thesis
      by (simp flip: append_assoc)
  qed
  then show ?case using "2.IH" [OF d [symmetric] rest "2.prems"(2)] ok len by simp
qed simp

lemma utf8_append [simp]: "utf8_ok s \<Longrightarrow> utf8_ok t \<Longrightarrow> utf8_ok (s @ t)"
  by (simp add: utf8_ok_def utf8_bytes_append)

lemma utf8_ascii_Cons [simp]: "(of_char c :: nat) < 128 \<Longrightarrow> utf8_ok (c # s) \<longleftrightarrow> utf8_ok s"
  by (simp add: utf8_ok_def decode_rune_def)

lemma utf8_Nil [simp]: "utf8_ok []"
  by (simp add: utf8_ok_def)

lemma utf8_show_int [simp]: "utf8_ok (show_int z)"
proof -
  have "utf8_ok (show_nat n)" for n
    using show_nat_digits [of n] by (intro utf8_ok_ascii) (auto simp: is_digit_def)
  then show ?thesis by (simp add: show_int_def)
qed

definition resource_utf8 :: "cresource \<Rightarrow> bool" where
  "resource_utf8 r \<longleftrightarrow> utf8_ok (cr_type r) \<and> utf8_ok (cr_name r) \<and> utf8_ok (cr_backend r) \<and>
     list_all (\<lambda>(k, v). utf8_ok k \<and> utf8_ok v) (cr_resolved r)"

definition inputs_utf8 :: "node list \<Rightarrow> graph_options \<Rightarrow> bool" where
  "inputs_utf8 nodes opts \<longleftrightarrow> utf8_ok (go_cluster opts) \<and> list_all (\<lambda>n. utf8_ok (n_name n)) nodes \<and>
     list_all resource_utf8 (forest (go_resources opts))"

lemma utf8_ComposeProperty: "utf8_ok k \<Longrightarrow> utf8_ok v \<Longrightarrow> utf8_ok (ComposeProperty k v)"
  by (simp add: ComposeProperty_def)

lemma empty_values_gput:
  "snd ` set m \<subseteq> {[]} \<Longrightarrow> snd ` set (foldl (\<lambda>m x. gput m (f x) []) m xs) \<subseteq> {[] :: string}"
proof (induction xs arbitrary: m)
  case (Cons x xs)
  have "snd ` set (gput m (f x) []) \<subseteq> {[]}"
    using Cons.prems set_gput_subset [of m "f x" "[]"] by fastforce
  then show ?case using Cons.IH by simp
qed simp

lemma virtualProperties_values: "snd ` set (virtualProperties r) \<subseteq> {[]}"
proof -
  have fold: "(\<lambda>m (k, v). gput m (ComposeProperty (FluxionResourcePrefix @ k) v) ([] :: string))
      = (\<lambda>m kv. gput m ((\<lambda>(k, v). ComposeProperty (FluxionResourcePrefix @ k) v) kv) [])"
    by (auto simp: fun_eq_iff)
  have one: "snd ` set m \<subseteq> {[]} \<Longrightarrow> snd ` set (gput m k []) \<subseteq> {[] :: string}" for m k
    using empty_values_gput [of m "\<lambda>_. k" "[()]"] by simp
  show ?thesis
    by (simp add: virtualProperties_def Let_def fold one empty_values_gput)
qed

lemma virtualProperties_utf8:
  assumes "list_all resource_utf8 (subtree r)"
  shows "list_all (\<lambda>(k, v). utf8_ok k \<and> utf8_ok v) (virtualProperties r)"
proof -
  have fixed: "utf8_ok VirtualPropertyTrue" "utf8_ok ClassProperty" "utf8_ok FluxionResourcePrefix" "utf8_ok ''backend''"
    by (simp_all add: VirtualPropertyTrue_def ClassProperty_def FluxionResourcePrefix_def)
  have "resource_utf8 r" using assms by (simp add: subtree_eq)
  then have "utf8_ok k" if "k \<in> fst ` set (virtualProperties r)" for k
    using that assms fixed unfolding virtualProperties_keys
    by (auto simp: resource_utf8_def list_all_iff split: if_splits intro!: utf8_ComposeProperty utf8_append)
  then show ?thesis using virtualProperties_values [of r] by (fastforce simp: list_all_iff)
qed

lemma subtree_trans: "r \<in> set (subtree s) \<Longrightarrow> set (subtree r) \<subseteq> set (subtree s)"
  by (induction s rule: subtree.induct) auto

lemma subtree_forest: "r \<in> set (forest rs) \<Longrightarrow> set (subtree r) \<subseteq> set (forest rs)"
  unfolding forest_def using subtree_trans by fastforce

definition vertex_utf8 :: "vertex \<Rightarrow> bool" where
  "vertex_utf8 v \<longleftrightarrow> utf8_ok (v_typ v) \<and> utf8_ok (v_basename v) \<and> utf8_ok (v_name v) \<and> utf8_ok (v_unit v) \<and>
     list_all (\<lambda>(k, x). utf8_ok k \<and> json_ok x) (v_props v) \<and>
     list_all (\<lambda>(k, x). utf8_ok k \<and> utf8_ok x) (v_node_props v)"

lemma made_utf8: "made nodes opts v \<Longrightarrow> inputs_utf8 nodes opts \<Longrightarrow> vertex_utf8 v"
proof (induction rule: made.induct)
  case made_root
  then have "utf8_ok (cluster_name opts)" by (simp add: inputs_utf8_def cluster_name_def)
  then show ?case by (simp add: vertex_utf8_def new_vertex_fields vertex_options_fields)
next
  case (made_node n b p rank)
  then have "utf8_ok (n_name n)" by (auto simp: inputs_utf8_def included_def list_all_iff)
  then show ?case
    by (simp add: vertex_utf8_def new_vertex_fields vertex_options_fields false_marker_def
        VirtualPropertyFalse_def)
next
  case (made_resource r b p rank)
  then have all: "list_all resource_utf8 (subtree r)"
    using subtree_forest [OF made_resource.hyps] by (auto simp: inputs_utf8_def list_all_iff)
  then have "resource_utf8 r" by (simp add: subtree_eq)
  with virtualProperties_utf8 [OF all] show ?case
    by (simp add: vertex_utf8_def new_vertex_fields vertex_options_fields resource_utf8_def)
qed (auto simp: vertex_utf8_def new_vertex_fields vertex_options_fields)

lemma paths_utf8:
  assumes "builder_ok b" "list_all vertex_utf8 (b_vertices b)" "j < length (b_vertices b)"
  shows "utf8_ok (v_path (b_vertices b ! j))"
  using assms(3)
proof (induction j rule: less_induct)
  case (less j)
  have name: "utf8_ok (v_name (b_vertices b ! j))"
    using assms(2) less.prems by (simp add: list_all_length vertex_utf8_def)
  show ?case
  proof (cases "show_nat j \<in> snd ` set (b_edges b)")
    case True
    then obtain e where e: "e \<in> set (b_edges b)" "snd e = show_nat j" by auto
    obtain i j' where "e = (show_nat i, show_nat j')" using edges_below [OF assms(1) e(1)] .
    with e have "is_edge b i j" by (simp add: is_edge_def)
    with edge_earlier [OF assms(1) this] less name show ?thesis by simp
  next
    case False
    then have "v_path (b_vertices b ! j) = ''/'' @ v_name (b_vertices b ! j)"
      using assms(1) less.prems by (simp add: builder_ok_def)
    with name show ?thesis by simp
  qed
qed

lemma json_ok_map_object: "json_ok v \<Longrightarrow> json_ok (map_object v)"
  by (induction v rule: map_object.induct) (auto simp: list_all_iff)

lemma metadata_json_ok:
  assumes "vertex_utf8 v" "utf8_ok (v_path v)"
  shows "json_ok (metadata_json v)"
proof -
  have "utf8_ok k \<and> json_ok x" if "(k, x) \<in> set (metadata_fields v)" for k x
  proof -
    have "map_of (metadata_fields v) k = Some x"
      using that gomap_ok_metadata [of v] by (simp add: gomap_ok_def)
    then show ?thesis
      using assms unfolding map_of_metadata_fields
      by (auto simp: vertex_utf8_def list_all_iff standard_fields_def split: if_splits option.splits
          dest!: map_of_SomeD) (fastforce+)?
  qed
  then have "json_ok (JObj (metadata_fields v))" by (auto simp: list_all_iff)
  then show ?thesis unfolding metadata_json_def by (rule json_ok_map_object)
qed

lemma document_json_ok:
  assumes "builder_ok b" "list_all vertex_utf8 (b_vertices b)"
  shows "json_ok (Document b)"
proof -
  have "json_ok (node_json v)" if v: "v \<in> set (b_vertices b)" for v
  proof -
    obtain j where j: "j < length (b_vertices b)" "v = b_vertices b ! j"
      using v by (auto simp: in_set_conv_nth)
    then have "v_key v = show_int (int j)" using assms(1) by (simp add: builder_ok_def)
    moreover have "vertex_utf8 v" using assms(2) v by (simp add: list_all_iff)
    ultimately show ?thesis
      using metadata_json_ok paths_utf8 [OF assms j(1)] j(2) by (simp add: node_json_def del: show_int_of_nat)
  qed
  moreover have "json_ok (edge_json e)" if e: "e \<in> set (b_edges b)" for e
  proof -
    obtain i j where "e = (show_int (int i), show_int (int j))"
      using edges_below [OF assms(1) e] by (metis show_int_of_nat)
    then show ?thesis by (simp add: edge_json_def del: show_int_of_nat)
  qed
  ultimately show ?thesis by (auto simp: Document_def slice_json_def list_all_iff)
qed

text \<open>
  C35: the graph text is faithful. When the names and attributes that go into the graph are
  well-formed UTF-8, the text \<open>BuildGraph\<close> hands to Fluxion parses as exactly the document
  of the built graph, and a reader of allocations finds in it every node and virtual resource of
  the graph, in order, with its name and properties, whatever the order of map iteration.
\<close>
theorem graph_text_reads_back:
  assumes "inputs_utf8 nodes opts" "BuildGraph nodes opts = Inr s"
  shows "\<exists>b ranks. build_builder nodes opts = Inr (b, ranks) \<and> json_parse s = Some (Document b) \<and>
    (\<forall>order msg. NodesFromAllocation (unmarshal_allocation order msg) s =
       Inr (map (allocated_node_of order) (filter (\<lambda>v. v_typ v = ''node'') (b_vertices b))))"
proof -
  obtain b ranks where b: "build_builder nodes opts = Inr (b, ranks)" "s = json_indent (Document b)"
    using assms(2) by (auto simp: BuildGraph_def builder_JSON_def split: sum.splits prod.splits)
  have made: "v \<in> set (b_vertices b) \<Longrightarrow> made nodes opts v" for v
    using built_made [OF b(1)] by (simp add: all_made_def list_all_iff)
  have "builder_ok b" using build_builder_cases [of opts nodes] b(1) by (simp add: tree_ok_def)
  moreover have "list_all vertex_utf8 (b_vertices b)"
    using made made_utf8 [OF _ assms(1)] by (simp add: list_all_iff)
  ultimately have parsed: "json_parse s = Some (Document b)"
    unfolding b(2) by (intro indented.read_back document_json_ok)
  have "list_all plain_vertex (b_vertices b)"
    using made plain_origin [OF made_origin] by (auto simp: list_all_iff)
  from nodes_from_text [OF parsed decode_documents(1) [OF this]] parsed b(1) show ?thesis by blast
qed

theorem graph_text_reads_back_witness:
  "\<exists>s. BuildGraph [sample_node] sample_options = Inr s \<and>
     (\<exists>ns. NodesFromAllocation (unmarshal_allocation rev id) s = Inr ns \<and>
        map an_name ns = [''w1'', ''rigetti'', ''qpu0''])"
proof -
  have s: "BuildGraph [sample_node] sample_options = Inr (json_indent (Document sample_graph))"
    by (simp add: BuildGraph_def sample_builds builder_JSON_def)
  have utf8: "inputs_utf8 [sample_node] sample_options" by code_simp
  have names: "map v_name (filter (\<lambda>v. v_typ v = ''node'') (b_vertices sample_graph)) = [''w1'', ''rigetti'', ''qpu0'']"
    by code_simp
  from graph_text_reads_back [OF utf8 s] sample_builds
  have "NodesFromAllocation (unmarshal_allocation rev id) (json_indent (Document sample_graph)) =
      Inr (map (allocated_node_of rev) (filter (\<lambda>v. v_typ v = ''node'') (b_vertices sample_graph)))"
    by auto
  then show ?thesis using s names by (simp add: allocated_node_of_def comp_def)
qed

section \<open>The text of a jobspec\<close>

text \<open>What is submitted to the matcher is read as the jobspec it was made from.\<close>

lemma jobspec_text_reads_back:
  "json_ok (jobspec_json j) \<Longrightarrow> (case JSON j of Inl _ \<Rightarrow> False | Inr s \<Rightarrow> json_parse s = Some (jobspec_json j))"
  by (simp add: JSON_def indented.read_back)

lemma jobspec_text_determines:
  assumes "json_ok (jobspec_json j)" "json_ok (jobspec_json j')" "JSON j = JSON j'"
  shows "jobspec_json j = jobspec_json j'"
  using indented.render_determines [OF assms(1,2)] assms(3) by (simp add: JSON_def)

end
