(* ===== verification/Annotation_Patch.thy ===== *)
theory Annotation_Patch
  imports Json_Parse Scheduler Admission
begin

text \<open>
  The merge patches that \<open>pkg/fluence\<close> and \<open>pkg/webhook\<close> write by hand: the annotations
  are put between the quotes of Go's \<open>%q\<close>, whose escapes are those of the Go language and
  not all of them JSON's. The result says exactly when the text of a patch is JSON.
\<close>

section \<open>Quoting\<close>

text \<open>
  \<open>strconv.Quote\<close>. Which runes beyond ASCII are printable is a table of the library,
  \<open>print\<close>; an ASCII rune is printable from the blank to the tilde.
\<close>

definition is_print :: "(nat \<Rightarrow> bool) \<Rightarrow> nat \<Rightarrow> bool" where
  "is_print print r = (if r < 128 then 32 \<le> r \<and> r \<le> 126 else print r)"

definition hex_text :: "nat \<Rightarrow> nat \<Rightarrow> string" where
  "hex_text w r = map (\<lambda>i. hex_digit (r div 16 ^ i mod 16)) (rev [0..<w])"

definition quote_rune :: "(nat \<Rightarrow> bool) \<Rightarrow> nat \<Rightarrow> nat list \<Rightarrow> string" where
  "quote_rune print r bs =
     (if r = 65533 \<and> length bs = 1 then backslash # CHR ''x'' # hex_text 2 (hd bs)
      else if r = 34 \<or> r = 92 then [backslash, char_of r]
      else if is_print print r then map char_of bs
      else if r = 7 then [backslash, CHR ''a'']
      else if r = 8 then [backslash, CHR ''b'']
      else if r = 12 then [backslash, CHR ''f'']
      else if r = 10 then [backslash, CHR ''n'']
      else if r = 13 then [backslash, CHR ''r'']
      else if r = 9 then [backslash, CHR ''t'']
      else if r = 11 then [backslash, CHR ''v'']
      else if r < 32 \<or> r = 127 then backslash # CHR ''x'' # hex_text 2 r
      else if r < 65536 then backslash # CHR ''u'' # hex_text 4 r
      else backslash # CHR ''U'' # hex_text 8 r)"

fun quote_bytes :: "(nat \<Rightarrow> bool) \<Rightarrow> nat list \<Rightarrow> string" where
  "quote_bytes print [] = []"
| "quote_bytes print (b # bs) =
     (case decode_rune b bs of (r, n) \<Rightarrow>
        quote_rune print r (b # take n bs) @ quote_bytes print (drop n bs))"

definition go_quote :: "(nat \<Rightarrow> bool) \<Rightarrow> string \<Rightarrow> string" where
  "go_quote print s = dquote # quote_bytes print (map of_char s) @ [dquote]"

text \<open>\<open>patchPodAnnotations\<close>: the annotations in some order of the map.\<close>

definition annotation_part :: "(nat \<Rightarrow> bool) \<Rightarrow> string \<times> string \<Rightarrow> string" where
  "annotation_part print kv = (case kv of (k, v) \<Rightarrow> go_quote print k @ CHR '':'' # go_quote print v)"

definition annotation_patch :: "(nat \<Rightarrow> bool) \<Rightarrow> (string, string) gomap \<Rightarrow> string" where
  "annotation_patch print ann =
     ''{\"metadata\":{\"annotations\":{'' @ join_with '','' (map (annotation_part print) ann) @ ''}}}''"

text \<open>The value the patch is meant to be.\<close>

definition annotation_json :: "(string, string) gomap \<Rightarrow> jval" where
  "annotation_json ann =
     JObj [(''metadata'', JObj [(''annotations'', JObj (map (\<lambda>(k, v). (k, JStr v)) ann))])]"

section \<open>Which quotes are JSON\<close>

definition quotable :: "(nat \<Rightarrow> bool) \<Rightarrow> nat \<Rightarrow> bool" where
  "quotable print r \<longleftrightarrow>
     is_print print r \<or> r \<in> {8, 9, 10, 12, 13} \<or> (127 < r \<and> r < 65536)"

lemma base16_digits:
  fixes r :: nat
  assumes "r < 65536"
  shows "r div 4096 mod 16 * 4096 + r div 256 mod 16 * 256 + r div 16 mod 16 * 16 + r mod 16 = r"
proof -
  define a c d where "a = r div 16" and "c = a div 16" and "d = c div 16"
  have divs: "r div 256 = c" "r div 4096 = d"
    by (simp_all add: a_def c_def d_def div_mult2_eq [symmetric])
  have "d < 16" using assms by (simp add: divs(2) [symmetric] less_mult_imp_div_less)
  then have "d mod 16 = d" by simp
  moreover have "a * 16 + r mod 16 = r" "c * 16 + a mod 16 = a" "d * 16 + c mod 16 = c"
    unfolding a_def c_def d_def by (rule div_mult_mod_eq)+
  ultimately show ?thesis unfolding divs a_def [symmetric] by linarith
qed

lemma hex_text_4:
  "hex_text 4 r = [hex_digit (r div 4096 mod 16), hex_digit (r div 256 mod 16),
      hex_digit (r div 16 mod 16), hex_digit (r mod 16)]"
proof -
  have "rev [0..<4] = [3, 2, 1, 0 :: nat]" by code_simp
  then show ?thesis by (simp add: hex_text_def)
qed

lemma hex4_text: "r < 65536 \<Longrightarrow> hex4 (hex_text 4 r @ cs) = Some r"
  using base16_digits [of r] by (simp add: hex_text_4)

lemma utf8_encode_decode:
  assumes "decode_rune b bs = (r, n)" "n \<noteq> 0" "r < 65536"
  shows "utf8_encode r = map char_of (b # take n bs)" and "r < 55296 \<or> 57343 < r"
proof -
  have split2: "(p * 64 + q) div 64 = p" "(p * 64 + q) mod 64 = q" if "q < 64" for p q :: nat
    using that by auto
  from assms(1,2) have "utf8_encode r = map char_of (b # take n bs) \<and> (r < 55296 \<or> 57343 < r)"
  proof (cases rule: decode_rune_bytes)
    case (two x)
    let ?p = "b - 192" and ?q = "x - 128"
    have q: "?q < 64" using two by simp
    have r: "r = ?p * 64 + ?q" using two by simp
    have "r < 2048" "128 \<le> r" using two by auto
    moreover have "r div 64 = ?p" "r mod 64 = ?q" by (simp_all only: r split2 [OF q])
    ultimately show ?thesis using two by (simp add: utf8_encode_def)
  next
    case (three x y)
    let ?p = "b - 224" and ?q = "x - 128" and ?s = "y - 128"
    have q: "?q < 64" "?s < 64" using three by simp_all
    have r: "r = (?p * 64 + ?q) * 64 + ?s" using three by simp
    have low: "2048 \<le> r"
    proof (cases "b = 224")
      case True
      then have "32 \<le> ?q" using three by simp
      then show ?thesis unfolding r by simp
    next
      case False
      then have "1 \<le> ?p" using three by simp
      then show ?thesis unfolding r by simp
    qed
    have parts: "r div 64 = ?p * 64 + ?q" "r mod 64 = ?s" by (simp_all only: r split2 [OF q(2)])
    have "r div 4096 = r div 64 div 64" by (simp add: div_mult2_eq [symmetric])
    then have "r div 4096 = ?p" "r div 64 mod 64 = ?q" by (simp_all only: parts split2 [OF q(1)])
    moreover have "r < 55296 \<or> 57343 < r"
    proof (cases "b = 237")
      case True
      then have "?p = 13" "?q \<le> 31" using three by simp_all
      then show ?thesis unfolding r using q(2) by simp
    next
      case False
      then have "?p \<le> 12 \<or> 14 \<le> ?p" using three by auto
      then show ?thesis unfolding r using q by auto
    qed
    ultimately show ?thesis using three parts low assms(3) by (simp add: utf8_encode_def)
  next
    case (four x y z)
    have "16 \<le> (b - 240) * 64 + (x - 128)"
      using four by (cases "b = 240") auto
    from mult_le_mono1 [OF mult_le_mono1 [OF this, of 64], of 64]
    have "65536 \<le> r" using four by simp
    with assms(3) show ?thesis by simp
  qed
  then show "utf8_encode r = map char_of (b # take n bs)" and "r < 55296 \<or> 57343 < r" by simp_all
qed

lemma unescape_u:
  assumes "r < 65536" "r < 55296 \<or> 57343 < r"
  shows "unescape (CHR ''u'' # hex_text 4 r @ cs) = Some (utf8_encode r, 5)"
  using assms hex4_text [OF assms(1)]
  by (simp add: unescape_def unescape_unicode_def dquote_def backslash_def)

lemma unescape_foreign:
  "unescape (CHR ''a'' # cs) = None" "unescape (CHR ''v'' # cs) = None" "unescape (CHR ''x'' # cs) = None"
  "unescape (CHR ''U'' # cs) = None"
  by (simp_all add: unescape_def dquote_def backslash_def)

lemma parse_foreign: "unescape cs = None \<Longrightarrow> parse_chars (backslash # cs) = None"
  by (simp add: backslash_def dquote_def)

lemma parse_quote_rune:
  assumes decoded: "decode_rune b bs = (r, n)" and byte: "b < 256" and ok: "\<not> (128 \<le> b \<and> n = 0)"
    and bytes: "\<forall>c \<in> set bs. c < 256"
  shows "parse_chars (quote_rune print r (b # take n bs) @ cs) =
    (if quotable print r then map_option (\<lambda>(t, q). (map char_of (b # take n bs) @ t, q)) (parse_chars cs)
     else None)"
proof (cases "n = 0")
  case True
  with ok have b: "b < 128" by simp
  with decoded have r: "r = b" by (simp add: decode_rune_def)
  have quoted: "quote_rune print r (b # take n bs) = (if b \<in> {34, 92} then [backslash, char_of b]
      else if 32 \<le> b \<and> b \<le> 126 then [char_of b]
      else backslash # (if b = 7 then ''a'' else if b \<in> {8, 9, 10, 12, 13} then [escape_rune b [] ! 1]
        else if b = 11 then ''v'' else CHR ''x'' # hex_text 2 b))"
    using b True by (auto simp: quote_rune_def is_print_def r escape_rune_def)
  consider (letter) "b \<in> {34, 92, 8, 9, 10, 12, 13}"
    | (plain) "32 \<le> b" "b \<le> 126" "b \<notin> {34, 92}"
    | (foreign) "b < 32 \<or> b = 127" "b \<notin> {8, 9, 10, 12, 13}"
    using b by force
  then show ?thesis
  proof cases
    case letter
    then have "quotable print r" by (auto simp: r quotable_def is_print_def)
    with letter show ?thesis
      unfolding quoted
      by (elim insertE) (simp_all add: True escape_rune_letters char_of_codes
          parse_escape [OF unescape_letters(1)]
          parse_escape [OF unescape_letters(2)] parse_escape [OF unescape_letters(3)]
          parse_escape [OF unescape_letters(4)] parse_escape [OF unescape_letters(5)]
          parse_escape [OF unescape_letters(6)] parse_escape [OF unescape_letters(7)]
          del: parse_chars.simps)
  next
    case plain
    then have "quotable print r" by (auto simp: r quotable_def is_print_def)
    with plain parse_copied [OF decoded _ byte _ _ ok bytes, of cs] show ?thesis
      unfolding quoted by (auto simp: True)
  next
    case foreign
    then have "\<not> quotable print r" using b by (auto simp: r quotable_def is_print_def)
    with foreign show ?thesis
      unfolding quoted by (auto simp: parse_foreign unescape_foreign simp del: parse_chars.simps)
  qed
next
  case False
  note big = decode_rune_big [OF decoded False]
  have len: "length (b # take n bs) \<noteq> 1" using decoded False by (elim decode_rune_wide) auto
  show ?thesis
  proof (cases "is_print print r")
    case True
    then have "quote_rune print r (b # take n bs) = map char_of (b # take n bs)" "quotable print r"
      using big len by (auto simp: quote_rune_def quotable_def simp del: list.size length_take)
    with parse_copied [OF decoded _ byte _ _ ok bytes, of cs] big show ?thesis by auto
  next
    case hidden: False
    show ?thesis
    proof (cases "r < 65536")
      case True
      then have shown: "quote_rune print r (b # take n bs) = backslash # CHR ''u'' # hex_text 4 r"
        using big len hidden by (auto simp: quote_rune_def simp del: list.size length_take)
      have "quotable print r" using True big len decoded \<open>n \<noteq> 0\<close> by (elim decode_rune_bytes) (auto simp: quotable_def)
      moreover have "drop 5 (CHR ''u'' # hex_text 4 r @ cs) = cs" by (simp add: hex_text_4)
      ultimately show ?thesis
        using parse_escape [OF unescape_u [OF True utf8_encode_decode(2) [OF decoded \<open>n \<noteq> 0\<close> True], of cs]]
        unfolding shown utf8_encode_decode(1) [OF decoded \<open>n \<noteq> 0\<close> True, symmetric]
        by (simp del: parse_chars.simps)
    next
      case far: False
      then have "quote_rune print r (b # take n bs) = backslash # CHR ''U'' # hex_text 8 r"
        using big len hidden by (auto simp: quote_rune_def simp del: list.size length_take)
      moreover have "\<not> quotable print r" using far hidden by (auto simp: quotable_def)
      ultimately show ?thesis
        by (simp add: parse_foreign unescape_foreign del: parse_chars.simps)
    qed
  qed
qed

lemma parse_quote_bytes:
  "utf8_bytes bs \<Longrightarrow> \<forall>c \<in> set bs. c < 256 \<Longrightarrow>
   parse_chars (quote_bytes print bs @ dquote # cs) =
     (if list_all (quotable print) (rune_list bs) then Some (map char_of bs, cs) else None)"
proof (induction bs rule: escape_bytes.induct)
  case 1
  then show ?case by simp
next
  case (2 b bs)
  obtain r n where d: "decode_rune b bs = (r, n)" by force
  with "2.prems" have "utf8_bytes (drop n bs)" and ok: "\<not> (128 \<le> b \<and> n = 0)" by simp_all
  moreover have "\<forall>c \<in> set (drop n bs). c < 256" using "2.prems"(2) by (auto dest: in_set_dropD)
  ultimately have rest: "parse_chars (quote_bytes print (drop n bs) @ dquote # cs) =
      (if list_all (quotable print) (rune_list (drop n bs)) then Some (map char_of (drop n bs), cs) else None)"
    using "2.IH" [OF d [symmetric]] by blast
  have "map char_of (b # take n bs) @ map char_of (drop n bs) = (map char_of (b # bs) :: string)"
    by (metis append_Cons append_take_drop_id map_append)
  then have "parse_chars (quote_rune print r (b # take n bs) @ quote_bytes print (drop n bs) @ dquote # cs) =
      (if quotable print r \<and> list_all (quotable print) (rune_list (drop n bs))
       then Some (map char_of (b # bs), cs) else None)"
    using "2.prems"(2) by (subst parse_quote_rune [OF d _ ok]) (auto simp: rest)
  then show ?case by (simp add: d)
qed

lemma parse_go_quote:
  "utf8_ok s \<Longrightarrow> Option.bind (expect dquote (go_quote print s @ cs)) parse_chars =
     (if list_all (quotable print) (runes s) then Some (s, cs) else None)"
  unfolding go_quote_def utf8_ok_def runes_def
  by (simp add: parse_quote_bytes comp_def)

section \<open>Which patches are JSON\<close>

definition all_quotable :: "(nat \<Rightarrow> bool) \<Rightarrow> string \<Rightarrow> bool" where
  "all_quotable print s \<longleftrightarrow> list_all (quotable print) (runes s)"

lemma go_quote_start: obtains q where "go_quote print s = dquote # q"
  by (simp add: go_quote_def)

lemma reads_key_go_quote: "utf8_ok k \<Longrightarrow> all_quotable print k \<Longrightarrow> reads_key (go_quote print k) k"
  by (simp add: reads_key_def parse_go_quote all_quotable_def)

lemma parse_value_string: "parse_value (Suc n) (dquote # q) = map_option (\<lambda>(s, r). (JStr s, r)) (parse_chars q)"
  by simp

lemma parse_value_go_quote:
  assumes "utf8_ok v"
  shows "parse_value n (go_quote print v @ s) =
    (if n \<noteq> 0 \<and> all_quotable print v then Some (JStr v, s) else None)"
proof (cases n)
  case (Suc m)
  obtain q where q: "go_quote print v = dquote # q" by (rule go_quote_start)
  then show ?thesis
    using parse_go_quote [OF assms, of print s]
    by (simp add: Suc all_quotable_def parse_value_string split: if_splits)
qed simp

lemma reads_back_go_quote: "utf8_ok v \<Longrightarrow> all_quotable print v \<Longrightarrow> reads_back (go_quote print v) (JStr v)"
  by (auto simp: reads_back_def parse_value_go_quote)

definition annotation_ok :: "(nat \<Rightarrow> bool) \<Rightarrow> string \<times> string \<Rightarrow> bool" where
  "annotation_ok print kv \<longleftrightarrow> all_quotable print (fst kv) \<and> all_quotable print (snd kv)"

definition annotations_utf8 :: "(string, string) gomap \<Rightarrow> bool" where
  "annotations_utf8 ann \<longleftrightarrow> list_all (\<lambda>(k, v). utf8_ok k \<and> utf8_ok v) ann"

lemma parse_bad_annotation:
  "annotations_utf8 ann \<Longrightarrow> \<not> list_all (annotation_ok print) ann \<Longrightarrow>
   parse_fields n (join_with '','' (map (annotation_part print) ann) @ CHR ''}'' # s) = None"
proof (induction ann arbitrary: n)
  case (Cons kv ann)
  obtain k v where kv: "kv = (k, v)" by force
  have utf8: "utf8_ok k" "utf8_ok v" "annotations_utf8 ann"
    using Cons.prems(1) by (simp_all add: annotations_utf8_def kv)
  obtain rest where rest: "join_with '','' (map (annotation_part print) (kv # ann)) @ CHR ''}'' # s =
      go_quote print k @ CHR '':'' # go_quote print v @ rest"
    and tail: "ann = [] \<Longrightarrow> rest = CHR ''}'' # s"
      "ann \<noteq> [] \<Longrightarrow> rest = CHR '','' # join_with '','' (map (annotation_part print) ann) @ CHR ''}'' # s"
    by (cases ann) (auto simp: annotation_part_def kv)
  show ?case
  proof (cases n)
    case (Suc m)
    show ?thesis
    proof (cases "annotation_ok print kv \<and> m \<noteq> 0")
      case True
      then have more: "ann \<noteq> []" "\<not> list_all (annotation_ok print) ann" using Cons.prems(2) by auto
      have "list_all (quotable print) (runes k)" "all_quotable print v" "m \<noteq> 0"
        using True by (simp_all add: annotation_ok_def kv all_quotable_def)
      with Cons.IH [OF utf8(3) more(2), of m] tail(2) [OF more(1)] show ?thesis
        unfolding Suc rest parse_fields.simps
        by (simp add: parse_go_quote parse_value_go_quote utf8)
    next
      case False
      then show ?thesis
        unfolding Suc rest parse_fields.simps
        by (auto simp: parse_go_quote parse_value_go_quote utf8 annotation_ok_def kv all_quotable_def)
    qed
  qed simp
qed simp

text \<open>A value that cannot be read makes the object around it unreadable.\<close>

definition unreadable :: "string \<Rightarrow> bool" where
  "unreadable t \<longleftrightarrow> (\<forall>n s. parse_value n (t @ s) = None)"

lemma unreadable_object: "unreadable t \<Longrightarrow> utf8_ok k \<Longrightarrow> unreadable (CHR ''{'' # json_string k @ CHR '':'' # t @ ''}'')"
  unfolding unreadable_def
proof (intro allI)
  fix n s
  assume t: "\<forall>n s. parse_value n (t @ s) = None" and k: "utf8_ok k"
  obtain q where q: "json_string k = dquote # q" by (simp add: json_string_def)
  have "Option.bind (expect dquote (json_string k @ CHR '':'' # t @ CHR ''}'' # s)) parse_chars = Some (k, CHR '':'' # t @ CHR ''}'' # s)"
    using reads_key_json_string [OF k] by (simp add: reads_key_def)
  then have "parse_fields m (json_string k @ CHR '':'' # t @ CHR ''}'' # s) = None" for m
    using t by (cases m) simp_all
  then show "parse_value n ((CHR ''{'' # json_string k @ CHR '':'' # t @ ''}'') @ s) = None"
    by (cases n) (simp_all add: q)
qed

lemma json_string_plain:
  assumes "list_all (\<lambda>c. (of_char c :: nat) \<in> {97..122}) s"
  shows "json_string s = dquote # s @ [dquote]"
proof -
  have "escape_bytes (map of_char s) = s"
    using assms by (induction s) (simp_all add: decode_rune_def escape_rune_def)
  then show ?thesis by (simp add: json_string_def)
qed

lemma patch_keys:
  "json_string ''metadata'' = dquote # ''metadata'' @ [dquote]"
  "json_string ''annotations'' = dquote # ''annotations'' @ [dquote]"
  by (rule json_string_plain, simp)+

lemma annotation_patch_objects:
  "annotation_patch print ann = CHR ''{'' # json_string ''metadata'' @ CHR '':'' #
     (CHR ''{'' # json_string ''annotations'' @ CHR '':'' #
       (CHR ''{'' # join_with '','' (map (annotation_part print) ann) @ ''}'') @ ''}'') @ ''}''"
  by (simp add: annotation_patch_def patch_keys) (simp add: dquote_def)

lemma reads_back_field:
  assumes "reads_back t v" "utf8_ok k"
  shows "reads_back (CHR ''{'' # json_string k @ CHR '':'' # t @ ''}'') (JObj [(k, v)])"
  using reads_back_object [of "[(k, v)]" json_string "\<lambda>_. t" "[]" "[]" "[]"] assms reads_key_json_string
  by (simp add: field_text_def break_ok_def)

lemma reads_back_annotations:
  assumes "annotations_utf8 ann" "list_all (annotation_ok print) ann"
  shows "reads_back (CHR ''{'' # join_with '','' (map (annotation_part print) ann) @ ''}'')
    (JObj (map (\<lambda>(k, v). (k, JStr v)) ann))"
proof (cases "ann = []")
  case True
  then show ?thesis using reads_back_empty(2) by simp
next
  case False
  let ?fs = "map (\<lambda>(k, v). (k, JStr v)) ann"
  let ?f = "\<lambda>v. case v of JStr s \<Rightarrow> go_quote print s | _ \<Rightarrow> []"
  have good: "list_all (\<lambda>(k, v). reads_key (go_quote print k) k \<and> reads_back (?f v) v) ?fs"
    using assms
    by (fastforce simp: list_all_iff annotations_utf8_def annotation_ok_def
        intro: reads_key_go_quote reads_back_go_quote)
  have texts: "map (field_text (go_quote print) [] ?f) ?fs = map (annotation_part print) ann"
    by (auto simp: field_text_def annotation_part_def)
  have "?fs \<noteq> []" "blank []" "break_ok []" using False by (simp_all add: break_ok_def)
  from reads_back_object [OF this(1) good this(2) this(3) this(3)] show ?thesis
    unfolding texts by simp
qed

lemma annotation_patch_any:
  assumes "annotations_utf8 ann"
  shows "json_parse (annotation_patch print ann) =
    (if list_all (annotation_ok print) ann then Some (annotation_json ann) else None)"
proof (cases "list_all (annotation_ok print) ann")
  case True
  have "utf8_ok ''metadata''" "utf8_ok ''annotations''" by (rule utf8_ok_ascii, simp)+
  with reads_back_field [OF reads_back_field [OF reads_back_annotations [OF assms True]]]
  have "reads_back (annotation_patch print ann) (annotation_json ann)"
    unfolding annotation_patch_objects annotation_json_def by blast
  with True show ?thesis by (simp add: reads_back_parse)
next
  case False
  have keys: "utf8_ok ''metadata''" "utf8_ok ''annotations''" by (rule utf8_ok_ascii, simp)+
  let ?body = "join_with '','' (map (annotation_part print) ann)"
  have "unreadable (CHR ''{'' # ?body @ ''}'')"
    unfolding unreadable_def
  proof (intro allI)
    fix n s
    obtain kv ann' where ann: "ann = kv # ann'" using False by (cases ann) auto
    obtain q where "?body = dquote # q"
      by (cases ann'; cases kv) (auto simp: ann annotation_part_def go_quote_def)
    then show "parse_value n ((CHR ''{'' # ?body @ ''}'') @ s) = None"
      using parse_bad_annotation [OF assms False, of _ s] by (cases n) auto
  qed
  from unreadable_object [OF unreadable_object [OF this keys(2)] keys(1)]
  have "unreadable (annotation_patch print ann)" unfolding annotation_patch_objects by simp
  then have "json_parse (annotation_patch print ann) = None"
    unfolding unreadable_def json_parse_def by (metis append_Nil2 option.case(1))
  with False show ?thesis by simp
qed


text \<open>
  C36: exactly when the text of an annotation patch is JSON. Its keys and values being
  well-formed UTF-8, it is the merge patch of those annotations when every rune is printable or
  has an escape that JSON shares, and no JSON at all when one has not: bell, vertical tab, the
  other control characters without a letter, delete, and unprintable runes beyond U+FFFF.
\<close>
theorem annotation_patch_text:
  assumes "annotations_utf8 ann"
  shows "json_parse (annotation_patch print ann) =
    (if list_all (annotation_ok print) ann then Some (annotation_json ann) else None)"
  using assms by (rule annotation_patch_any)

theorem annotation_patch_text_witness:
  "json_parse (annotation_patch (\<lambda>_. True) [(''note'', [char_of (7 :: nat)])]) = None \<and>
   json_parse (annotation_patch (\<lambda>_. True) [(''note'', ''a \"b\"'')]) = Some (annotation_json [(''note'', ''a \"b\"'')])"
proof -
  have bell: "annotations_utf8 [(''note'', [char_of (7 :: nat)])]"
    "list_all (annotation_ok (\<lambda>_. True)) [(''note'', [char_of (7 :: nat)])] = False"
    by code_simp+
  have good: "annotations_utf8 [(''note'', ''a \"b\"'')]"
    "list_all (annotation_ok (\<lambda>_. True)) [(''note'', ''a \"b\"'')] = True"
    by code_simp+
  show ?thesis
    unfolding annotation_patch_text [OF bell(1)] annotation_patch_text [OF good(1)] bell(2) good(2) by simp
qed

section \<open>The patches the program sends\<close>

definition request_text :: "(nat \<Rightarrow> bool) \<Rightarrow> request \<Rightarrow> string option" where
  "request_text print r =
     (case r of
        PatchPod ns n ann \<Rightarrow> Some (annotation_patch print ann)
      | PatchGroup ns n ann \<Rightarrow> Some (annotation_patch print ann)
      | _ \<Rightarrow> None)"

definition text_char :: "char \<Rightarrow> bool" where
  "text_char c \<longleftrightarrow> 32 \<le> (of_char c :: nat) \<and> (of_char c :: nat) \<le> 126"

lemma text_quotable: "list_all text_char s \<Longrightarrow> utf8_ok s \<and> all_quotable print s"
proof -
  assume s: "list_all text_char s"
  then have ascii: "\<forall>c \<in> set s. (of_char c :: nat) < 128" by (auto simp: list_all_iff text_char_def)
  then have "all_quotable print s"
    using s by (auto simp: all_quotable_def runes_ascii list_all_iff quotable_def is_print_def text_char_def)
  with utf8_ok_ascii [OF ascii] show ?thesis by blast
qed

lemma text_patch:
  assumes "list_all text_char k" "list_all text_char v"
  shows "json_parse (annotation_patch print [(k, v)]) = Some (annotation_json [(k, v)])"
  using text_quotable [OF assms(1), of print] text_quotable [OF assms(2), of print]
  by (subst annotation_patch_any) (simp_all add: annotations_utf8_def annotation_ok_def)

lemma digits_text: "list_all is_digit s \<Longrightarrow> list_all text_char s"
  by (auto simp: list_all_iff is_digit_def text_char_def)

lemma show_nat_text: "list_all text_char (show_nat n)"
  using show_nat_digits [of n] by (intro digits_text) (simp add: list_all_iff)

lemma formatJobIDs_text: "list_all text_char (formatJobIDs ids)"
proof -
  have "list_all text_char (join_with '','' ss)" if "list_all (list_all text_char) ss" for ss
    using that by (induction "'',''" ss rule: join_with.induct) (auto simp: text_char_def)
  from this [of "map (\<lambda>j. show_nat (unat j)) ids"] show ?thesis
    using show_nat_text by (simp add: formatJobIDs_def list.pred_map comp_def list.pred_True)
qed

text \<open>The jobids of a group and the cores of an admission are always written as JSON.\<close>

lemma recorded_jobids_text:
  "Option.bind (request_text print (recordJobIDs p ids)) json_parse =
     Some (annotation_json [(JobIDAnnotation, formatJobIDs ids)])"
proof -
  have "list_all text_char JobIDAnnotation" by (simp add: JobIDAnnotation_def text_char_def)
  from text_patch [OF this formatJobIDs_text] show ?thesis
    by (simp add: recordJobIDs_def request_text_def Let_def)
qed

lemma recorded_admission_text:
  "json_parse (annotation_patch print [(AdmittedCoresAnnotation, show_int cores)]) =
     Some (annotation_json [(AdmittedCoresAnnotation, show_int cores)])"
proof -
  have "list_all text_char (show_int cores)"
    using show_nat_text by (simp add: show_int_def text_char_def)
  then show ?thesis by (intro text_patch) (simp_all add: AdmittedCoresAnnotation_def text_char_def)
qed

text \<open>
  The attributes of a backend are not: with a rune that cannot be quoted in one of them, an API
  server that refuses a patch that is no JSON fails every attempt to reserve a pod of the group.
\<close>

lemma unquotable_attribute_blocks_Reserve:
  assumes "fl_placement f (groupKey p) = Some alloc" "pl_backend (ga_place alloc) \<noteq> []"
    and "annotations_utf8 (backend_annotations (ga_place alloc))"
    and "\<not> list_all (annotation_ok print) (backend_annotations (ga_place alloc))"
    and "\<And>r. Option.bind (request_text print r) json_parse = None \<Longrightarrow> api_write w r \<noteq> None"
  shows "\<exists>e. snd (Reserve w f p) = AsStatus (''stamp backend annotations: '' @ e)"
proof -
  let ?r = "PatchPod (p_namespace p) (p_name p) (backend_annotations (ga_place alloc))"
  have "Option.bind (request_text print ?r) json_parse = None"
    using annotation_patch_any [OF assms(3), of print] assms(4) by (simp add: request_text_def)
  with assms(5) obtain e where "api_write w ?r = Some e" by blast
  then have "snd (Reserve w f p) = AsStatus (''stamp backend annotations: '' @ e)"
    using assms(1,2) by (simp add: Reserve_def stampBackend_def)
  then show ?thesis by blast
qed

end
