(* ===== verification/Spec2Isabelle.thy ===== *)
theory Spec2Isabelle
  imports Scheduler_Sweeps Scheduler_Concurrent Webhook_Tls Webhook_Election Device_Daemon
    Allocation_Json Annotation_Patch
begin

text \<open>
  A verification library for Fluence, the Kubernetes scheduler plugin that places pod groups by
  matching them against a Flux (Fluxion) resource graph.

  \<^bold>\<open>The program.\<close> The scheduler plugin (\<open>pkg/fluence\<close>) builds a resource graph of the cluster
  once (\<open>pkg/cluster\<close> over the builder of \<open>pkg/jgf\<close>), turns each pod group into jobspecs
  (\<open>pkg/placement\<close>, \<open>pkg/jobspec\<close>), submits them to Fluxion through a thin wrapper
  (\<open>pkg/graph\<close>), caches the resulting placement and its jobids per group, admits nodes by
  it, records the jobids on the owning object, and frees them when the owner is gone. A mutating
  webhook (\<open>pkg/webhook\<close>) prepares the pods: its handlers inject the environment a device's
  attributes arrive in, create the PodGroups of gangs, split a coordinated quantum gang into one
  scout and its gated workers, and refuse what the cluster has no room for. A device plugin
  (\<open>pkg/deviceplugin\<close>) advertises the virtual resources on the nodes. The commands under \<open>cmd\<close>
  configure and start them.

  \<^bold>\<open>Theories.\<close>
  \<^item> \<open>Fluence_Prelude\<close>: Go's integers, strings, runes, decimal conversions and maps.
  \<^item> \<open>Kube\<close>: the Kubernetes objects, with the fields the code uses.
  \<^item> \<open>Go_Json\<close>: JSON values and their rendering by \<open>encoding/json\<close>. \<open>Json_Parse\<close>: their
    reading, and that what was rendered is read back (the locale \<open>json_renderer\<close>, interpreted for
    both renderings).
  \<^item> \<open>Jobspec\<close>, \<open>Allocation\<close>: the jobspec types and their JSON, the reading of an allocation.
  \<^item> \<open>Placement\<close>: \<open>placement.go\<close>, with what its jobspecs ask for and what its constraints
    select (an RFC 31 evaluator, \<open>holds\<close>, is the specification).
  \<^item> \<open>JGF\<close>: \<open>jgf.go\<close>, with the invariant that a builder with one root holds a tree.
  \<^item> \<open>Cluster\<close>: \<open>resources.go\<close>, \<open>resources_graph.go\<close> and \<open>cluster.go\<close>.
  \<^item> \<open>Cluster_Config\<close>: which configurations load, and how attributes are inherited and read back.
  \<^item> \<open>Cluster_Graph\<close>: the shape of the graph, its ranks, its capacity, and that compute and
    devices are matched on disjoint vertices.
  \<^item> \<open>Allocation_Json\<close>: the decoding of an allocation's text into the struct of \<open>allocation.go\<close>,
    where the vertices of a built graph come from, and the way from a graph through an allocation
    of it to the placement.
  \<^item> \<open>Annotation_Patch\<close>: the text of the patches the scheduler and the webhook write by hand, and
    when it is JSON.
  \<^item> \<open>Matcher\<close>: \<open>graph.go\<close>, and the contracts of the Fluxion client and of the plugin's
    \<open>matcher\<close> interface as the locales \<open>reapi_client\<close> and \<open>matcher\<close>. The wrapper gives the
    second from the first (a \<open>sublocale\<close>); a scripted client interprets both.
  \<^item> \<open>Scheduler\<close>: \<open>fluence.go\<close>, one definition per function.
  \<^item> \<open>Scheduler_Match\<close>: matching is all-or-nothing, the extension points, construction.
  \<^item> \<open>Scheduler_System\<close>: the plugin as a state machine, what holds in every reachable state, what an
    annotation from before a restart can free, and that a leaked allocation stays leaked
    (\<open>orphan\<close>). \<open>Scheduler_Sweeps\<close>: the periodic sweeps, the registered informer handlers, how long
    an abandoned PodGroup can stay, and which PodGroups are never deleted.
  \<^item> \<open>Scheduler_Concurrent\<close>: the same functions section by section, as they take the locks, with
    goroutines that interleave between sections; that they compose to the functions of
    \<open>Scheduler\<close>, what every interleaving keeps (a predicate \<open>safe\<close> on what is left of a goroutine,
    in the manner of rely and guarantee), and what an overlap breaks.
  \<^item> \<open>Admission\<close>: \<open>admission.go\<close> and the mutator of \<open>webhook.go\<close>, with the budget as sums over
    nodes and pods, that admitting one request at a time never promises more than can be reached,
    and that overlapping admissions do.
  \<^item> \<open>Pod_Patch\<close>: the patch operations of \<open>spec/spec.go\<close>, what each does to a pod
    (\<open>apply_op\<close>, after RFC 6902) and their JSON. \<open>Patch_Sound\<close>: when a list of operations
    applies, and what injecting an environment makes of a container.
  \<^item> \<open>Handlers\<close>: the package \<open>pkg/webhook/handlers\<close>, one definition per function.
    \<open>Handlers_Sound\<close>: the contract of a handler as the locale \<open>mutation\<close>, interpreted for the
    fluxion, gang and quantum handlers: operations apply to the pod they were computed from, the
    pod keeps its identity and the cluster only grows. \<open>Handlers_Roles\<close>: what a worker and a
    scout become, and that a gang has one scout.
  \<^item> \<open>Webhook\<close>: the registry of \<open>handler.go\<close>, the dispatcher and the HTTP answer of
    \<open>webhook.go\<close>. \<open>Webhook_Dispatch\<close>: what holds of every configured list of handlers (the
    locale \<open>dispatcher\<close>, interpreted on the registered handlers). \<open>Webhook_Roles\<close>: refusals,
    members of a gang and answers end to end.
  \<^item> \<open>Webhook_Calls\<close>: the functions of the webhook that use the API as the calls they make, each
    continued by the reply. \<open>Webhook_Sequential\<close>: run without interruption they are the functions of
    \<open>Handlers\<close> and \<open>Webhook\<close> (the locale \<open>serves\<close> is the contract between a handler and its
    calls, interpreted for each of the three), how many calls they make and what they may ask.
  \<^item> \<open>Webhook_Concurrent\<close>: the server, whose requests interleave call by call with each other and
    with others who change the cluster; patches, types of the cluster and progress under every
    schedule. \<open>Webhook_Election\<close>: the roles of a gang under every schedule, and the races.
  \<^item> \<open>Webhook_Tls\<close>: base64, PEM, \<open>GenerateCerts\<close>, \<open>EnsureCABundle\<close> and \<open>main\<close> with them; that the API
    server trusts the webhook that has started.
  \<^item> \<open>Device_Plugin\<close>: \<open>plugin.go\<close> and its command. \<open>Device_Served\<close>: which resources the kubelet
    reaches, and when the stream of devices ends. \<open>Device_Daemon\<close>: the process with one goroutine
    per resource, signals and failures, and that it stops and cleans up.
  \<^item> \<open>Commands\<close>: the webhook's command and the recovery probe; that the device plugin
    advertises what the scheduler knows.
  \<^item> This theory: properties that span components, from a device's attributes to the workload's
    environment, and from the webhook's gangs to the scheduler's groups and their end.

  \<^bold>\<open>State.\<close> \<open>Fluence\<close> is the record \<open>fluence\<close>: the matcher's state, the known device types
  (None for a nil map), the memo from group keys to allocations and the exclusions. A handler
  is a function from the state, the pod and what the API answers (\<open>api\<close>) to the new state, the
  status and the requests sent. In \<open>Scheduler\<close> a handler is one step; in \<open>Scheduler_Concurrent\<close>
  each of its critical sections and each write to the API is. The state machine also keeps which
  jobid annotations the owners of each key have had. Those from before the process started are
  arbitrary: they survive a restart, while the graph is rebuilt and may hand out the same jobids,
  so the invariants name them (\<open>recorded_ids\<close> of the first state) as the one way in which another
  group's allocation is freed.
  The webhook keeps no state of its own: its \<open>mutator\<close> carries the Kubernetes API as a store of
  which any call may fail, the package-level registry is the record \<open>registry\<close>, and a handler
  gives its operations, the pod as it updated it in place and the mutator. The device plugin's
  state is which socket is listened on and what is registered with the kubelet.

  \<^bold>\<open>Conventions.\<close> A Go map is an association list with distinct keys in some order when it is
  iterated, so a theorem about it holds for every iteration order, and a partial function when
  it is only looked up. An error result is the left side of a sum. Resource counts are wrapped
  to 64 bits, jobids are 64-bit words. Recursions are structural or terminate by a measure
  that is proved, but for the JSON parser, which takes twice the length of the text as fuel;
  more of it changes nothing (\<open>parse_more_fuel\<close>), so None is a syntax error. Loops over counts
  run \<open>nat\<close> times. The one loop that may run for ever, the stream of devices, is a \<open>partial_function\<close> whose value None is not
  returning; when it returns is a lemma. The sweeps are given the number of ticks before the
  plugin's context ends. An admission request makes at most \<open>call_budget\<close> calls, a bound from its
  handlers and the owners of its pod that is proved. Programs that call the API and sections of
  goroutines are datatypes that recurse through the reply or the state, so they always end.
  Of a pod's volumes only the names are kept.

  \<^bold>\<open>Parameters.\<close> The Fluxion client, the YAML coder and the JSON decoders of configurations and
  admission reviews, the table of printable runes, keys and X.509 certificates, the
  file system, the environment, the clock and the Kubernetes API are not under \<open>src\<close> and are
  arguments of the definitions that use them. The assumptions on them are those of the locales (a
  match hands out a jobid that this matcher has not handed out before and holds it, a failed match holds
  nothing new, a cancel releases at most its jobid and exactly it when it succeeds) and
  \<open>reliable_pki\<close>: a certificate that was made reads back as its template with its issuer and key,
  and verifies against an authority of that name with the signing key. Of Fluxion's allocation
  text the theorems assume its documented formats: a document in the graph's own format, alone or
  under \<open>scheduling\<close>, that lists vertices of the graph with their type, name and properties
  (\<open>allocates\<close>).

  \<^bold>\<open>Not modelled.\<close> Logging and printing, the transport of gRPC and HTTPS, the caches of the informers
  (a lister answers like the API), the goroutine in which the device plugin's gRPC server serves
  its listener (an open listener counts as served), and the three calls of the device plugin that
  answer with a constant. \<open>cmd/fluence\<close> only registers the plugin. The Python sidecar and providers are separate
  programs. Nothing else of the Go code is left out: what no definition is mapped to are comments,
  imports, interface declarations and compile-time checks.

  \<^bold>\<open>Deviations found.\<close> Some theorems and lemmas state that the code does not do what its
  comments say. Scheduler: a teardown that overlaps a failed attempt and a retry leaks the new
  allocation, a pod whose group is torn down between two extension points is bound without one,
  an out-of-date jobid annotation leaks an allocation, one from before a restart frees the
  allocation of another group that has been given the same jobid, exclusions can outlive their
  group, a scout PodGroup is deleted without the checks of the other groups, a plugin without a
  configuration submits device jobspecs, a pod without a group can share the key of a gang, an attribute with a control character makes the annotation patch no JSON, a
  cluster name other than the default breaks default parents, and an attribute of a nested
  resource prunes its parent. Webhook: a scout whose PodGroup has been reaped is
  elected again, a finished standalone pod is still promised its cores, the reserve is not held
  back from work that could be preempted, a handler named twice refuses its own pods, and two
  requests that overlap are both admitted into room for one. The election of a scout without a
  completion index races too, as its comment says.
  Device plugin: resources whose names coincide after sanitizing share a socket, and without
  \<open>FLUENCE_RESOURCES\<close> the plugin and the scheduler read different configurations.
\<close>

text \<open>The patch of the CA bundle is written as text too; base64 needs no escape.\<close>

lemma ca_patch_parses: "json_parse (ca_patch caPEM) = Some (bundle_patch (b64_encode caPEM))"
proof -
  have plain: "utf8_ok ''op''" "utf8_ok ''replace''" "utf8_ok ''path''" "utf8_ok ''value''"
    "utf8_ok ''/webhooks/0/clientConfig/caBundle''"
    by (rule utf8_ok_ascii, simp)+
  have "(of_char c :: nat) < 128" if "b64_char c" for c
    using b64_char_plain(2) [OF that] by simp
  then have "utf8_ok (b64_encode caPEM)"
    using b64_encode_chars [of caPEM] by (intro utf8_ok_ascii) (simp add: list_all_iff)
  with plain show ?thesis unfolding ca_patch_json by (intro parse_compact) (simp add: bundle_patch_def)
qed

section \<open>The attributes of a device reach the workload\<close>

lemma backend_annotations_at:
  assumes "gomap_ok (pl_attrs place)" "map_of (pl_attrs place) k = Some v"
  shows "map_of (backend_annotations place) (AttributeAnnotationPrefix @ k) = Some v"
proof -
  have "map_of (foldl (\<lambda>ann (k, v). gput ann (AttributeAnnotationPrefix @ k) v) ann attrs) (AttributeAnnotationPrefix @ k)
      = (case map_of attrs k of None \<Rightarrow> map_of ann (AttributeAnnotationPrefix @ k) | Some v \<Rightarrow> Some v)"
    if "gomap_ok attrs" for ann attrs :: "(string, string) gomap"
    using that
  proof (induction attrs arbitrary: ann)
    case (Cons kv attrs)
    then have "gomap_ok attrs" "fst kv \<notin> fst ` set attrs" by (auto simp: gomap_ok_def)
    moreover from this have "map_of attrs (fst kv) = None" by (simp add: map_of_eq_None_iff)
    ultimately show ?case using Cons.IH by (auto simp: split_beta split: option.split)
  qed simp
  with assms show ?thesis by (simp add: backend_annotations_def)
qed

lemma attribute_stamped:
  assumes "attrs_encodable (cr_resolved r)" "map_of (cr_resolved r) ''backend'' = None" "(k, x) \<in> set (cr_resolved r)"
    and "map_of (pl_attrs place) = surfaced r" "gomap_ok (pl_attrs place)"
  shows "map_of (backend_annotations place) (AttributeAnnotationPrefix @ k) = Some x"
proof -
  have "map_of (cr_resolved r) k = Some x"
    using assms(1,3) by (simp add: attrs_encodable_def gomap_ok_def)
  then have "map_of (pl_attrs place) k = Some x"
    using assms(2,4) by (auto simp: surfaced_def)
  then show ?thesis using assms(5) by (intro backend_annotations_at)
qed

lemma attribute_injected:
  assumes "r \<in> set (forest (rc_resources rc))" "(k, x) \<in> set (cr_resolved r)"
    and "mu_keys m = AttributeKeys (rc_resources rc)"
    and "i < length (p_containers p)" "RequestsFluxionResource (p_containers p ! i)"
    "\<not> HasEnv (p_containers p ! i) (EnvVarName k)"
  shows "\<exists>q. apply_ops (fst (fst (fluxion_mutate m p))) p = Some q \<and>
    AnnotationEnv (EnvVarName k) (AttributeAnnotationPrefix @ k) \<in> set (c_env (p_containers q ! i))"
proof -
  let ?q = "snd (InjectEnvOps (InjectedEnv m) p)"
  have "k \<in> set (mu_keys m)"
    using assms(1,2) by (force simp: assms(3) AttributeKeys_def set_walk_keys)
  then have "AnnotationEnv (EnvVarName k) (AttributeAnnotationPrefix @ k) \<in> set (InjectedEnv m)"
    by (simp add: InjectedEnv_def)
  then have "AnnotationEnv (EnvVarName k) (AttributeAnnotationPrefix @ k) \<in> set (c_env (p_containers ?q ! i))"
    using assms(4-6) by (simp add: InjectEnvOps_applies AnnotationEnv_def FieldEnv_def)
  then show ?thesis by (simp add: fluxion_mutate_def InjectEnvOps_applies)
qed

text \<open>
  C23: an attribute configured for a device reaches the workload. Let the graph be built from a
  configuration, let the scheduler read a placement with a backend from the text of an allocation
  of that graph and keep it as the memo of a pod's group, and let the webhook be started with the
  same configuration. The placement was read for the first named virtual vertex of the allocation,
  which was made from one of the configured resources and has its properties. Stamping the pod
  then sends one patch, and every attribute of that resource is in it, with its value, as the
  annotation of the attribute; and the webhook has given a container that asks for a Fluxion
  resource, unless it defines the variable itself, the environment variable of the attribute with
  a reference to exactly that annotation.
\<close>
theorem attribute_reaches_workload:
  assumes "build_builder nodes opts = Inr (b, ranks)" "[] \<notin> n_name ` set nodes"
    and "go_resources opts = rc_resources rc" "mu_keys m = AttributeKeys (rc_resources rc)"
    and "list_all (\<lambda>r. attrs_encodable (cr_resolved r) \<and> map_of (cr_resolved r) ''backend'' = None)
      (forest (rc_resources rc))"
    and "allocates b (b_vertices alloc)" "R \<in> {Document alloc, rv1_document execution alloc}" "json_ok R"
    and "s \<in> {json_compact R, json_indent R}" "iterates order"
    and "PlacementFromAllocation (unmarshal_allocation order msg) s = Inr place" "pl_backend place \<noteq> []"
    and "fl_placement f (groupKey p) = Some memo" "ga_place memo = place"
    and "i < length (p_containers p)" "RequestsFluxionResource (p_containers p ! i)"
  shows "\<exists>v r ann. find (\<lambda>v. virtual_vertex v \<and> v_name v \<noteq> []) (b_vertices alloc) = Some v \<and>
    pl_backend place = v_name v \<and> r \<in> set (forest (rc_resources rc)) \<and> from_resource r v \<and>
    stampBackend f p = [PatchPod (p_namespace p) (p_name p) ann] \<and>
    (\<forall>(k, x) \<in> set (cr_resolved r). map_of ann (AttributeAnnotationPrefix @ k) = Some x \<and>
       (HasEnv (p_containers p ! i) (EnvVarName k) \<or>
        (\<exists>q. apply_ops (fst (fst (fluxion_mutate m p))) p = Some q \<and>
           AnnotationEnv (EnvVarName k) (AttributeAnnotationPrefix @ k) \<in> set (c_env (p_containers q ! i)))))"
proof -
  obtain v r where v: "find (\<lambda>v. virtual_vertex v \<and> v_name v \<noteq> []) (b_vertices alloc) = Some v"
      "pl_backend place = v_name v"
    and r: "r \<in> set (forest (rc_resources rc))" "from_resource r v" "map_of (pl_attrs place) = surfaced r"
    using placement_of_allocation [OF assms(1,2) assms(5) [folded assms(3)] assms(6-10), of msg] assms(3,11,12)
    by (auto split: option.splits)
  then have ok: "attrs_encodable (cr_resolved r)" "map_of (cr_resolved r) ''backend'' = None"
    using assms(5) by (simp_all add: list_all_iff)
  note stamped = attribute_stamped [OF ok _ r(3) placement_attrs_ok [OF assms(11)]]
  note injected = attribute_injected [OF r(1) _ assms(4,15,16)]
  have "stampBackend f p = [PatchPod (p_namespace p) (p_name p) (backend_annotations place)]"
    using assms(12-14) by (simp add: stampBackend_def)
  with v r(1,2) stamped injected show ?thesis
    by (intro exI [of _ v] exI [of _ r] exI [of _ "backend_annotations place"] conjI) auto
qed

text \<open>The sample configuration of \<open>Cluster_Config\<close>, and a webhook started with it.\<close>

definition sample_mutator :: mutator where
  "sample_mutator = \<lparr>mu_keys = AttributeKeys (rc_resources sample_loaded), mu_client = None,
     mu_control = False, mu_reserve = 0\<rparr>"

definition sample_placed :: "placement \<Rightarrow> unit fluence" where
  "sample_placed place = \<lparr>fl_matcher = (), fl_known = None,
     fl_placement = [groupKey lone_member \<mapsto> \<lparr>ga_place = place, ga_jobids = [7]\<rparr>], fl_excluded = Map.empty\<rparr>"

theorem attribute_reaches_workload_witness:
  "\<exists>place q ann. PlacementFromAllocation (unmarshal_allocation rev id) (json_indent (Document sample_graph)) = Inr place \<and>
     pl_backend place = ''rigetti'' \<and>
     stampBackend (sample_placed place) lone_member = [PatchPod ''ns'' ''p'' ann] \<and>
     map_of ann (AttributeAnnotationPrefix @ ''region'') = Some ''us-east-1'' \<and>
     apply_ops (fst (fst (fluxion_mutate sample_mutator lone_member))) lone_member = Some q \<and>
     AnnotationEnv (EnvVarName ''region'') (AttributeAnnotationPrefix @ ''region'') \<in> set (c_env (p_containers q ! 0))"
proof -
  let ?R = "Document sample_graph"
  have enc: "list_all (\<lambda>r. attrs_encodable (cr_resolved r) \<and> map_of (cr_resolved r) ''backend'' = None)
      (forest (rc_resources sample_loaded))"
    by code_simp
  have utf8: "json_ok ?R" by code_simp
  have order: "iterates rev" by (auto simp: iterates_def gomap_ok_def rev_map [symmetric])
  have names: "[] \<notin> n_name ` set [sample_node]" by (simp add: sample_node_def)
  have forms: "?R \<in> {?R, rv1_document JNull sample_graph}" "json_indent ?R \<in> {json_compact ?R, json_indent ?R}"
    by simp_all
  have found: "map_option v_name
      (find (\<lambda>v. virtual_vertex v \<and> v_name v \<noteq> []) (b_vertices sample_graph)) = Some ''rigetti''"
    by code_simp
  have region: "list_all (\<lambda>r. (''region'', ''us-east-1'') \<in> set (cr_resolved r)) (forest (rc_resources sample_loaded))"
    by code_simp
  have same: "go_resources sample_options = rc_resources sample_loaded"
    "mu_keys sample_mutator = AttributeKeys (rc_resources sample_loaded)"
    by (simp_all add: sample_options_def sample_mutator_def)
  have pod: "0 < length (p_containers lone_member)" "RequestsFluxionResource (p_containers lone_member ! 0)"
    "\<not> HasEnv (p_containers lone_member ! 0) (EnvVarName ''region'')"
    "p_namespace lone_member = ''ns''" "p_name lone_member = ''p''"
    by code_simp+
  obtain place where place: "PlacementFromAllocation (unmarshal_allocation rev id) (json_indent ?R) = Inr place"
    "pl_backend place \<noteq> []"
    using placement_of_allocation [OF sample_builds names enc [folded same(1)] sample_allocates forms(1) utf8 forms(2) order,
        of id] found
    by (auto split: option.splits)
  have memo: "fl_placement (sample_placed place) (groupKey lone_member) = Some \<lparr>ga_place = place, ga_jobids = [7]\<rparr>"
    "ga_place \<lparr>ga_place = place, ga_jobids = [7]\<rparr> = place"
    by (simp_all add: sample_placed_def)
  obtain v r ann where reached: "find (\<lambda>v. virtual_vertex v \<and> v_name v \<noteq> []) (b_vertices sample_graph) = Some v"
    "pl_backend place = v_name v" "r \<in> set (forest (rc_resources sample_loaded))"
    "stampBackend (sample_placed place) lone_member = [PatchPod (p_namespace lone_member) (p_name lone_member) ann]"
    "\<forall>(k, x) \<in> set (cr_resolved r). map_of ann (AttributeAnnotationPrefix @ k) = Some x \<and>
       (HasEnv (p_containers lone_member ! 0) (EnvVarName k) \<or>
        (\<exists>q. apply_ops (fst (fst (fluxion_mutate sample_mutator lone_member))) lone_member = Some q \<and>
           AnnotationEnv (EnvVarName k) (AttributeAnnotationPrefix @ k) \<in> set (c_env (p_containers q ! 0))))"
    using attribute_reaches_workload [OF sample_builds names same enc sample_allocates forms(1) utf8 forms(2) order
        place memo pod(1,2)] by blast
  from reached(3) region have "(''region'', ''us-east-1'') \<in> set (cr_resolved r)" by (simp add: list_all_iff)
  with reached(5) pod(3) obtain q where "map_of ann (AttributeAnnotationPrefix @ ''region'') = Some ''us-east-1''"
    "apply_ops (fst (fst (fluxion_mutate sample_mutator lone_member))) lone_member = Some q"
    "AnnotationEnv (EnvVarName ''region'') (AttributeAnnotationPrefix @ ''region'') \<in> set (c_env (p_containers q ! 0))"
    by blast
  moreover have "pl_backend place = ''rigetti''" using reached(1,2) found by simp
  ultimately show ?thesis using place(1) reached(4) [unfolded pod(4,5)] by blast
qed

section \<open>The webhook's gangs are the scheduler's groups\<close>

lemma apply_op_identity: "apply_op o' p = Some q \<Longrightarrow> p_namespace q = p_namespace p \<and> p_name q = p_name p"
  by (cases o') (auto split: if_splits option.splits)

lemma apply_ops_identity: "apply_ops os p = Some q \<Longrightarrow> p_namespace q = p_namespace p \<and> p_name q = p_name p"
  by (induction os arbitrary: p) (auto split: option.splits dest: apply_op_identity)

lemma linked_PodGroupName: "linked_to q g \<Longrightarrow> PodGroupName q = g"
  by (auto simp: linked_to_def PodGroupName_def split: option.splits)

lemma shared_names: "webhookGroupLabel = GroupLabel" "scoutGroupSuffix = ScoutGroupSuffix"
  by (simp_all add: webhookGroupLabel_def GroupLabel_def scoutGroupSuffix_def ScoutGroupSuffix_def)

text \<open>What a member that is not the scout, and the scout, look like to the scheduler.\<close>

lemma worker_seen:
  assumes "apply_ops os p = Some w" "worker_of p w" "resolveGroup p \<noteq> []"
  shows "PodGroupName w = resolveGroup p" "groupKey w = p_namespace p @ ''/'' @ resolveGroup p"
    "member_of (resolveGroup p) w" "\<not> member_of (resolveGroup p @ scoutGroupSuffix) w" "p_gates w \<noteq> []"
proof -
  have w: "PodGroupName w = resolveGroup p" "nstr (p_labels w) GroupLabel = resolveGroup p" "p_gates w \<noteq> []"
    using assms(2) linked_PodGroupName by (auto simp: worker_of_def GroupName_def Label_def)
  then show "PodGroupName w = resolveGroup p" "groupKey w = p_namespace p @ ''/'' @ resolveGroup p"
    "member_of (resolveGroup p) w" "\<not> member_of (resolveGroup p @ scoutGroupSuffix) w" "p_gates w \<noteq> []"
    using apply_ops_identity [OF assms(1)] assms(3)
    by (auto simp: groupKey_def member_of_def shared_names ScoutGroupSuffix_def)
qed

lemma scout_seen:
  assumes "apply_ops os p = Some s" "scout_of p s" "resolveGroup p \<noteq> []"
  shows "PodGroupName s = resolveGroup p @ scoutGroupSuffix"
    "groupKey s = p_namespace p @ ''/'' @ resolveGroup p @ scoutGroupSuffix"
    "member_of (resolveGroup p @ scoutGroupSuffix) s" "\<not> member_of (resolveGroup p) s"
proof -
  have s: "PodGroupName s = resolveGroup p @ ScoutGroupSuffix"
    "nstr (p_labels s) GroupLabel = resolveGroup p @ ScoutGroupSuffix"
    using assms(2) linked_PodGroupName by (auto simp: scout_of_def GroupName_def Label_def)
  then show "PodGroupName s = resolveGroup p @ scoutGroupSuffix"
    "groupKey s = p_namespace p @ ''/'' @ resolveGroup p @ scoutGroupSuffix"
    "member_of (resolveGroup p @ scoutGroupSuffix) s" "\<not> member_of (resolveGroup p) s"
    using apply_ops_identity [OF assms(1)] assms(3)
    by (auto simp: groupKey_def member_of_def shared_names ScoutGroupSuffix_def)
qed

text \<open>
  C9: what the webhook makes of a coordinated gang is what the scheduler takes it for. Let the
  webhook admit a member \<open>p\<close> of a gang that is not its scout, and the scout \<open>p'\<close>, each in the cluster
  of its own time, and let \<open>w\<close> and \<open>s\<close> be the pods after the patches. Then \<open>w\<close> is keyed under the
  gang's name and \<open>s\<close> under a name of its own; \<open>w\<close> counts as a member of the gang and not of the
  scout's group, and \<open>s\<close> the other way round; \<open>w\<close>, being gated, is not placed with its group yet. And
  when the gang (not itself named with the scout suffix) has been scheduled and all the members the
  scheduler sees of it are terminal,
  reconciling the group of \<open>w\<close> asks for the deletion of exactly the PodGroup of \<open>w\<close> and, beside it,
  the PodGroup of \<open>s\<close>.
\<close>
theorem gang_meets_scheduler:
  assumes worker: "p_scheduler p = SchedulerName" "PodRequestsResource p QuantumResource"
      "quantum_admit m p = None" "shared_gang m p" "\<not> isScout m p (resolveGroup p)"
      "MutateOrDeny (configured ov []) m p = (Inr (os, q), m1)" "apply_ops os p = Some w"
    and scout: "p_scheduler p' = SchedulerName" "PodRequestsResource p' QuantumResource"
      "quantum_admit m' p' = None" "shared_gang m' p'" "isScout m' p' (resolveGroup p')"
      "MutateOrDeny (configured ov []) m' p' = (Inr (os', q'), m1')" "apply_ops os' p' = Some s"
    and gang: "resolveGroup p' = resolveGroup p" "p_namespace p' = p_namespace p" "resolveGroup p \<noteq> []"
      "\<not> has_suffix (resolveGroup p) scoutGroupSuffix"
    and finished: "api_group w' (p_namespace p) (resolveGroup p) = Inr pg"
      "gstr (pg_annotations pg) CreatedByAnnotation = CreatedByValue" "parseJobIDs (pg_annotations pg) = Some ids"
      "api_pods w' (p_namespace p) = Inr pods" "list_all podTerminal (filter (member_of (resolveGroup p)) pods)"
      "api_write w' (DeleteGroup (p_namespace p) (resolveGroup p)) = None"
  shows "groupKey w = p_namespace p @ ''/'' @ resolveGroup p \<and>
    groupKey s = p_namespace p @ ''/'' @ resolveGroup p @ scoutGroupSuffix \<and>
    member_of (resolveGroup p) w \<and> \<not> member_of (resolveGroup p) s \<and>
    member_of (resolveGroup p @ scoutGroupSuffix) s \<and> \<not> member_of (resolveGroup p @ scoutGroupSuffix) w \<and>
    (case groupPods api w of Inl _ \<Rightarrow> True | Inr ps \<Rightarrow> w \<notin> set ps) \<and>
    reconcileGroup w' now (p_namespace w) (PodGroupName w) =
      [DeleteGroup (p_namespace w) (PodGroupName w), DeleteGroup (p_namespace s) (PodGroupName s)]"
proof -
  have "worker_of p w"
    using worker_admitted [OF worker(1-5), of ov] worker(6,7) by auto
  note w = worker_seen [OF worker(7) this gang(3)]
  have "scout_of p' s"
    using scout_admitted [OF scout(1-5), of ov] scout(6,7) by auto
  note s = scout_seen [OF scout(7) this gang(3) [folded gang(1)], unfolded gang(1,2)]
  have names: "p_namespace w = p_namespace p" "p_namespace s = p_namespace p"
    using apply_ops_identity [OF worker(7)] apply_ops_identity [OF scout(7)] gang(2) by simp_all
  have "may_reap now (resolveGroup p) pg pods"
    using finished(3,5) by (simp add: may_reap_def Let_def)
  then have "reconcileGroup w' now (p_namespace p) (resolveGroup p) =
      [DeleteGroup (p_namespace p) (resolveGroup p), DeleteGroup (p_namespace p) (resolveGroup p @ scoutGroupSuffix)]"
    using gang(3,4) finished(1,2,4,6) by (simp add: reconcileGroup_def Let_def)
  moreover have "case groupPods api w of Inl _ \<Rightarrow> True | Inr ps \<Rightarrow> w \<notin> set ps"
    using w(5) by (auto simp: groupPods_def w(1) gang(3) split: sum.split)
  ultimately show ?thesis using w s by (simp add: names)
qed

text \<open>A gang of three: its first member is the scout; once the workers have finished, both groups go.\<close>

definition vqe_group :: pod_group where
  "vqe_group = \<lparr>pg_name = ''vqe'', pg_namespace = ''ns'', pg_labels = [],
     pg_annotations = [(CreatedByAnnotation, CreatedByValue), (JobIDAnnotation, ''7'')], pg_min_count = 2, pg_created = 0\<rparr>"

definition vqe_api :: api where
  "vqe_api = \<lparr>api_pods = (\<lambda>_. Inr []), api_groups = Inr [vqe_group], api_group = (\<lambda>_ _. Inr vqe_group),
     api_write = (\<lambda>_. None)\<rparr>"

theorem gang_meets_scheduler_witness:
  "\<exists>w s. groupKey w = ''ns/vqe'' \<and> groupKey s = ''ns/vqe-scout'' \<and>
     reconcileGroup vqe_api 0 (p_namespace w) (PodGroupName w) =
       [DeleteGroup ''ns'' ''vqe'', DeleteGroup (p_namespace s) (PodGroupName s)]"
proof -
  have worker: "p_scheduler pair_worker = SchedulerName" "PodRequestsResource pair_worker QuantumResource"
    "quantum_admit empty_cluster pair_worker = None" "shared_gang empty_cluster pair_worker"
    "\<not> isScout empty_cluster pair_worker (resolveGroup pair_worker)"
    and scout: "p_scheduler pair_scout = SchedulerName" "PodRequestsResource pair_scout QuantumResource"
    "quantum_admit empty_cluster pair_scout = None" "shared_gang empty_cluster pair_scout"
    "isScout empty_cluster pair_scout (resolveGroup pair_scout)"
    by code_simp+
  obtain os q m1 w where w: "MutateOrDeny (configured [] []) empty_cluster pair_worker = (Inr (os, q), m1)"
    "apply_ops os pair_worker = Some w" "worker_of pair_worker w"
    using worker_admitted [OF worker, of "[]"] by blast
  obtain os' q' m1' s where s: "MutateOrDeny (configured [] []) empty_cluster pair_scout = (Inr (os', q'), m1')"
    "apply_ops os' pair_scout = Some s" "scout_of pair_scout s"
    using scout_admitted [OF scout, of "[]"] by blast
  have gang: "resolveGroup pair_scout = resolveGroup pair_worker" "p_namespace pair_scout = p_namespace pair_worker"
    "resolveGroup pair_worker \<noteq> []" "\<not> has_suffix (resolveGroup pair_worker) scoutGroupSuffix"
    and names: "resolveGroup pair_worker = ''vqe''" "p_namespace pair_worker = ''ns''"
    and group: "gstr (pg_annotations vqe_group) CreatedByAnnotation = CreatedByValue"
      "gstr (pg_annotations vqe_group) JobIDAnnotation = formatJobIDs [7]"
    by code_simp+
  have recorded: "parseJobIDs (pg_annotations vqe_group) = Some [7]"
    using parse_formatJobIDs [of "[7]"] by (simp add: parseJobIDs_def group(2))
  note both = gang_meets_scheduler [OF worker w(1,2) scout s(1,2) gang, of vqe_api vqe_group "[7]" "[]" _ 0]
  have "groupKey w = ''ns/vqe'' \<and> groupKey s = ''ns/vqe-scout'' \<and>
      reconcileGroup vqe_api 0 (p_namespace w) (PodGroupName w) =
        [DeleteGroup (p_namespace w) (PodGroupName w), DeleteGroup (p_namespace s) (PodGroupName s)]"
    using both group(1) recorded by (simp add: vqe_api_def names scoutGroupSuffix_def)
  moreover have "p_namespace w = ''ns''" "PodGroupName w = ''vqe''"
    using apply_ops_identity [OF w(2)] worker_seen(1) [OF w(2,3) gang(3)] by (simp_all add: names)
  ultimately show ?thesis by (intro exI [of _ w] exI [of _ s]) simp
qed

section \<open>A finished gang is freed\<close>

text \<open>
  C10: a gang that has finished does not hold resources for ever. Once the jobids of its
  allocation are recorded on the PodGroup the webhook created for it and all of its members are
  terminal, the next sweep that can read the API asks for the PodGroup's deletion, and handling
  that deletion frees exactly the gang's allocation and forgets it.
\<close>
theorem finished_gang_is_freed:
  assumes contract: "reliable_matcher do_match do_cancel held issued"
    and listed: "api_groups w = Inr pgs" "pg \<in> set pgs" "api_group w (pg_namespace pg) (pg_name pg) = Inr pg"
      "api_pods w (pg_namespace pg) = Inr pods"
    and ours: "gstr (pg_annotations pg) CreatedByAnnotation = CreatedByValue" "pg_name pg \<noteq> []"
    and finished: "list_all podTerminal (filter (member_of (pg_name pg)) pods)"
    and recorded: "fl_placement f (pg_namespace pg @ ''/'' @ pg_name pg) = Some alloc"
      "gstr (pg_annotations pg) JobIDAnnotation = formatJobIDs (ga_jobids alloc)" "ga_jobids alloc \<noteq> []"
  shows "DeleteGroup (pg_namespace pg) (pg_name pg) \<in> set (reconcileAll w now) \<and>
    held (fl_matcher (onPodGroupDeleted do_cancel f (Deleted pg))) = held (fl_matcher f) - set (ga_jobids alloc) \<and>
    fl_placement (onPodGroupDeleted do_cancel f (Deleted pg)) =
      (fl_placement f)(pg_namespace pg @ ''/'' @ pg_name pg := None)"
proof
  have "parseJobIDs (pg_annotations pg) = Some (ga_jobids alloc)"
    using recorded(2,3) parse_formatJobIDs [of "ga_jobids alloc"] by (simp add: parseJobIDs_def)
  then have "may_reap now (pg_name pg) pg pods" using finished by (simp add: may_reap_def Let_def)
  then have "DeleteGroup (pg_namespace pg) (pg_name pg) \<in> set (reconcileGroup w now (pg_namespace pg) (pg_name pg))"
    using listed ours by (simp add: reconcileGroup_def Let_def)
  then show "DeleteGroup (pg_namespace pg) (pg_name pg) \<in> set (reconcileAll w now)"
    using listed(1,2) ours(1) by (auto simp: reconcileAll_def)
  have "gstr (pg_annotations pg) JobIDAnnotation \<in>
      {[], formatJobIDs (memo_ids f (pg_namespace pg @ ''/'' @ pg_name pg))}"
    using recorded by (simp add: memo_ids_def)
  from teardown_exact [OF contract this] recorded(1)
  show "held (fl_matcher (onPodGroupDeleted do_cancel f (Deleted pg))) = held (fl_matcher f) - set (ga_jobids alloc) \<and>
    fl_placement (onPodGroupDeleted do_cancel f (Deleted pg)) =
      (fl_placement f)(pg_namespace pg @ ''/'' @ pg_name pg := None)"
    by (simp add: onPodGroupDeleted_def memo_ids_def)
qed

text \<open>A gang of one whose pod has succeeded, on the sample matcher.\<close>

definition done_group :: pod_group where
  "done_group = (gang_group ''7'')\<lparr>pg_annotations :=
     [(CreatedByAnnotation, CreatedByValue), (JobIDAnnotation, ''7'')]\<rparr>"

definition done_api :: api where
  "done_api = \<lparr>api_pods = (\<lambda>_. Inr [gang_pod\<lparr>p_phase := ''Succeeded''\<rparr>]), api_groups = Inr [done_group],
     api_group = (\<lambda>_ _. Inr done_group), api_write = (\<lambda>_. None)\<rparr>"

theorem finished_gang_is_freed_witness:
  "DeleteGroup ''ns'' ''g'' \<in> set (reconcileAll done_api 0) \<and>
   set (gang_held (onPodGroupDeleted (Cancel sc_cancel) (gang_prefilter (gang_start [Inr ''compute'']))
     (Deleted done_group))) = {3}"
proof -
  let ?f = "gang_prefilter (gang_start [Inr ''compute''])"
  have group: "pg_namespace done_group = ''ns''" "pg_name done_group = ''g''"
    "gstr (pg_annotations done_group) CreatedByAnnotation = CreatedByValue"
    "gstr (pg_annotations done_group) JobIDAnnotation = ''7''"
    by (simp_all add: done_group_def gang_group_def gstr_def CreatedByAnnotation_def JobIDAnnotation_def)
  have "formatJobIDs [7] = ''7''" "podTerminal (gang_pod\<lparr>p_phase := ''Succeeded''\<rparr>)" by code_simp+
  then show ?thesis
    using finished_gang_is_freed [OF scripted.fluxion.reliable_matcher_axioms, where w = done_api
        and pg = done_group and pgs = "[done_group]" and pods = "[gang_pod\<lparr>p_phase := ''Succeeded''\<rparr>]"
        and f = ?f and now = 0]
    by (simp add: group done_api_def gang_first gang_held_def)
qed

section \<open>A reaped scout is elected again\<close>

text \<open>The cluster without a PodGroup, and the API as the scheduler reads it from the store.\<close>

definition without_group :: "mutator \<Rightarrow> string \<Rightarrow> string \<Rightarrow> mutator" where
  "without_group m ns g =
     m\<lparr>mu_client := map_option (\<lambda>s. s\<lparr>ks_groups := filter (\<lambda>pg. \<not> is_group ns g pg) (ks_groups s)\<rparr>) (mu_client m)\<rparr>"

definition store_api :: "mutator \<Rightarrow> pod list \<Rightarrow> api" where
  "store_api m pods =
     \<lparr>api_pods = (\<lambda>_. Inr pods),
      api_groups = (case mu_client m of None \<Rightarrow> Inl [] | Some s \<Rightarrow> Inr (ks_groups s)),
      api_group = (\<lambda>ns g. case mu_client m of None \<Rightarrow> Inl []
        | Some s \<Rightarrow> (case get_group s ns g of None \<Rightarrow> Inl [] | Some pg \<Rightarrow> Inr pg)),
      api_write = (\<lambda>_. None)\<rparr>"

definition finished_scout :: pod where
  "finished_scout = pair_scout\<lparr>p_phase := ''Succeeded'', p_labels := Some [(GroupLabel, ''vqe-scout'')],
     p_group := Some \<lparr>sg_name = Some ''vqe-scout''\<rparr>\<rparr>"

text \<open>
  The claim of the scout's slot does not outlive the scout. The webhook takes the absence
  of the scout's PodGroup for a gang without a scout, but the scheduler deletes that PodGroup as
  soon as the scout has finished; a replacement of a worker that is created after that is made a
  second scout, not gated and keeping the quantum device, although the gang has had its task.
\<close>
lemma reaped_scout_reelected:
  "let m1 = snd (quantum_mutate [] empty_cluster pair_scout);
       m2 = without_group m1 ''ns'' ''vqe-scout''
   in \<not> isScout m1 pair_scout ''vqe'' \<and>
      reconcileGroup (store_api m1 [finished_scout]) 0 ''ns'' ''vqe-scout'' = [DeleteGroup ''ns'' ''vqe-scout''] \<and>
      isScout m2 pair_scout ''vqe''"
  by code_simp

end
